(* ===== verification/Prelude.thy ===== *)
theory Prelude
  imports Main "HOL-Library.Word" "HOL-Library.Char_ord" "HOL-Library.List_Lexorder"
    "HOL-Library.Sublist" "HOL-Library.Code_Target_Nat"
begin

text \<open>
  Generic material shared by every component: byte strings and the few
  \<^verbatim>\<open>std::string\<close> searches the program uses, splitting and joining on a
  separator, decimal printing and reading, the machine-integer casts, and the ordered
  map (\<^verbatim>\<open>std::map\<close>) as a sorted association list behind an interface locale.

  A string is a list of bytes (type \<^typ>\<open>char\<close>), compared as \<^verbatim>\<open>std::string\<close>
  compares: lexicographically on unsigned bytes.
\<close>

named_theorems model_simps
  \<open>unfolding equations of small non-recursive model definitions\<close>

type_synonym u32 = "32 word"
type_synonym u64 = "64 word"

section \<open>Characters\<close>

definition is_digit :: "char \<Rightarrow> bool" where
  "is_digit c \<longleftrightarrow> CHR ''0'' \<le> c \<and> c \<le> CHR ''9''"

definition is_lower :: "char \<Rightarrow> bool" where
  "is_lower c \<longleftrightarrow> CHR ''a'' \<le> c \<and> c \<le> CHR ''z''"

definition is_upper :: "char \<Rightarrow> bool" where
  "is_upper c \<longleftrightarrow> CHR ''A'' \<le> c \<and> c \<le> CHR ''Z''"

definition is_alnum :: "char \<Rightarrow> bool" where
  "is_alnum c \<longleftrightarrow> is_upper c \<or> is_lower c \<or> is_digit c"

text \<open>The value \<^verbatim>\<open>c - '0'\<close> of a digit.\<close>

definition digit_val :: "char \<Rightarrow> nat" where
  "digit_val c = of_char c - 48"

definition digit_char :: "nat \<Rightarrow> char" where
  "digit_char d = char_of (48 + d)"

lemma is_digit_iff: "is_digit c \<longleftrightarrow> 48 \<le> (of_char c :: nat) \<and> (of_char c :: nat) \<le> 57"
  by (simp add: is_digit_def less_eq_char_def)

lemma digit_val_less: "is_digit c \<Longrightarrow> digit_val c < 10"
  by (auto simp: is_digit_iff digit_val_def)

lemma digit_char_0 [simp]: "digit_char 0 = CHR ''0''"
  by code_simp

lemma digit_char_digit [simp]: "d < 10 \<Longrightarrow> is_digit (digit_char d)"
  by (simp add: is_digit_iff digit_char_def)

lemma digit_val_char [simp]: "d < 10 \<Longrightarrow> digit_val (digit_char d) = d"
  by (simp add: digit_val_def digit_char_def)

lemma digit_char_val [simp]: "is_digit c \<Longrightarrow> digit_char (digit_val c) = c"
  by (simp add: digit_val_def digit_char_def is_digit_iff)

lemma is_digit_not_dot [simp]: "is_digit c \<Longrightarrow> c \<noteq> CHR ''.''"
  by (auto simp: is_digit_iff)

text \<open>\<^verbatim>\<open>std::tolower\<close> and \<^verbatim>\<open>std::toupper\<close> in the C locale, which
  the program never leaves.\<close>

definition to_lower :: "char \<Rightarrow> char" where
  "to_lower c = (if is_upper c then char_of (of_char c + 32 :: nat) else c)"

definition to_upper :: "char \<Rightarrow> char" where
  "to_upper c = (if is_lower c then char_of (of_char c - 32 :: nat) else c)"

section \<open>Searching and cutting strings\<close>

text \<open>\<^verbatim>\<open>s.find(c)\<close> with the text before and after the hit:
  \<^term>\<open>None\<close> is \<^verbatim>\<open>npos\<close>.\<close>

fun cut_at :: "char \<Rightarrow> string \<Rightarrow> (string \<times> string) option" where
  "cut_at c [] = None"
| "cut_at c (x # xs) =
     (if x = c then Some ([], xs)
      else (case cut_at c xs of None \<Rightarrow> None | Some (a, b) \<Rightarrow> Some (x # a, b)))"

lemma cut_at_None: "cut_at c s = None \<longleftrightarrow> c \<notin> set s"
  by (induction s) (auto split: option.splits)

lemma cut_at_absent [simp]: "c \<notin> set s \<Longrightarrow> cut_at c s = None"
  by (simp add: cut_at_None)

lemma cut_at_append [simp]: "c \<notin> set a \<Longrightarrow> cut_at c (a @ c # b) = Some (a, b)"
  by (induction a) auto

lemma cut_at_SomeD: "cut_at c s = Some (a, b) \<Longrightarrow> s = a @ c # b \<and> c \<notin> set a"
  by (induction s arbitrary: a) (auto split: if_splits option.splits)

lemma cut_at_Some_iff: "cut_at c s = Some (a, b) \<longleftrightarrow> s = a @ c # b \<and> c \<notin> set a"
  by (auto dest: cut_at_SomeD)

lemma cut_at_length: "cut_at c s = Some (a, b) \<Longrightarrow> length b < length s"
  by (auto simp: cut_at_Some_iff)

text \<open>\<^verbatim>\<open>starts_with\<close> and \<^verbatim>\<open>ends_with\<close>, in the argument order of the C++
  member functions.\<close>

definition starts_with :: "string \<Rightarrow> string \<Rightarrow> bool" where
  "starts_with s p \<longleftrightarrow> take (length p) s = p"

definition ends_with :: "string \<Rightarrow> string \<Rightarrow> bool" where
  "ends_with s p \<longleftrightarrow> length p \<le> length s \<and> drop (length s - length p) s = p"

lemma starts_with_iff: "starts_with s p \<longleftrightarrow> (\<exists>t. s = p @ t)"
  by (metis append_eq_conv_conj append_take_drop_id starts_with_def)

lemma ends_with_iff: "ends_with s p \<longleftrightarrow> (\<exists>t. s = t @ p)"
proof
  assume "ends_with s p"
  then show "\<exists>t. s = t @ p" by (metis append_take_drop_id ends_with_def)
next
  assume "\<exists>t. s = t @ p"
  then show "ends_with s p" by (auto simp: ends_with_def)
qed

section \<open>Splitting and joining\<close>

text \<open>All fields between separators: the specification the hand-written scanners of the
  program are compared with. A string without the separator is one field.\<close>

fun split_on :: "char \<Rightarrow> string \<Rightarrow> string list" where
  "split_on c [] = [[]]"
| "split_on c (x # xs) =
     (if x = c then [] # split_on c xs
      else (case split_on c xs of [] \<Rightarrow> [[x]] | f # fs \<Rightarrow> (x # f) # fs))"

fun join_with :: "string \<Rightarrow> string list \<Rightarrow> string" where
  "join_with sep [] = []"
| "join_with sep [x] = x"
| "join_with sep (x # y # zs) = x @ sep @ join_with sep (y # zs)"

lemma split_on_not_Nil [simp]: "split_on c s \<noteq> []"
  by (induction s) (auto split: list.splits)

lemma split_on_no_sep: "c \<notin> set s \<Longrightarrow> split_on c s = [s]"
  by (induction s) auto

lemma split_on_append: "c \<notin> set a \<Longrightarrow> split_on c (a @ c # b) = a # split_on c b"
  by (induction a) auto

lemma split_on_mid: "split_on c (xs @ c # ys) = split_on c xs @ split_on c ys"
  by (induction xs) (auto split: list.splits)

lemma split_on_fields: "f \<in> set (split_on c s) \<Longrightarrow> c \<notin> set f"
proof (induction s arbitrary: f)
  case Nil
  then show ?case by simp
next
  case (Cons x xs)
  then show ?case by (cases "split_on c xs") (auto split: if_splits)
qed

lemma split_on_chars: "f \<in> set (split_on c s) \<Longrightarrow> set f \<subseteq> set s"
proof (induction s arbitrary: f)
  case Nil
  then show ?case by simp
next
  case (Cons x xs)
  then show ?case by (cases "split_on c xs") (fastforce split: if_splits)+
qed

lemma join_with_Cons:
  "join_with sep (x # xs) = (if xs = [] then x else x @ sep @ join_with sep xs)"
  by (cases xs) auto

lemma join_split_on: "join_with [c] (split_on c s) = s"
proof (induction s)
  case Nil
  then show ?case by simp
next
  case (Cons x xs)
  then show ?case
    by (cases "split_on c xs") (auto simp: join_with_Cons split: if_splits)
qed

lemma split_join_on:
  "xs \<noteq> [] \<Longrightarrow> \<forall>x \<in> set xs. c \<notin> set x \<Longrightarrow> split_on c (join_with [c] xs) = xs"
proof (induction xs)
  case Nil
  then show ?case by simp
next
  case (Cons x xs)
  then show ?case
    by (cases "xs = []") (simp_all add: join_with_Cons split_on_no_sep split_on_append)
qed

section \<open>Decimal numbers\<close>

text \<open>\<^verbatim>\<open>std::to_string\<close> on a non-negative integer, and the accumulation
  \<^verbatim>\<open>v = v * 10 + (c - '0')\<close> that every reader of the program uses.\<close>

fun show_nat :: "nat \<Rightarrow> string" where
  "show_nat n = (if n < 10 then [digit_char n] else show_nat (n div 10) @ [digit_char (n mod 10)])"

declare show_nat.simps [simp del]

fun digits_val :: "nat \<Rightarrow> string \<Rightarrow> nat" where
  "digits_val v [] = v"
| "digits_val v (c # cs) = digits_val (v * 10 + digit_val c) cs"

definition show_int :: "int \<Rightarrow> string" where
  "show_int i = (if i < 0 then CHR ''-'' # show_nat (nat (- i)) else show_nat (nat i))"

lemma digits_val_snoc [simp]: "digits_val v (cs @ [c]) = digits_val v cs * 10 + digit_val c"
  by (induction cs arbitrary: v) auto

lemma digits_val_mono: "v \<le> digits_val v cs"
proof (induction cs arbitrary: v)
  case Nil
  then show ?case by simp
next
  case (Cons c cs)
  from Cons.IH [of "v * 10 + digit_val c"] show ?case by simp
qed

lemma show_nat_digits: "list_all is_digit (show_nat n)"
proof (induction n rule: show_nat.induct)
  case (1 n)
  then show ?case by (subst show_nat.simps) auto
qed

lemma show_nat_not_Nil [simp]: "show_nat n \<noteq> []"
  by (subst show_nat.simps) simp

lemma digits_val_show_nat [simp]: "digits_val 0 (show_nat n) = n"
proof (induction n rule: show_nat.induct)
  case (1 n)
  then show ?case by (subst show_nat.simps) auto
qed

lemma show_nat_inj: "show_nat m = show_nat n \<Longrightarrow> m = n"
  by (metis digits_val_show_nat)

text \<open>A digit string without a redundant leading zero is what printing its value gives.\<close>

lemma show_nat_digits_val:
  "list_all is_digit s \<Longrightarrow> s \<noteq> [] \<Longrightarrow> (length s > 1 \<Longrightarrow> hd s \<noteq> CHR ''0'') \<Longrightarrow>
   show_nat (digits_val 0 s) = s"
proof (induction s rule: rev_induct)
  case Nil
  then show ?case by simp
next
  case (snoc c cs)
  from snoc.prems(1) have c: "is_digit c" and cs: "list_all is_digit cs" by auto
  note dv = digit_val_less [OF c]
  show ?case
  proof (cases "cs = []")
    case True
    then show ?thesis using dv c by (subst show_nat.simps) simp
  next
    case False
    then have hd: "hd cs \<noteq> CHR ''0''" using snoc.prems(3) by (cases cs) auto
    have IH: "show_nat (digits_val 0 cs) = cs"
      using snoc.IH cs False hd by simp
    have "digits_val 0 cs \<noteq> 0"
    proof
      assume "digits_val 0 cs = 0"
      with IH have "cs = [digit_char 0]" by (simp add: show_nat.simps)
      with hd show False by simp
    qed
    then show ?thesis using dv c IH by (subst show_nat.simps) simp
  qed
qed

lemma hd_show_nat: "1 < length (show_nat n) \<Longrightarrow> hd (show_nat n) \<noteq> CHR ''0''"
proof (induction n rule: show_nat.induct)
  case (1 n)
  show ?case
  proof (cases "n < 10")
    case True
    with "1.prems" show ?thesis by (simp add: show_nat.simps)
  next
    case False
    have eq: "show_nat n = show_nat (n div 10) @ [digit_char (n mod 10)]"
      using False by (subst show_nat.simps) simp
    show ?thesis
    proof (cases "n div 10 < 10")
      case True
      with False have "n div 10 \<noteq> 0" by simp
      then have "digit_char (n div 10) \<noteq> CHR ''0''"
        using True digit_val_char [OF True] by (auto simp: digit_val_def)
      with eq True show ?thesis by (simp add: show_nat.simps [of "n div 10"])
    next
      case f2: False
      then have "1 < length (show_nat (n div 10))"
        by (subst show_nat.simps) (simp add: Suc_lessI)
      with False "1.IH" eq show ?thesis by simp
    qed
  qed
qed

lemma length_show_nat_le: "n < 10 ^ k \<Longrightarrow> 0 < k \<Longrightarrow> length (show_nat n) \<le> k"
proof (induction k arbitrary: n)
  case 0
  then show ?case by simp
next
  case (Suc k)
  show ?case
  proof (cases "n < 10")
    case True
    then show ?thesis by (simp add: show_nat.simps)
  next
    case False
    with Suc.prems have "0 < k" by (cases k) auto
    with Suc have "length (show_nat (n div 10)) \<le> k" by simp
    with False show ?thesis by (subst show_nat.simps) simp
  qed
qed

lemma digits_val_less:
  "list_all is_digit s \<Longrightarrow> digits_val 0 s < 10 ^ length s"
proof (induction s rule: rev_induct)
  case Nil
  then show ?case by simp
next
  case (snoc c cs)
  then have "digits_val 0 cs < 10 ^ length cs" and "digit_val c < 10"
    by (auto dest: digit_val_less)
  then show ?case by simp
qed

text \<open>The characters of a class, written out for the grammars.\<close>

definition lower_letters :: string where
  "lower_letters = ''abcdefghijklmnopqrstuvwxyz''"

definition upper_letters :: string where
  "upper_letters = ''ABCDEFGHIJKLMNOPQRSTUVWXYZ''"

definition decimal_digits :: string where
  "decimal_digits = ''0123456789''"

lemma is_digit_set: "is_digit c \<longleftrightarrow> c \<in> set decimal_digits"
proof -
  have "\<forall>c. is_digit c \<longleftrightarrow> c \<in> set decimal_digits" by code_simp
  then show ?thesis by blast
qed

lemma is_lower_set: "is_lower c \<longleftrightarrow> c \<in> set lower_letters"
proof -
  have "\<forall>c. is_lower c \<longleftrightarrow> c \<in> set lower_letters" by code_simp
  then show ?thesis by blast
qed

lemma is_upper_set: "is_upper c \<longleftrightarrow> c \<in> set upper_letters"
proof -
  have "\<forall>c. is_upper c \<longleftrightarrow> c \<in> set upper_letters" by code_simp
  then show ?thesis by blast
qed

lemmas char_sets = is_digit_set is_lower_set is_upper_set

text \<open>Numbers with leading zeros.\<close>

lemma digits_val_zeros [simp]: "digits_val 0 (replicate z CHR ''0'' @ s) = digits_val 0 s"
  by (induction z) (simp_all add: digit_val_def)

lemma digits_zeros:
  assumes "list_all is_digit ds" and "0 < digits_val 0 ds"
  shows "\<exists>z. ds = replicate z CHR ''0'' @ show_nat (digits_val 0 ds)"
  using assms
proof (induction ds)
  case (Cons c cs)
  show ?case
  proof (cases "c = CHR ''0''")
    case True
    then have "digits_val 0 (c # cs) = digits_val 0 cs" by (simp add: digit_val_def)
    with Cons True obtain z where "cs = replicate z CHR ''0'' @ show_nat (digits_val 0 cs)" by auto
    with True \<open>digits_val 0 (c # cs) = digits_val 0 cs\<close>
    have "c # cs = replicate (Suc z) CHR ''0'' @ show_nat (digits_val 0 (c # cs))" by simp
    then show ?thesis by blast
  next
    case False
    with Cons.prems show_nat_digits_val [of "c # cs"] show ?thesis by (intro exI [of _ 0]) simp
  qed
qed simp

section \<open>Integer casts\<close>

text \<open>\<^verbatim>\<open>static_cast<int>\<close> of a wider integer keeps the low 32 bits, read as two's
  complement.\<close>

definition cast_int :: "int \<Rightarrow> int" where
  "cast_int v = sint (word_of_int v :: 32 word)"

lemma cast_int_id: "- (2 ^ 31) \<le> v \<Longrightarrow> v < 2 ^ 31 \<Longrightarrow> cast_int v = v"
  by (simp add: cast_int_def int_word_sint)

end
