(* ===== verification/App.thy ===== *)
theory App
  imports Prelude
begin

text \<open>
  The constants of \<^verbatim>\<open>src/app.h\<close>. Times are in the unit their source name says,
  sizes in bytes.
\<close>

definition app_name :: string where "app_name = ''yca''"

definition passphrase_env :: string where "passphrase_env = ''CA_STORE_PASSPHRASE''"

definition pin_env :: string where "pin_env = ''CA_HSM_PIN''"

definition root_pin_env :: string where "root_pin_env = ''CA_HSM_ROOT_PIN''"

definition config_table :: string where "config_table = ''ca_config''"

definition purpose_table :: string where "purpose_table = ''ca_purpose''"

definition spiffe_trust_domain_max :: nat where "spiffe_trust_domain_max = 255"

definition spiffe_id_max :: nat where "spiffe_id_max = 2048"

definition default_list_window_days :: int where "default_list_window_days = 30"

definition default_list_limit :: int where "default_list_limit = 50"

definition min_valid_override_minutes :: int where "min_valid_override_minutes = 5"

definition max_nonce_validity :: nat where "max_nonce_validity = 5"

definition nonce_rotate_floor_secs :: nat where "nonce_rotate_floor_secs = 60"

definition nonce_rotate_pct :: nat where "nonce_rotate_pct = 20"

definition renew_window_pct :: nat where "renew_window_pct = 33"

definition passphrase_bytes :: nat where "passphrase_bytes = 32"

definition nonce_bytes :: nat where "nonce_bytes = 32"

definition crl_next_update_days :: int where "crl_next_update_days = 7"

definition root_crl_next_update_days :: int where "root_crl_next_update_days = 183"

definition crl_next_update_floor_secs :: nat where "crl_next_update_floor_secs = 60 * 60"

definition p11_token_label_max :: nat where "p11_token_label_max = 32"

definition list_serial_hex :: nat where "list_serial_hex = 32"

lemmas app_consts =
  app_name_def passphrase_env_def pin_env_def root_pin_env_def config_table_def
  purpose_table_def spiffe_trust_domain_max_def spiffe_id_max_def
  default_list_window_days_def default_list_limit_def min_valid_override_minutes_def
  max_nonce_validity_def nonce_rotate_floor_secs_def nonce_rotate_pct_def
  renew_window_pct_def passphrase_bytes_def nonce_bytes_def crl_next_update_days_def
  root_crl_next_update_days_def crl_next_update_floor_secs_def p11_token_label_max_def
  list_serial_hex_def

end
