(* ===== verification/Util.thy ===== *)
theory Util
  imports App
begin

text \<open>
  The validators and parsers of \<^verbatim>\<open>src/util.cpp\<close>, with the grammars they accept.
  A scanning position into a string is represented by the rest of the string from that
  position on.
\<close>

section \<open>Slugs\<close>

definition slug :: "string \<Rightarrow> string" where
  "slug nm = map (\<lambda>c. if c = CHR '' '' then CHR ''-'' else to_lower c) nm"

section \<open>IPv4 addresses\<close>

fun ipv4_digits :: "nat \<Rightarrow> string \<Rightarrow> nat option" where
  "ipv4_digits v [] = Some v"
| "ipv4_digits v (c # cs) =
     (if c < CHR ''0'' \<or> c > CHR ''9'' then None
      else ipv4_digits (v * 10 + digit_val c) cs)"

definition ipv4_part :: "string \<Rightarrow> nat option" where
  "ipv4_part part =
     (if part = [] \<or> length part > 3 then None
      else if length part > 1 \<and> hd part = CHR ''0'' then None
      else case ipv4_digits 0 part of
             None \<Rightarrow> None
           | Some v \<Rightarrow> if v > 255 then None else Some v)"

definition ipv4_push :: "u32 \<Rightarrow> nat \<Rightarrow> u32" where
  "ipv4_push result v = or (push_bit 8 result) (of_nat v)"

text \<open>The first argument counts the parts still to read; the last one must be ended by
  the end of the string, every other by a dot.\<close>

fun ipv4_loop :: "nat \<Rightarrow> u32 \<Rightarrow> string \<Rightarrow> u32 option" where
  "ipv4_loop 0 result rest = Some result"
| "ipv4_loop (Suc k) result rest =
     (let last = (k = 0); dot = cut_at CHR ''.'' rest in
      if last \<noteq> (dot = None) then None
      else
        let part = (case dot of None \<Rightarrow> rest | Some (p, _) \<Rightarrow> p) in
        case ipv4_part part of
          None \<Rightarrow> None
        | Some v \<Rightarrow>
            ipv4_loop k (ipv4_push result v)
              (case dot of None \<Rightarrow> rest | Some (_, r) \<Rightarrow> r))"

definition parse_ipv4 :: "string \<Rightarrow> u32 option" where
  "parse_ipv4 s = ipv4_loop 4 0 s"

text \<open>Specification: dotted decimal notation, most significant octet first.\<close>

definition print_ipv4 :: "u32 \<Rightarrow> string" where
  "print_ipv4 w =
     join_with ''.'' (map show_nat
       [unat w div 2 ^ 24, unat w div 2 ^ 16 mod 256, unat w div 2 ^ 8 mod 256, unat w mod 256])"

lemma ipv4_digits_Some: "ipv4_digits v s = Some n \<longleftrightarrow> list_all is_digit s \<and> n = digits_val v s"
  by (induction s arbitrary: v) (auto simp: is_digit_def)

lemma ipv4_part_Some: "ipv4_part p = Some v \<longleftrightarrow> v < 256 \<and> p = show_nat v"
proof
  assume "ipv4_part p = Some v"
  then have "p \<noteq> []" "length p > 1 \<Longrightarrow> hd p \<noteq> CHR ''0''" "list_all is_digit p"
      "v = digits_val 0 p" "v < 256"
    by (auto simp: ipv4_part_def ipv4_digits_Some split: if_splits option.splits)
  then show "v < 256 \<and> p = show_nat v" by (simp add: show_nat_digits_val)
next
  assume "v < 256 \<and> p = show_nat v"
  moreover have "ipv4_digits 0 (show_nat v) = Some v"
    by (simp add: ipv4_digits_Some show_nat_digits)
  ultimately show "ipv4_part p = Some v"
    using length_show_nat_le [of v 3] hd_show_nat [of v] by (auto simp: ipv4_part_def)
qed

lemma show_nat_no_dot: "CHR ''.'' \<notin> set (show_nat n)"
  by (metis is_digit_not_dot list_all_iff show_nat_digits)

declare ipv4_loop.simps(2) [simp del]

lemma ipv4_loop_last: "ipv4_loop (Suc 0) r s = Some w \<longleftrightarrow>
  (\<exists>v<256. s = show_nat v \<and> w = ipv4_push r v)"
proof (cases "CHR ''.'' \<in> set s")
  case True
  then have "cut_at CHR ''.'' s \<noteq> None" by (simp add: cut_at_None)
  then show ?thesis using True
    by (auto simp: ipv4_loop.simps(2) Let_def show_nat_no_dot)
next
  case False
  then have "ipv4_loop (Suc 0) r s = Some w \<longleftrightarrow>
      (\<exists>v. ipv4_part s = Some v \<and> w = ipv4_push r v)"
    by (cases "ipv4_part s") (auto simp: ipv4_loop.simps(2) Let_def)
  then show ?thesis by (auto simp: ipv4_part_Some)
qed

lemma ipv4_loop_more: "ipv4_loop (Suc (Suc k)) r s = Some w \<longleftrightarrow>
  (\<exists>v<256. \<exists>t. s = show_nat v @ CHR ''.'' # t \<and>
     ipv4_loop (Suc k) (ipv4_push r v) t = Some w)"
proof (cases "cut_at CHR ''.'' s")
  case None
  then have "CHR ''.'' \<notin> set s" by (simp add: cut_at_None)
  with None show ?thesis by (auto simp: ipv4_loop.simps(2) [of "Suc k"] Let_def)
next
  case (Some pr)
  obtain p t where pr: "pr = (p, t)" by (cases pr)
  with Some have s: "s = p @ CHR ''.'' # t" and p: "CHR ''.'' \<notin> set p"
    by (auto dest: cut_at_SomeD)
  have "ipv4_loop (Suc (Suc k)) r s = Some w \<longleftrightarrow>
     (\<exists>v. ipv4_part p = Some v \<and> ipv4_loop (Suc k) (ipv4_push r v) t = Some w)"
    using Some pr by (subst ipv4_loop.simps(2)) (auto simp: Let_def split: option.splits)
  moreover have "s = show_nat v @ CHR ''.'' # t' \<longleftrightarrow> p = show_nat v \<and> t' = t" for v t'
    using s p show_nat_no_dot [of v] cut_at_append [OF p, of t]
    by (metis cut_at_append option.inject prod.inject)
  ultimately show ?thesis by (auto simp: ipv4_part_Some)
qed

lemma ipv4_loop_moreI:
  "v < 256 \<Longrightarrow> ipv4_loop (Suc k) (ipv4_push r v) t = Some w \<Longrightarrow>
   ipv4_loop (Suc (Suc k)) r (show_nat v @ CHR ''.'' # t) = Some w"
  by (auto simp: ipv4_loop_more)

lemma ipv4_loop_lastI: "v < 256 \<Longrightarrow> ipv4_loop (Suc 0) r (show_nat v) = Some (ipv4_push r v)"
  by (auto simp: ipv4_loop_last)

text \<open>The accumulation \<^verbatim>\<open>(result << 8) | v\<close> read as a number.\<close>

lemma unat_ipv4_push:
  fixes r :: u32
  assumes "unat r < 2 ^ 24" and "v < 256"
  shows "unat (ipv4_push r v) = unat r * 256 + v"
proof -
  have "or (push_bit 8 r) (of_nat v :: u32) = push_bit 8 r + of_nat v"
  proof (rule disjunctive_add [symmetric])
    fix n
    show "\<not> bit (push_bit 8 r) n \<or> \<not> bit (of_nat v :: u32) n"
    proof (cases "n < 8")
      case True
      then show ?thesis by (simp add: bit_push_bit_iff)
    next
      case False
      have "take_bit 8 v = v" using assms(2) by (simp add: take_bit_nat_eq_self)
      then have "\<not> bit v n" using False by (metis bit_take_bit_iff)
      then show ?thesis by (simp add: bit_of_nat_iff)
    qed
  qed
  also have "\<dots> = of_nat (unat r * 256 + v)"
    by (simp add: push_bit_eq_mult)
  finally show ?thesis
    using assms by (simp only: unat_of_nat ipv4_push_def) simp
qed

definition ipv4_of :: "nat \<Rightarrow> nat \<Rightarrow> nat \<Rightarrow> nat \<Rightarrow> nat" where
  "ipv4_of a b c d = ((a * 256 + b) * 256 + c) * 256 + d"

lemma parse_ipv4_iff:
  "parse_ipv4 s = Some w \<longleftrightarrow>
   (\<exists>a<256. \<exists>b<256. \<exists>c<256. \<exists>d<256.
      s = join_with ''.'' (map show_nat [a, b, c, d]) \<and> unat w = ipv4_of a b c d)"
proof -
  have sh: "unat (ipv4_push (ipv4_push (ipv4_push (ipv4_push 0 a) b) c) d) = ipv4_of a b c d"
    if "a < 256" "b < 256" "c < 256" "d < 256" for a b c d
    using that by (simp add: unat_ipv4_push ipv4_of_def)
  have four: "4 = Suc (Suc (Suc (Suc 0)))" by simp
  have eq: "w = x \<longleftrightarrow> unat w = unat x" for x :: u32 by (rule word_unat_eq_iff)
  show ?thesis
  proof
    assume "parse_ipv4 s = Some w"
    then obtain a b c d where "a < 256" "b < 256" "c < 256" "d < 256"
        and "w = ipv4_push (ipv4_push (ipv4_push (ipv4_push 0 a) b) c) d"
        and "s = join_with ''.'' (map show_nat [a, b, c, d])"
      by (auto simp: parse_ipv4_def four ipv4_loop_more ipv4_loop_last)
    then show "\<exists>a<256. \<exists>b<256. \<exists>c<256. \<exists>d<256.
        s = join_with ''.'' (map show_nat [a, b, c, d]) \<and> unat w = ipv4_of a b c d"
      using sh by blast
  next
    assume "\<exists>a<256. \<exists>b<256. \<exists>c<256. \<exists>d<256.
        s = join_with ''.'' (map show_nat [a, b, c, d]) \<and> unat w = ipv4_of a b c d"
    then obtain a b c d where "a < 256" "b < 256" "c < 256" "d < 256"
        and "w = ipv4_push (ipv4_push (ipv4_push (ipv4_push 0 a) b) c) d"
        and "s = join_with ''.'' (map show_nat [a, b, c, d])"
      unfolding eq by (auto simp: sh)
    then show "parse_ipv4 s = Some w"
      by (auto simp: parse_ipv4_def four intro!: ipv4_loop_moreI ipv4_loop_lastI)
  qed
qed

lemma div_256s:
  fixes n :: nat
  shows "n div 2 ^ 24 = n div 256 div 256 div 256" "n div 2 ^ 16 = n div 256 div 256"
    "n div 2 ^ 8 = n div 256"
  by (simp_all add: div_mult2_eq [symmetric])

lemma div_mod_256:
  fixes d x :: nat
  assumes "d < 256"
  shows "(x * 256 + d) div 256 = x" "(x * 256 + d) mod 256 = d"
  using assms by simp_all

lemma ipv4_of_digits:
  assumes "a < 256" "b < 256" "c < 256" "d < 256"
  shows "ipv4_of a b c d div 2 ^ 24 = a" "ipv4_of a b c d div 2 ^ 16 mod 256 = b"
    "ipv4_of a b c d div 2 ^ 8 mod 256 = c" "ipv4_of a b c d mod 256 = d"
  unfolding ipv4_of_def div_256s using assms by (simp_all only: div_mod_256)

lemma ipv4_of_parts:
  "ipv4_of (n div 2 ^ 24) (n div 2 ^ 16 mod 256) (n div 2 ^ 8 mod 256) (n mod 256) = n"
  unfolding ipv4_of_def div_256s by simp

text \<open>C25. The IPv4 parser accepts exactly the dotted decimal notation of a 32-bit address and
  returns that address: it is the inverse of printing, so no two strings name the same address
  and nothing else (leading zeros, missing or extra parts, values above 255) is accepted.\<close>

theorem parse_ipv4_print: "parse_ipv4 s = Some w \<longleftrightarrow> s = print_ipv4 w"
proof
  assume "parse_ipv4 s = Some w"
  then obtain a b c d where "a < 256" "b < 256" "c < 256" "d < 256"
      and s: "s = join_with ''.'' (map show_nat [a, b, c, d])" and w: "unat w = ipv4_of a b c d"
    by (auto simp: parse_ipv4_iff)
  then show "s = print_ipv4 w"
    by (simp only: print_ipv4_def s w ipv4_of_digits)
next
  assume s: "s = print_ipv4 w"
  have "unat w div 2 ^ 24 < 256" using unsigned_less [where 'a = nat, of w] by simp
  moreover have "unat w = ipv4_of (unat w div 2 ^ 24) (unat w div 2 ^ 16 mod 256)
      (unat w div 2 ^ 8 mod 256) (unat w mod 256)"
    by (rule ipv4_of_parts [symmetric])
  moreover have "n mod 256 < 256" for n :: nat by simp
  ultimately show "parse_ipv4 s = Some w"
    unfolding parse_ipv4_iff s print_ipv4_def by blast
qed

section \<open>Durations\<close>

definition duration_mult :: "char \<Rightarrow> nat option" where
  "duration_mult c =
     (if c = CHR ''s'' then Some 1
      else if c = CHR ''m'' then Some 60
      else if c = CHR ''h'' then Some (60 * 60)
      else if c = CHR ''d'' then Some (24 * 60 * 60)
      else None)"

fun duration_digits :: "nat \<Rightarrow> string \<Rightarrow> nat option" where
  "duration_digits v [] = Some v"
| "duration_digits v (c # cs) =
     (if c < CHR ''0'' \<or> c > CHR ''9'' then None
      else let v' = v * 10 + digit_val c in
           if v' > 1000000000 then None else duration_digits v' cs)"

definition parse_duration :: "string \<Rightarrow> nat option" where
  "parse_duration s =
     (if length s < 2 then None
      else case duration_mult (last s) of
             None \<Rightarrow> None
           | Some mult \<Rightarrow>
               (case duration_digits 0 (butlast s) of
                  None \<Rightarrow> None
                | Some v \<Rightarrow> if v = 0 then None else Some (v * mult)))"

lemma duration_digits_Some:
  "v \<le> 1000000000 \<Longrightarrow> duration_digits v s = Some n \<longleftrightarrow>
   list_all is_digit s \<and> n = digits_val v s \<and> n \<le> 1000000000"
proof (induction s arbitrary: v)
  case Nil
  then show ?case by auto
next
  case (Cons c cs)
  show ?case
    using Cons.IH [of "v * 10 + digit_val c"] digits_val_mono [of "v * 10 + digit_val c" cs]
    by (auto simp: Let_def is_digit_def)
qed

lemma duration_digits_eq:
  "duration_digits 0 ds =
   (if list_all is_digit ds \<and> digits_val 0 ds \<le> 1000000000 then Some (digits_val 0 ds) else None)"
proof -
  have "duration_digits 0 ds = Some n \<longleftrightarrow>
      list_all is_digit ds \<and> n = digits_val 0 ds \<and> n \<le> 1000000000" for n
    by (rule duration_digits_Some) simp
  then show ?thesis by (metis not_None_eq)
qed

lemma duration_mult_pos: "duration_mult u = Some m \<Longrightarrow> 0 < m \<and> m \<le> 86400"
  by (auto simp: duration_mult_def split: if_splits)

lemma parse_duration_iff:
  "parse_duration s = Some n \<longleftrightarrow>
   (\<exists>ds u m. s = ds @ [u] \<and> ds \<noteq> [] \<and> list_all is_digit ds \<and> duration_mult u = Some m \<and>
      0 < digits_val 0 ds \<and> digits_val 0 ds \<le> 1000000000 \<and> n = digits_val 0 ds * m)"
proof (cases s rule: rev_cases)
  case Nil
  then show ?thesis by (simp add: parse_duration_def)
next
  case (snoc ds u)
  have "length s < 2 \<longleftrightarrow> ds = []" using snoc by (cases ds) auto
  then show ?thesis using snoc
    by (auto simp: parse_duration_def duration_digits_eq split: option.splits)
qed

lemma parse_duration_bound: "parse_duration s = Some n \<Longrightarrow> 0 < n \<and> n \<le> 86400 * 10 ^ 9"
proof -
  assume "parse_duration s = Some n"
  then obtain v m where "0 < v" "v \<le> 10 ^ 9" "0 < m" "m \<le> 86400" "n = v * m"
    unfolding parse_duration_iff by (auto dest: duration_mult_pos)
  then show ?thesis using mult_le_mono [of v "10 ^ 9" m 86400] by simp
qed

lemma duration_mult_units:
  "duration_mult u = Some m \<longleftrightarrow>
   (u, m) \<in> {(CHR ''s'', 1), (CHR ''m'', 60), (CHR ''h'', 3600), (CHR ''d'', 86400)}"
  by (auto simp: duration_mult_def)

text \<open>C26. A duration is accepted exactly when it is the decimal notation of a number from 1 to 10^9,
  possibly after leading zeros, followed by one letter: s, m, h or d. The result is the number times 1, 60,
  3600 or 86400.\<close>

theorem parse_duration_grammar:
  "parse_duration s = Some n \<longleftrightarrow>
   (\<exists>z v u m. s = replicate z CHR ''0'' @ show_nat v @ [u] \<and> 0 < v \<and> v \<le> 1000000000 \<and> n = v * m \<and>
      (u, m) \<in> {(CHR ''s'', 1), (CHR ''m'', 60), (CHR ''h'', 3600), (CHR ''d'', 86400)})"
proof
  assume "parse_duration s = Some n"
  then obtain ds u m where s: "s = ds @ [u]" and ds: "list_all is_digit ds" "0 < digits_val 0 ds"
      and rest: "digits_val 0 ds \<le> 1000000000" "n = digits_val 0 ds * m" "duration_mult u = Some m"
    unfolding parse_duration_iff by blast
  from digits_zeros [OF ds] obtain z where "ds = replicate z CHR ''0'' @ show_nat (digits_val 0 ds)" ..
  with s have "s = replicate z CHR ''0'' @ show_nat (digits_val 0 ds) @ [u]" by simp
  with ds(2) rest show "\<exists>z v u m. s = replicate z CHR ''0'' @ show_nat v @ [u] \<and> 0 < v \<and> v \<le> 1000000000 \<and> n = v * m \<and>
      (u, m) \<in> {(CHR ''s'', 1), (CHR ''m'', 60), (CHR ''h'', 3600), (CHR ''d'', 86400)}"
    unfolding duration_mult_units by blast
next
  assume "\<exists>z v u m. s = replicate z CHR ''0'' @ show_nat v @ [u] \<and> 0 < v \<and> v \<le> 1000000000 \<and> n = v * m \<and>
      (u, m) \<in> {(CHR ''s'', 1), (CHR ''m'', 60), (CHR ''h'', 3600), (CHR ''d'', 86400)}"
  then obtain z v u m where "s = (replicate z CHR ''0'' @ show_nat v) @ [u]" "0 < v" "v \<le> 1000000000" "n = v * m"
      "duration_mult u = Some m"
    unfolding duration_mult_units by force
  moreover have "list_all is_digit (replicate z CHR ''0'' @ show_nat v)"
    using show_nat_digits [of v] by (auto simp: list_all_iff is_digit_def)
  ultimately show "parse_duration s = Some n"
    unfolding parse_duration_iff by (metis append_is_Nil_conv digits_val_show_nat digits_val_zeros show_nat_not_Nil)
qed

section \<open>DNS names\<close>

text \<open>The loop of \<^verbatim>\<open>valid_hostname\<close>: \<open>label\<close> counts the characters of
  the current label, \<open>prev\<close> is \<^verbatim>\<open>s[i - 1]\<close>, read only after a character.\<close>

fun hostname_loop :: "nat \<Rightarrow> char \<Rightarrow> string \<Rightarrow> bool" where
  "hostname_loop label prev [] \<longleftrightarrow> label > 0 \<and> prev \<noteq> CHR ''-''"
| "hostname_loop label prev (c # cs) =
     (if c = CHR ''.'' then
        (if label = 0 \<or> prev = CHR ''-'' then False else hostname_loop 0 c cs)
      else if \<not> is_alnum c \<and> c \<noteq> CHR ''-'' then False
      else if c = CHR ''-'' \<and> label = 0 then False
      else if label + 1 > 63 then False
      else hostname_loop (label + 1) c cs)"

definition valid_hostname :: "string \<Rightarrow> bool" where
  "valid_hostname s \<longleftrightarrow>
     (if s = [] \<or> length s > 253 then False else hostname_loop 0 (CHR ''.'') s)"

definition dns_last :: "string \<Rightarrow> string" where
  "dns_last host =
     (case cut_at CHR ''.'' (rev host) of None \<Rightarrow> host | Some (l, _) \<Rightarrow> rev l)"

definition dns_safe :: "string \<Rightarrow> bool" where
  "dns_safe s =
     (let host = (if starts_with s ''*.'' then drop 2 s else s) in
      if \<not> valid_hostname host then False
      else list_ex (\<lambda>c. \<not> is_digit c) (dns_last host))"

text \<open>Specification: RFC 1123 labels.\<close>

definition host_label :: "string \<Rightarrow> bool" where
  "host_label l \<longleftrightarrow> 1 \<le> length l \<and> length l \<le> 63 \<and>
     list_all (\<lambda>c. is_alnum c \<or> c = CHR ''-'') l \<and> hd l \<noteq> CHR ''-'' \<and> last l \<noteq> CHR ''-''"

definition open_label :: "string \<Rightarrow> bool" where
  "open_label l \<longleftrightarrow> length l \<le> 63 \<and> list_all (\<lambda>c. is_alnum c \<or> c = CHR ''-'') l \<and>
     (l \<noteq> [] \<longrightarrow> hd l \<noteq> CHR ''-'')"

lemma not_alnum_punct [simp]:
  "\<not> is_alnum CHR ''.''" "\<not> is_alnum CHR ''-''" "\<not> is_alnum CHR '':''" "\<not> is_alnum CHR ''/''"
  "\<not> is_alnum CHR '','' " "\<not> is_alnum CHR '';''" "\<not> is_alnum CHR ''=''" "\<not> is_alnum CHR ''*''"
  by code_simp+

lemma open_label_no_dot: "open_label l \<Longrightarrow> CHR ''.'' \<notin> set l"
  by (auto simp: open_label_def list_all_iff)

lemma host_label_open: "host_label l \<longleftrightarrow> open_label l \<and> l \<noteq> [] \<and> last l \<noteq> CHR ''-''"
  by (auto simp: host_label_def open_label_def Suc_le_eq)

lemma open_label_snoc:
  "open_label (l @ [c]) \<longleftrightarrow> open_label l \<and> length l < 63 \<and> (is_alnum c \<or> c = CHR ''-'') \<and>
     (l = [] \<longrightarrow> c \<noteq> CHR ''-'')"
  by (cases l) (auto simp: open_label_def)

lemma hostname_loop_labels:
  "open_label l \<Longrightarrow> (l \<noteq> [] \<longrightarrow> prev = last l) \<Longrightarrow>
   hostname_loop (length l) prev s \<longleftrightarrow> list_all host_label (split_on CHR ''.'' (l @ s))"
proof (induction s arbitrary: l prev)
  case Nil
  then show ?case
    by (simp add: split_on_no_sep open_label_no_dot) (auto simp: host_label_open)
next
  case (Cons c s)
  note nd = open_label_no_dot [OF Cons.prems(1)]
  show ?case
  proof (cases "c = CHR ''.''")
    case True
    have "open_label []" by (simp add: open_label_def)
    from Cons.IH [OF this, of c] Cons.prems True show ?thesis
      by (auto simp: split_on_append [OF nd] host_label_open)
  next
    case False
    show ?thesis
    proof (cases "open_label (l @ [c])")
      case True
      from Cons.IH [OF True, of c] True False show ?thesis
        by (auto simp: open_label_snoc)
    next
      case bad: False
      have "\<exists>f fs. split_on CHR ''.'' (l @ c # s) = (l @ c # f) # fs"
        using nd False by (induction l) (auto split: list.splits)
      moreover have "\<not> host_label (l @ c # f)" for f
        using bad by (cases l) (auto simp: host_label_def open_label_def)
      ultimately have "\<not> list_all host_label (split_on CHR ''.'' (l @ c # s))" by auto
      then show ?thesis using bad False Cons.prems(1) by (auto simp: open_label_snoc)
    qed
  qed
qed

text \<open>C24. The host name scanner accepts exactly the RFC 1123 host names: one to 253 characters,
  and every dot-separated label has one to 63 letters, digits and hyphens and neither starts nor
  ends with a hyphen.\<close>

theorem valid_hostname_labels:
  "valid_hostname s \<longleftrightarrow> length s \<le> 253 \<and> list_all host_label (split_on CHR ''.'' s)"
  using hostname_loop_labels [of "[]" "CHR ''.''" s]
  by (auto simp: valid_hostname_def open_label_def host_label_def)

lemma dns_last_split: "dns_last s = last (split_on CHR ''.'' s)"
proof (cases "cut_at CHR ''.'' (rev s)")
  case None
  then show ?thesis by (simp add: dns_last_def cut_at_None split_on_no_sep)
next
  case (Some pr)
  obtain a b where pr: "pr = (a, b)" by (cases pr)
  with Some have "rev s = a @ CHR ''.'' # b" and "CHR ''.'' \<notin> set a" by (auto dest: cut_at_SomeD)
  then have "s = rev b @ CHR ''.'' # rev a" and a: "CHR ''.'' \<notin> set (rev a)"
    by (simp_all add: rev_swap)
  moreover have "last (split_on CHR ''.'' (xs @ CHR ''.'' # rev a)) = rev a" for xs
    using a by (simp add: split_on_mid split_on_no_sep)
  ultimately show ?thesis using Some pr by (simp add: dns_last_def)
qed

text \<open>A name accepted for a dNSName SAN is never an IPv4 literal: every string the IPv4 parser
  accepts is refused.\<close>

theorem dns_safe_not_ipv4: "\<not> (dns_safe s \<and> parse_ipv4 s \<noteq> None)"
proof
  assume "dns_safe s \<and> parse_ipv4 s \<noteq> None"
  then obtain w where safe: "dns_safe s" and "parse_ipv4 s = Some w" by auto
  then obtain a b c d where s: "s = join_with ''.'' (map show_nat [a, b, c, d])"
    by (auto simp: parse_ipv4_iff)
  have "split_on CHR ''.'' s = map show_nat [a, b, c, d]"
    unfolding s by (rule split_join_on) (auto simp: show_nat_no_dot)
  then have last: "list_all is_digit (dns_last s)"
    by (simp add: dns_last_split show_nat_digits)
  have "hd (show_nat a) \<noteq> CHR ''*''"
    using show_nat_digits [of a] by (cases "show_nat a") (auto simp: is_digit_iff)
  then have "\<not> starts_with s ''*.''"
    unfolding s by (cases "show_nat a") (auto simp: starts_with_def)
  with safe last show False
    by (auto simp: dns_safe_def Let_def list_ex_iff list_all_iff split: if_splits)
qed

section \<open>Graphic ASCII and URIs\<close>

definition graphic :: "char \<Rightarrow> bool" where
  "graphic c \<longleftrightarrow> \<not> ((of_char c :: nat) < 0x21 \<or> (of_char c :: nat) > 0x7E)"

definition ascii_graphic :: "string \<Rightarrow> bool" where
  "ascii_graphic s \<longleftrightarrow> (if s = [] then False else list_all graphic s)"

definition uri_safe :: "string \<Rightarrow> bool" where
  "uri_safe s \<longleftrightarrow>
     (if \<not> ascii_graphic s then False
      else case cut_at CHR '':'' s of
             None \<Rightarrow> False
           | Some (scheme, rest) \<Rightarrow>
               if scheme = [] \<or> rest = [] then False
               else if \<not> (is_upper (hd s) \<or> is_lower (hd s)) then False
               else list_all (\<lambda>c. is_alnum c \<or> c = CHR ''+'' \<or> c = CHR ''-'' \<or> c = CHR ''.'')
                      (tl scheme))"

section \<open>SPIFFE IDs\<close>

definition td_char :: "char \<Rightarrow> bool" where
  "td_char c \<longleftrightarrow> is_lower c \<or> is_digit c \<or> c = CHR ''.'' \<or> c = CHR ''-'' \<or> c = CHR ''_''"

definition path_char :: "char \<Rightarrow> bool" where
  "path_char c \<longleftrightarrow> is_alnum c \<or> c = CHR ''.'' \<or> c = CHR ''-'' \<or> c = CHR ''_''"

definition spiffe_segment :: "string \<Rightarrow> bool" where
  "spiffe_segment seg \<longleftrightarrow>
     (if seg = [] \<or> seg = ''.'' \<or> seg = ''..'' then False else list_all path_char seg)"

text \<open>The loop over the path; its argument is the text after the slash at \<^verbatim>\<open>pos\<close>.\<close>

function spiffe_path :: "string \<Rightarrow> bool" where
  "spiffe_path t =
     (case cut_at CHR ''/'' t of
        None \<Rightarrow> spiffe_segment t
      | Some (seg, t') \<Rightarrow> if \<not> spiffe_segment seg then False else spiffe_path t')"
  by pat_completeness auto
termination by (relation "measure length") (auto dest: cut_at_length)

declare spiffe_path.simps [simp del]

definition spiffe_id_safe :: "string \<Rightarrow> bool" where
  "spiffe_id_safe s =
     (if length s > spiffe_id_max \<or> \<not> starts_with s ''spiffe://'' then False
      else
        let rest = drop (length ''spiffe://'') s;
            slash = cut_at CHR ''/'' rest;
            td = (case slash of None \<Rightarrow> rest | Some (a, _) \<Rightarrow> a) in
        if td = [] \<or> length td > spiffe_trust_domain_max then False
        else if \<not> list_all td_char td then False
        else case slash of None \<Rightarrow> True | Some (_, path) \<Rightarrow> spiffe_path path)"

lemma spiffe_path_split: "spiffe_path t \<longleftrightarrow> list_all spiffe_segment (split_on CHR ''/'' t)"
proof (induction t rule: spiffe_path.induct)
  case (1 t)
  show ?case
  proof (cases "cut_at CHR ''/'' t")
    case None
    then show ?thesis
      by (subst spiffe_path.simps) (simp add: cut_at_None split_on_no_sep)
  next
    case (Some pr)
    obtain seg t' where pr: "pr = (seg, t')" by (cases pr)
    with Some have "t = seg @ CHR ''/'' # t'" and "CHR ''/'' \<notin> set seg"
      by (auto dest: cut_at_SomeD)
    with "1.IH" Some pr show ?thesis
      by (subst spiffe_path.simps) (auto simp: split_on_append)
  qed
qed

lemma spiffe_tail:
  "concat (map (\<lambda>g. CHR ''/'' # g) segs) =
   (if segs = [] then [] else CHR ''/'' # join_with ''/'' segs)"
  by (induction segs) (auto simp: join_with_Cons)

lemma no_slash [simp]: "\<not> td_char CHR ''/''" "\<not> path_char CHR ''/''"
  by code_simp+

lemma spiffe_segment_no_slash: "spiffe_segment g \<Longrightarrow> CHR ''/'' \<notin> set g"
  by (auto simp: spiffe_segment_def list_all_iff split: if_splits)

lemma td_no_slash: "list_all td_char td \<Longrightarrow> CHR ''/'' \<notin> set td"
  by (auto simp: list_all_iff)

lemma spiffe_id_safe_parts:
  assumes "list_all td_char td" and "td \<noteq> []" and "length td \<le> 255"
    and "list_all spiffe_segment segs"
    and "length (''spiffe://'' @ td @ concat (map (\<lambda>g. CHR ''/'' # g) segs)) \<le> 2048"
  shows "spiffe_id_safe (''spiffe://'' @ td @ concat (map (\<lambda>g. CHR ''/'' # g) segs))"
proof (cases "segs = []")
  case True
  then show ?thesis using assms td_no_slash [OF assms(1)]
    by (simp add: spiffe_id_safe_def starts_with_def app_consts)
next
  case False
  have "split_on CHR ''/'' (join_with ''/'' segs) = segs"
    using False assms(4) by (intro split_join_on) (auto simp: list_all_iff spiffe_segment_no_slash)
  then show ?thesis using False assms td_no_slash [OF assms(1)]
    by (simp add: spiffe_id_safe_def starts_with_def app_consts spiffe_tail spiffe_path_split)
qed

lemma spiffe_id_safe_iff:
  "spiffe_id_safe s \<longleftrightarrow> length s \<le> 2048 \<and>
   (\<exists>td segs. s = ''spiffe://'' @ td @ concat (map (\<lambda>g. CHR ''/'' # g) segs) \<and>
      td \<noteq> [] \<and> length td \<le> 255 \<and> list_all td_char td \<and> list_all spiffe_segment segs)"
proof
  assume safe: "spiffe_id_safe s"
  then have "starts_with s ''spiffe://''" and len: "length s \<le> 2048"
    by (auto simp: spiffe_id_safe_def app_consts split: if_splits)
  then obtain rest where s: "s = ''spiffe://'' @ rest" by (auto simp: starts_with_iff)
  have "\<exists>td segs. rest = td @ concat (map (\<lambda>g. CHR ''/'' # g) segs) \<and>
      td \<noteq> [] \<and> length td \<le> 255 \<and> list_all td_char td \<and> list_all spiffe_segment segs"
  proof (cases "cut_at CHR ''/'' rest")
    case None
    with safe s show ?thesis
      by (intro exI [of _ rest] exI [of _ "[]"])
        (auto simp: spiffe_id_safe_def Let_def app_consts split: if_splits)
  next
    case (Some pr)
    obtain td path where pr: "pr = (td, path)" by (cases pr)
    with Some have "rest = td @ CHR ''/'' # path" by (auto dest: cut_at_SomeD)
    with safe s Some pr show ?thesis
      by (intro exI [of _ td] exI [of _ "split_on CHR ''/'' path"])
        (auto simp: spiffe_id_safe_def Let_def app_consts spiffe_tail join_split_on
          spiffe_path_split split: if_splits)
  qed
  with s len show "length s \<le> 2048 \<and>
   (\<exists>td segs. s = ''spiffe://'' @ td @ concat (map (\<lambda>g. CHR ''/'' # g) segs) \<and>
      td \<noteq> [] \<and> length td \<le> 255 \<and> list_all td_char td \<and> list_all spiffe_segment segs)"
    by auto
next
  assume "length s \<le> 2048 \<and>
   (\<exists>td segs. s = ''spiffe://'' @ td @ concat (map (\<lambda>g. CHR ''/'' # g) segs) \<and>
      td \<noteq> [] \<and> length td \<le> 255 \<and> list_all td_char td \<and> list_all spiffe_segment segs)"
  then show "spiffe_id_safe s" using spiffe_id_safe_parts by blast
qed

text \<open>C23. A string is accepted as a SPIFFE ID exactly when it is at most 2048 bytes and reads
  spiffe://trust-domain, optionally followed by slash-separated segments: the trust domain has one
  to 255 lower-case letters, digits, dots, hyphens and underscores; a segment may have upper-case letters
  too, and is neither empty nor one dot nor two.\<close>

theorem spiffe_id_safe_grammar:
  "spiffe_id_safe s \<longleftrightarrow> length s \<le> 2048 \<and>
   (\<exists>td segs. s = ''spiffe://'' @ td @ concat (map (\<lambda>g. CHR ''/'' # g) segs) \<and>
      td \<noteq> [] \<and> length td \<le> 255 \<and> set td \<subseteq> set (lower_letters @ decimal_digits @ ''.-_'') \<and>
      list_all (\<lambda>g. g \<noteq> [] \<and> g \<noteq> ''.'' \<and> g \<noteq> ''..'' \<and>
         set g \<subseteq> set (lower_letters @ upper_letters @ decimal_digits @ ''.-_'')) segs)"
proof -
  have "list_all td_char td \<longleftrightarrow> set td \<subseteq> set (lower_letters @ decimal_digits @ ''.-_'')" for td
    by (auto simp: list_all_iff td_char_def char_sets)
  moreover have "list_all path_char g \<longleftrightarrow> set g \<subseteq> set (lower_letters @ upper_letters @ decimal_digits @ ''.-_'')" for g
    by (auto simp: list_all_iff path_char_def is_alnum_def char_sets)
  then have "list_all spiffe_segment segs \<longleftrightarrow> list_all (\<lambda>g. g \<noteq> [] \<and> g \<noteq> ''.'' \<and> g \<noteq> ''..'' \<and>
         set g \<subseteq> set (lower_letters @ upper_letters @ decimal_digits @ ''.-_'')) segs" for segs
    by (auto simp: list_all_iff [of spiffe_segment] list_all_iff [of "\<lambda>g. g \<noteq> [] \<and> P g" for P] spiffe_segment_def)
  ultimately show ?thesis unfolding spiffe_id_safe_iff by (simp only:)
qed

lemma graphic_chars: "td_char c \<Longrightarrow> graphic c" "path_char c \<Longrightarrow> graphic c"
  by (auto simp: td_char_def path_char_def graphic_def is_alnum_def is_upper_def is_lower_def
      is_digit_def less_eq_char_def)

lemma graphic_lists:
  "list_all td_char td \<Longrightarrow> list_all graphic td"
  "spiffe_segment g \<Longrightarrow> list_all graphic g"
  by (auto simp: list_all_iff spiffe_segment_def graphic_chars split: if_splits)

lemma graphic_tail:
  "list_all spiffe_segment segs \<Longrightarrow> list_all graphic (concat (map (\<lambda>g. CHR ''/'' # g) segs))"
  by (induction segs) (auto simp: graphic_lists graphic_def)

text \<open>Every accepted SPIFFE ID is an accepted URI: the SPIFFE rules are strictly narrower.\<close>

theorem spiffe_id_is_uri:
  assumes "spiffe_id_safe s"
  shows "uri_safe s"
proof -
  obtain td segs where s: "s = ''spiffe'' @ CHR '':'' # ''//'' @ td @ concat (map (\<lambda>g. CHR ''/'' # g) segs)"
      and td: "list_all td_char td" and segs: "list_all spiffe_segment segs"
    using assms unfolding spiffe_id_safe_iff by auto
  have "list_all graphic ''spiffe://''" by (simp add: graphic_def)
  then have "list_all graphic s"
    using graphic_lists(1) [OF td] graphic_tail [OF segs] unfolding s by simp
  moreover have "cut_at CHR '':'' s = Some (''spiffe'', ''//'' @ td @ concat (map (\<lambda>g. CHR ''/'' # g) segs))"
    unfolding s by (rule cut_at_append) simp
  ultimately show ?thesis unfolding uri_safe_def ascii_graphic_def
    by (simp add: s is_alnum_def is_lower_def less_eq_char_def)
qed

theorem spiffe_id_is_uri_witness:
  "spiffe_id_safe ''spiffe://prod.example/web'' \<and> uri_safe ''spiffe://prod.example/web''"
proof -
  have "spiffe_id_safe ''spiffe://prod.example/web''" by code_simp
  from this spiffe_id_is_uri [OF this] show ?thesis by blast
qed

end
