(* ===== verification/Profile.thy ===== *)
theory Profile
  imports App
begin

text \<open>
  The end-entity profile table of \<^verbatim>\<open>src/profile.h\<close>: what each profile demands of
  the subject, which extended key usage its certificates and its issuing CA carry, and how
  long they may live.
\<close>

datatype subject_rule = DnsCn | RequireSan | EmailMatchingCn

record profile_def =
  pd_name :: string
  pd_eku :: string
  pd_key_agreement :: bool
  pd_subject :: subject_rule
  pd_full_dn :: bool
  pd_max_valid_days :: int
  pd_csr_only :: bool
  pd_ca_companion_eku :: string

definition kDefs :: "profile_def list" where
  "kDefs =
    [\<lparr>pd_name = ''server'', pd_eku = ''1.3.6.1.5.5.7.3.1'', pd_key_agreement = False,
      pd_subject = DnsCn, pd_full_dn = False, pd_max_valid_days = 398,
      pd_csr_only = False, pd_ca_companion_eku = ''''\<rparr>,
     \<lparr>pd_name = ''client'', pd_eku = ''1.3.6.1.5.5.7.3.2'', pd_key_agreement = False,
      pd_subject = RequireSan, pd_full_dn = False, pd_max_valid_days = 398,
      pd_csr_only = False, pd_ca_companion_eku = ''''\<rparr>,
     \<lparr>pd_name = ''email'', pd_eku = ''1.3.6.1.5.5.7.3.4'', pd_key_agreement = True,
      pd_subject = EmailMatchingCn, pd_full_dn = True, pd_max_valid_days = 825,
      pd_csr_only = True, pd_ca_companion_eku = ''1.3.6.1.5.5.7.3.2''\<rparr>]"

definition profile_find :: "string \<Rightarrow> profile_def option" where
  "profile_find name = find (\<lambda>d. pd_name d = name) kDefs"

definition max_valid_days :: int where
  "max_valid_days =
     foldl (\<lambda>m d. if pd_max_valid_days d > m then pd_max_valid_days d else m) 0 kDefs"

lemma profile_find_Some:
  "profile_find name = Some d \<Longrightarrow> d \<in> set kDefs \<and> pd_name d = name"
  by (auto simp: profile_find_def find_Some_iff)

lemma profile_find_names:
  "profile_find name = Some d \<Longrightarrow> name \<in> {''server'', ''client'', ''email''}"
  by (auto dest!: profile_find_Some simp: kDefs_def)

lemma profile_find_csr_only: "profile_find name = Some d \<Longrightarrow> pd_csr_only d \<longleftrightarrow> name = ''email''"
  by (auto dest!: profile_find_Some simp: kDefs_def)

lemma max_valid_days_eq: "max_valid_days = 825"
  by (simp add: max_valid_days_def kDefs_def)

lemma profile_cap_le_max: "d \<in> set kDefs \<Longrightarrow> 0 < pd_max_valid_days d \<and> pd_max_valid_days d \<le> max_valid_days"
  by (auto simp: kDefs_def max_valid_days_eq)

text \<open>A name longer than its table cannot contain the separators the store's columns use.\<close>

lemma profile_name_chars:
  "profile_find name = Some d \<Longrightarrow> list_all is_lower name"
  by (drule profile_find_names) (auto simp: is_lower_def less_eq_char_def)

end
