(* ===== verification/Ordered_Map.thy ===== *)
theory Ordered_Map
  imports Prelude
begin

text \<open>
  \<^verbatim>\<open>std::map\<close>: the interface the loaders rely on, stated as a locale, and its
  implementation as an association list sorted by key. Iterating the map is reading the list.
\<close>

section \<open>The interface\<close>

text \<open>\<^verbatim>\<open>emplace\<close> inserts only when the key is absent; \<^verbatim>\<open>assign\<close> is
  \<^verbatim>\<open>m[k] = v\<close>.\<close>

locale key_map =
  fixes empty :: "'m"
    and emplace :: "'k \<Rightarrow> 'v \<Rightarrow> 'm \<Rightarrow> 'm"
    and assign :: "'k \<Rightarrow> 'v \<Rightarrow> 'm \<Rightarrow> 'm"
    and lookup :: "'m \<Rightarrow> 'k \<rightharpoonup> 'v"
    and ok :: "'m \<Rightarrow> bool"
  assumes lookup_empty: "lookup empty = Map.empty"
    and lookup_emplace: "ok m \<Longrightarrow>
      lookup (emplace k v m) = (if lookup m k = None then (lookup m)(k \<mapsto> v) else lookup m)"
    and lookup_assign: "ok m \<Longrightarrow> lookup (assign k v m) = (lookup m)(k \<mapsto> v)"
    and ok_empty: "ok empty"
    and ok_emplace: "ok m \<Longrightarrow> ok (emplace k v m)"
    and ok_assign: "ok m \<Longrightarrow> ok (assign k v m)"
begin

lemma ok_emplace_all: "ok m \<Longrightarrow> ok (foldl (\<lambda>m (k, v). emplace k v m) m kvs)"
  by (induction kvs arbitrary: m) (auto simp: ok_emplace)

lemma ok_assign_all: "ok m \<Longrightarrow> ok (foldl (\<lambda>m (k, v). assign k v m) m kvs)"
  by (induction kvs arbitrary: m) (auto simp: ok_assign)

lemma lookup_emplace_all:
  "ok m \<Longrightarrow> lookup (foldl (\<lambda>m (k, v). emplace k v m) m kvs) = map_of kvs ++ lookup m"
proof (induction kvs arbitrary: m)
  case Nil
  then show ?case by simp
next
  case (Cons kv kvs)
  obtain k v where kv: "kv = (k, v)" by (cases kv)
  have "lookup (foldl (\<lambda>m (k, v). emplace k v m) (emplace k v m) kvs) =
      map_of kvs ++ lookup (emplace k v m)"
    by (rule Cons.IH) (rule ok_emplace [OF Cons.prems])
  moreover have "map_of kvs ++ lookup (emplace k v m) = map_of (kv # kvs) ++ lookup m"
    by (rule ext) (auto simp: kv lookup_emplace [OF Cons.prems] map_add_def split: option.splits)
  ultimately show ?case by (simp only: foldl.simps kv case_prod_conv)
qed

text \<open>Emplacing a list of bindings into the empty map keeps the first binding of each key.\<close>

lemma lookup_emplace_empty: "lookup (foldl (\<lambda>m (k, v). emplace k v m) empty kvs) = map_of kvs"
  by (simp add: lookup_emplace_all ok_empty lookup_empty)

lemma lookup_assign_all:
  "ok m \<Longrightarrow> distinct (map fst kvs) \<Longrightarrow>
   lookup (foldl (\<lambda>m (k, v). assign k v m) m kvs) = lookup m ++ map_of kvs"
proof (induction kvs arbitrary: m)
  case Nil
  then show ?case by simp
next
  case (Cons kv kvs)
  obtain k v where kv: "kv = (k, v)" by (cases kv)
  have k: "k \<notin> dom (map_of kvs)" using Cons.prems(2) by (simp add: kv dom_map_of_conv_image_fst)
  have "lookup (foldl (\<lambda>m (k, v). assign k v m) (assign k v m) kvs) =
      lookup (assign k v m) ++ map_of kvs"
    using Cons.prems by (intro Cons.IH ok_assign) (simp_all add: kv)
  also have "\<dots> = lookup m ++ map_of (kv # kvs)"
    using k by (simp add: kv lookup_assign [OF Cons.prems(1)] map_add_upd_left)
  finally show ?case by (simp only: foldl.simps kv case_prod_conv)
qed

lemma lookup_assign_empty:
  "distinct (map fst kvs) \<Longrightarrow>
   lookup (foldl (\<lambda>m (k, v). assign k v m) empty kvs) = map_of kvs"
  by (simp add: lookup_assign_all ok_empty lookup_empty)

end

text \<open>A map whose representation is determined by what it maps: equal lookups mean equal
  maps, so reading all entries out and putting them back is the identity.\<close>

locale canonical_map = key_map empty emplace assign lookup ok
  for empty :: "'m"
    and emplace :: "'k \<Rightarrow> 'v \<Rightarrow> 'm \<Rightarrow> 'm"
    and assign :: "'k \<Rightarrow> 'v \<Rightarrow> 'm \<Rightarrow> 'm"
    and lookup :: "'m \<Rightarrow> 'k \<rightharpoonup> 'v"
    and ok :: "'m \<Rightarrow> bool" +
  fixes entries :: "'m \<Rightarrow> ('k \<times> 'v) list"
  assumes lookup_eqD: "ok m \<Longrightarrow> ok m' \<Longrightarrow> lookup m = lookup m' \<Longrightarrow> m = m'"
    and entries_lookup: "ok m \<Longrightarrow> map_of (entries m) = lookup m"
    and entries_distinct: "ok m \<Longrightarrow> distinct (map fst (entries m))"
begin

lemma emplace_entries:
  assumes "ok m"
  shows "foldl (\<lambda>m (k, v). emplace k v m) empty (entries m) = m"
  by (rule lookup_eqD)
    (simp_all add: ok_emplace_all ok_empty lookup_emplace_empty entries_lookup assms)

text \<open>The rows may come back in any order.\<close>

lemma emplace_perm_entries:
  assumes "ok m" and "distinct (map fst kvs)" and "set kvs = set (entries m)"
  shows "foldl (\<lambda>m (k, v). emplace k v m) empty kvs = m"
proof (rule lookup_eqD)
  have "map_of kvs = map_of (entries m)"
    using assms entries_distinct by (metis map_of_inject_set)
  then show "lookup (foldl (\<lambda>m (k, v). emplace k v m) empty kvs) = lookup m"
    by (simp add: lookup_emplace_empty entries_lookup assms(1))
qed (simp_all add: ok_emplace_all ok_empty assms)

lemma assign_entries:
  assumes "ok m"
  shows "foldl (\<lambda>m (k, v). assign k v m) empty (entries m) = m"
  by (rule lookup_eqD)
    (simp_all add: ok_assign_all ok_empty lookup_assign_empty entries_lookup entries_distinct assms)

end

section \<open>Sorted association lists\<close>

fun omap_emplace :: "'k::linorder \<Rightarrow> 'v \<Rightarrow> ('k \<times> 'v) list \<Rightarrow> ('k \<times> 'v) list" where
  "omap_emplace k v [] = [(k, v)]"
| "omap_emplace k v ((a, b) # m) =
     (if k < a then (k, v) # (a, b) # m
      else if k = a then (a, b) # m
      else (a, b) # omap_emplace k v m)"

fun omap_assign :: "'k::linorder \<Rightarrow> 'v \<Rightarrow> ('k \<times> 'v) list \<Rightarrow> ('k \<times> 'v) list" where
  "omap_assign k v [] = [(k, v)]"
| "omap_assign k v ((a, b) # m) =
     (if k < a then (k, v) # (a, b) # m
      else if k = a then (a, v) # m
      else (a, b) # omap_assign k v m)"

definition omap_ok :: "('k::linorder \<times> 'v) list \<Rightarrow> bool" where
  "omap_ok m \<longleftrightarrow> sorted_wrt (<) (map fst m)"

lemma keys_emplace: "fst ` set (omap_emplace k v m) = insert k (fst ` set m)"
  by (induction k v m rule: omap_emplace.induct) auto

lemma keys_assign: "fst ` set (omap_assign k v m) = insert k (fst ` set m)"
  by (induction k v m rule: omap_assign.induct) auto

lemma omap_ok_Cons: "omap_ok ((a, b) # m) \<longleftrightarrow> (\<forall>k \<in> fst ` set m. a < k) \<and> omap_ok m"
  by (auto simp: omap_ok_def)

lemma omap_ok_emplace: "omap_ok m \<Longrightarrow> omap_ok (omap_emplace k v m)"
  by (induction k v m rule: omap_emplace.induct)
    (auto simp: omap_ok_Cons keys_emplace omap_ok_def [of "[]"] dest: less_trans not_less_iff_gr_or_eq [THEN iffD1])

lemma omap_ok_assign: "omap_ok m \<Longrightarrow> omap_ok (omap_assign k v m)"
  by (induction k v m rule: omap_assign.induct)
    (auto simp: omap_ok_Cons keys_assign omap_ok_def [of "[]"] dest: less_trans not_less_iff_gr_or_eq [THEN iffD1])

lemma omap_absent: "omap_ok ((a, b) # m) \<Longrightarrow> k \<le> a \<Longrightarrow> map_of m k = None"
  by (auto simp: omap_ok_Cons map_of_eq_None_iff)

lemma map_of_emplace:
  "omap_ok m \<Longrightarrow>
   map_of (omap_emplace k v m) = (if map_of m k = None then (map_of m)(k \<mapsto> v) else map_of m)"
proof (induction k v m rule: omap_emplace.induct)
  case (1 k v)
  then show ?case by simp
next
  case (2 k v a b m)
  then have "map_of m k = None" if "k < a" using that omap_absent [of a b m k] by auto
  with 2 show ?case by (auto simp: omap_ok_Cons fun_eq_iff)
qed

lemma map_of_assign: "omap_ok m \<Longrightarrow> map_of (omap_assign k v m) = (map_of m)(k \<mapsto> v)"
  by (induction k v m rule: omap_assign.induct) (auto simp: omap_ok_Cons fun_eq_iff)

lemma omap_ok_distinct: "omap_ok m \<Longrightarrow> distinct (map fst m)"
  by (simp add: omap_ok_def strict_sorted_iff)

lemma omap_eqI:
  assumes "omap_ok m" and "omap_ok m'" and "map_of m = map_of m'"
  shows "m = m'"
proof -
  have "set (map fst m) = set (map fst m')"
    using assms(3) by (metis dom_map_of_conv_image_fst list.set_map)
  then have keys: "map fst m = map fst m'"
    using assms(1,2) by (simp add: omap_ok_def strict_sorted_equal)
  have "n = map (\<lambda>k. (k, the (map_of n k))) (map fst n)" if "omap_ok n" for n :: "('a \<times> 'b) list"
  proof -
    have "(k, v) \<in> set n \<Longrightarrow> the (map_of n k) = v" for k v
      using omap_ok_distinct [OF that] by (simp add: map_of_is_SomeI)
    then show ?thesis by (auto intro!: map_idI [symmetric])
  qed
  from this [OF assms(1)] this [OF assms(2)] show ?thesis
    using keys assms(3) by metis
qed

interpretation omap: canonical_map "[]" omap_emplace omap_assign map_of omap_ok "\<lambda>m. m"
  by unfold_locales
    (auto simp: map_of_emplace map_of_assign omap_ok_emplace omap_ok_assign omap_ok_def [of "[]"]
      omap_ok_distinct intro: omap_eqI)

end
