(* ===== verification/Config.thy ===== *)
theory Config
  imports Util Profile Ordered_Map
begin

text \<open>
  The configuration of \<^verbatim>\<open>src/config.h\<close> and its loader \<^verbatim>\<open>cfg::load\<close> of
  \<^verbatim>\<open>src/config.cpp\<close>. The input is the parsed TOML tree; a table lists its entries in
  key order, as toml++ iterates it. The error strings are constructors with the values the
  messages are formatted from, and every reader returns the errors it appends, so that the
  list of problems comes out in the order of the code.
\<close>

section \<open>The structs\<close>

record pki =
  pki_org_name :: string
  pki_country_code :: string
  pki_repository_host :: string

record pkcs11 =
  p11_module :: string
  p11_token_label :: string

record ca_fields =
  ca_cn :: string
  ca_curve :: string
  ca_digest :: string
  ca_valid_days :: int
  ca_slug_prefix :: string
  ca_slug :: string
  ca_key_backend :: string
  ca_token_label :: string

record signing_ca = ca_fields +
  ca_purpose :: string
  ca_profiles :: "string list"
  ca_ee_curve :: string
  ca_ee_digest :: string
  ca_ee_valid_days :: int
  ca_simple_dn :: bool
  ca_permitted_dns :: "string list"
  ca_permitted_email :: "string list"
  ca_policies_map :: "(string \<times> string list) list"

text \<open>One constructor per message, grouped by what the message is about: the file as a whole,
  one key of a section, the entries of a list or of the policies table, a number of days, the
  CAs taken together.\<close>

datatype file_problem =
    Config_not_found
  | Config_parse_error
  | Unknown_section string
  | Unknown_outside string
  | Missing_section string
  | Not_a_section string
  | Ca_not_sections
  | No_issuing_ca
  | Invalid_purpose string
  | Purpose_root

datatype key_problem =
    Unknown_key
  | Empty_value
  | Not_a_string
  | Not_an_integer
  | Not_a_boolean
  | Not_positive
  | Invalid_curve string
  | Invalid_digest string
  | Invalid_slug string
  | Invalid_backend string
  | Invalid_country string
  | Invalid_host string

datatype list_problem =
    Not_an_array
  | Entry_not_string
  | No_entries
  | Unknown_profile string
  | Simple_dn_refused string
  | Mailbox string
  | Not_a_host string

datatype policy_problem =
    Not_a_table
  | Not_listed
  | Policy_not_array
  | Policy_not_string
  | Invalid_oid string
  | Any_policy
  | Duplicate_oid string

datatype days_problem =
    Over_cap int string
  | Not_below_ca int
  | Not_below_root int

datatype cross_problem =
    Shared_name string string string string
  | Profile_claimed_twice string string string
  | Digits_apart string string string string
  | Misplaced_trust string
  | P11_module_required
  | P11_unused
  | P11_default_unused
  | Token_label_unused string
  | Token_label_required string
  | Token_label_too_long string

datatype cfg_error =
    File_err file_problem
  | Key_err string string key_problem
  | List_err string string list_problem
  | Policy_err string string policy_problem
  | Days_err string days_problem
  | Cross_err cross_problem

record config =
  cfg_pki :: pki
  cfg_pkcs11 :: pkcs11
  cfg_root :: ca_fields
  cfg_cas :: "(string \<times> signing_ca) list"
  cfg_unknown :: "cfg_error list"

text \<open>\<^verbatim>\<open>Config::ca\<close> and \<^verbatim>\<open>Config::ca_for_profile\<close>: the first CA in map order
  that lists the profile.\<close>

definition config_ca :: "config \<Rightarrow> string \<Rightarrow> signing_ca option" where
  "config_ca c purpose = map_of (cfg_cas c) purpose"

definition ca_for_profile :: "config \<Rightarrow> string \<Rightarrow> signing_ca option" where
  "ca_for_profile c profile =
     map_option snd (find (\<lambda>(_, ca). list_ex (\<lambda>p. p = profile) (ca_profiles ca)) (cfg_cas c))"

text \<open>\<^verbatim>\<open>SigningCa::ca_policies\<close>.\<close>

definition ca_policies :: "signing_ca \<Rightarrow> string list" where
  "ca_policies ca =
     foldl (\<lambda>out p.
        case map_of (ca_policies_map ca) p of
          None \<Rightarrow> out
        | Some oids \<Rightarrow> foldl (\<lambda>out oid. if oid \<in> set out then out else out @ [oid]) out oids)
      [] (ca_profiles ca)"

section \<open>Known names\<close>

definition kCurves :: "string list" where
  "kCurves = [''secp256r1'', ''secp384r1'', ''secp521r1'']"

definition kDigests :: "string list" where
  "kDigests = [''SHA-256'', ''SHA-384'', ''SHA-512'']"

definition kSections :: "string list" where
  "kSections = [''pki'', ''pkcs11'', ''root'', ''ca'']"

definition kPkiKeys :: "string list" where
  "kPkiKeys = [''org_name'', ''country_code'', ''repository_host'']"

definition kPkcs11Keys :: "string list" where
  "kPkcs11Keys = [''module'', ''token_label'']"

definition kCaKeys :: "string list" where
  "kCaKeys = [''cn'', ''curve'', ''digest'', ''valid_days'', ''slug_prefix'', ''key_backend'',
     ''token_label'']"

definition kSigningCaKeys :: "string list" where
  "kSigningCaKeys = [''profiles'', ''ee_curve'', ''ee_digest'', ''ee_valid_days'', ''simple_dn'',
     ''permitted_dns'', ''permitted_email'', ''policies'']"

definition one_of :: "string list \<Rightarrow> string \<Rightarrow> bool" where
  "one_of ss v \<longleftrightarrow> list_ex (\<lambda>s. s = v) ss"

section \<open>Field validators\<close>

definition two_letters :: "string \<Rightarrow> bool" where
  "two_letters s =
     (case s of [a, b] \<Rightarrow> (is_upper a \<or> is_lower a) \<and> (is_upper b \<or> is_lower b) | _ \<Rightarrow> False)"

definition slug_char :: "char \<Rightarrow> bool" where
  "slug_char c \<longleftrightarrow> is_lower c \<or> is_digit c \<or> c = CHR ''.'' \<or> c = CHR ''-''"

definition valid_slug :: "string \<Rightarrow> bool" where
  "valid_slug s \<longleftrightarrow> list_all slug_char s"

definition valid_port :: "string \<Rightarrow> bool" where
  "valid_port port \<longleftrightarrow>
     (if port = [] \<or> length port > 5 then False
      else if \<not> list_all is_digit port then False
      else \<not> (digits_val 0 port < 1 \<or> digits_val 0 port > 65535))"

definition valid_host_port :: "string \<Rightarrow> bool" where
  "valid_host_port s =
     (case cut_at CHR '':'' s of
        None \<Rightarrow> valid_hostname s
      | Some (host, port) \<Rightarrow> if \<not> valid_port port then False else valid_hostname host)"

definition digits_apart :: "string \<Rightarrow> string \<Rightarrow> bool" where
  "digits_apart a b =
     (if length a > length b \<or> take (length a) b \<noteq> a then False
      else list_all is_digit (drop (length a) b))"

lemma one_of_iff [simp]: "one_of ss v \<longleftrightarrow> v \<in> set ss"
  by (auto simp: one_of_def list_ex_iff)

lemma digits_apart_iff: "digits_apart a b \<longleftrightarrow> (\<exists>ds. b = a @ ds \<and> list_all is_digit ds)"
  by (auto simp: digits_apart_def list_all_iff) (metis append_take_drop_id)

section \<open>TOML values\<close>

text \<open>The tree toml++ hands over. A float carries its value as an integer when it is whole:
  toml++'s \<^verbatim>\<open>value<int64_t>()\<close> converts such a float, and a boolean, silently, and
  \<^verbatim>\<open>value<bool>()\<close> converts an integer.\<close>

datatype toml =
    TString string
  | TInt int
  | TFloat "int option"
  | TBool bool
  | TDate
  | TArray "toml list"
  | TTable "(string \<times> toml) list"

type_synonym toml_table = "(string \<times> toml) list"

fun as_string :: "toml \<Rightarrow> string option" where
  "as_string (TString s) = Some s"
| "as_string _ = None"

fun as_int64 :: "toml \<Rightarrow> int option" where
  "as_int64 (TInt i) = Some i"
| "as_int64 (TFloat w) = w"
| "as_int64 (TBool b) = Some (if b then 1 else 0)"
| "as_int64 _ = None"

fun as_bool :: "toml \<Rightarrow> bool option" where
  "as_bool (TBool b) = Some b"
| "as_bool (TInt i) = Some (i \<noteq> 0)"
| "as_bool _ = None"

fun as_array :: "toml \<Rightarrow> toml list option" where
  "as_array (TArray xs) = Some xs"
| "as_array _ = None"

fun as_table :: "toml \<Rightarrow> toml_table option" where
  "as_table (TTable t) = Some t"
| "as_table _ = None"

definition contains :: "toml_table \<Rightarrow> string \<Rightarrow> bool" where
  "contains t k \<longleftrightarrow> map_of t k \<noteq> None"

text \<open>\<^verbatim>\<open>t[key].as_array()\<close> and the like: nothing for an absent key or another
  type.\<close>

definition get_as :: "(toml \<Rightarrow> 'a option) \<Rightarrow> toml_table \<Rightarrow> string \<Rightarrow> 'a option" where
  "get_as f t k = Option.bind (map_of t k) f"

datatype toml_file = No_file | Bad_toml | Parsed toml_table

section \<open>The readers\<close>

text \<open>Each returns whether it succeeded, the value the output variable ends up with and the
  errors it appends.\<close>

definition get_str :: "toml_table \<Rightarrow> string \<Rightarrow> string \<Rightarrow> string \<Rightarrow> bool \<times> string \<times> cfg_error list" where
  "get_str t sec key out =
     (case get_as as_string t key of
        Some v \<Rightarrow> if v = [] then (False, v, [Key_err sec key Empty_value]) else (True, v, [])
      | None \<Rightarrow> (False, out, [Key_err sec key Not_a_string]))"

definition get_int :: "toml_table \<Rightarrow> string \<Rightarrow> string \<Rightarrow> int \<Rightarrow> bool \<times> int \<times> cfg_error list" where
  "get_int t sec key out =
     (case get_as as_int64 t key of
        Some v \<Rightarrow> (True, cast_int v, [])
      | None \<Rightarrow> (False, out, [Key_err sec key Not_an_integer]))"

definition get_bool :: "toml_table \<Rightarrow> string \<Rightarrow> string \<Rightarrow> bool \<Rightarrow> bool \<times> bool \<times> cfg_error list" where
  "get_bool t sec key out =
     (case get_as as_bool t key of
        Some v \<Rightarrow> (True, v, [])
      | None \<Rightarrow> (False, out, [Key_err sec key Not_a_boolean]))"

definition err_if :: "bool \<Rightarrow> cfg_error \<Rightarrow> cfg_error list" where
  "err_if b e = (if b then [e] else [])"

definition check_keys :: "toml_table \<Rightarrow> string \<Rightarrow> string list \<Rightarrow> string list \<Rightarrow> cfg_error list" where
  "check_keys t sec known others =
     concat (map (\<lambda>(k, _). err_if (\<not> one_of known k \<and> \<not> one_of others k) (Key_err sec k Unknown_key)) t)"

definition check_sections :: "toml_table \<Rightarrow> cfg_error list" where
  "check_sections tbl =
     concat (map (\<lambda>(k, v). err_if (\<not> one_of kSections k)
        (if as_table v \<noteq> None then File_err (Unknown_section k) else File_err (Unknown_outside k))) tbl)"

definition require_table :: "toml_table \<Rightarrow> string \<Rightarrow> toml_table option \<times> cfg_error list" where
  "require_table tbl nm =
     (case map_of tbl nm of
        None \<Rightarrow> (None, [File_err (Missing_section nm)])
      | Some node \<Rightarrow> (as_table node, err_if (as_table node = None) (File_err (Not_a_section nm))))"

lemma err_if_Nil [simp]: "err_if b e = [] \<longleftrightarrow> \<not> b"
  by (simp add: err_if_def)

section \<open>Sections\<close>

text \<open>\<^verbatim>\<open>read_ca\<close>: the fields of [root] and of every [ca.*]. The record argument is
  the CA being filled in, with its defaults.\<close>

definition read_ca ::
  "toml_table \<Rightarrow> string \<Rightarrow> 'a ca_fields_scheme \<Rightarrow> 'a ca_fields_scheme \<times> cfg_error list" where
  "read_ca t sec ca =
     (let (_, cn, e1) = get_str t sec ''cn'' (ca_cn ca);
          (ok2, curve, e2) = get_str t sec ''curve'' (ca_curve ca);
          e2' = err_if (ok2 \<and> \<not> one_of kCurves curve) (Key_err sec ''curve'' (Invalid_curve curve));
          (ok3, digest, e3) = get_str t sec ''digest'' (ca_digest ca);
          e3' = err_if (ok3 \<and> \<not> one_of kDigests digest) (Key_err sec ''digest'' (Invalid_digest digest));
          (ok4, days, e4) = get_int t sec ''valid_days'' (ca_valid_days ca);
          e4' = err_if (ok4 \<and> days \<le> 0) (Key_err sec ''valid_days'' Not_positive);
          (ok5, prefix, e5) = get_str t sec ''slug_prefix'' (ca_slug_prefix ca);
          e5' = err_if (ok5 \<and> \<not> valid_slug prefix) (Key_err sec ''slug_prefix'' (Invalid_slug prefix));
          (ok6, backend, e6) =
            (if contains t ''key_backend'' then get_str t sec ''key_backend'' (ca_key_backend ca)
             else (False, ca_key_backend ca, []));
          e6' = err_if (ok6 \<and> backend \<noteq> ''internal'' \<and> backend \<noteq> ''pkcs11'')
                  (Key_err sec ''key_backend'' (Invalid_backend backend));
          (_, label, e7) =
            (if contains t ''token_label'' then get_str t sec ''token_label'' (ca_token_label ca)
             else (False, ca_token_label ca, []))
      in (ca\<lparr>ca_cn := cn, ca_curve := curve, ca_digest := digest, ca_valid_days := days,
            ca_slug_prefix := prefix, ca_slug := prefix @ ''1'', ca_key_backend := backend,
            ca_token_label := label\<rparr>,
          e1 @ e2 @ e2' @ e3 @ e3' @ e4 @ e4' @ e5 @ e5' @ e6 @ e6' @ e7))"

definition empty_ca_fields :: ca_fields where
  "empty_ca_fields = \<lparr>ca_cn = [], ca_curve = [], ca_digest = [], ca_valid_days = 0,
     ca_slug_prefix = [], ca_slug = [], ca_key_backend = ''internal'', ca_token_label = []\<rparr>"

definition empty_signing_ca :: "string \<Rightarrow> signing_ca" where
  "empty_signing_ca purpose = ca_fields.extend empty_ca_fields
     (signing_ca.fields purpose [] [] [] 0 False [] [] [])"

definition load_pki :: "toml_table \<Rightarrow> pki \<times> cfg_error list \<times> cfg_error list" where
  "load_pki tbl =
     (case require_table tbl ''pki'' of
        (None, e0) \<Rightarrow> (\<lparr>pki_org_name = [], pki_country_code = [], pki_repository_host = []\<rparr>, e0, [])
      | (Some t, e0) \<Rightarrow>
          (let unk = check_keys t ''pki'' kPkiKeys [];
               (_, org, e1) = get_str t ''pki'' ''org_name'' [];
               (ok2, country, e2) = get_str t ''pki'' ''country_code'' [];
               e2' = err_if (ok2 \<and> \<not> two_letters country) (Key_err ''pki'' ''country_code'' (Invalid_country country));
               (ok3, host, e3) = get_str t ''pki'' ''repository_host'' [];
               e3' = err_if (ok3 \<and> \<not> valid_host_port host) (Key_err ''pki'' ''repository_host'' (Invalid_host host))
           in (\<lparr>pki_org_name = org, pki_country_code = country, pki_repository_host = host\<rparr>,
               e0 @ e1 @ e2 @ e2' @ e3 @ e3', unk)))"

definition load_pkcs11 :: "toml_table \<Rightarrow> pkcs11 \<times> cfg_error list \<times> cfg_error list" where
  "load_pkcs11 tbl =
     (case get_as as_table tbl ''pkcs11'' of
        None \<Rightarrow> (\<lparr>p11_module = [], p11_token_label = []\<rparr>,
          err_if (contains tbl ''pkcs11'') (File_err (Not_a_section ''pkcs11'')), [])
      | Some t \<Rightarrow>
          (let unk = check_keys t ''pkcs11'' kPkcs11Keys [];
               (_, module, e1) = (if contains t ''module'' then get_str t ''pkcs11'' ''module'' []
                                 else (False, [], []));
               (_, label, e2) = (if contains t ''token_label''
                                 then get_str t ''pkcs11'' ''token_label'' [] else (False, [], []))
           in (\<lparr>p11_module = module, p11_token_label = label\<rparr>, e1 @ e2, unk)))"

definition load_root :: "toml_table \<Rightarrow> ca_fields \<times> cfg_error list \<times> cfg_error list" where
  "load_root tbl =
     (case require_table tbl ''root'' of
        (None, e0) \<Rightarrow> (empty_ca_fields, e0, [])
      | (Some t, e0) \<Rightarrow>
          (let unk = check_keys t ''root'' kCaKeys []; (root, e1) = read_ca t ''root'' empty_ca_fields
           in (root, e0 @ e1, unk)))"

section \<open>An issuing CA section\<close>

definition read_profiles :: "string \<Rightarrow> toml_table \<Rightarrow> string list \<times> cfg_error list" where
  "read_profiles sec t =
     (case get_as as_array t ''profiles'' of
        None \<Rightarrow> ([], [List_err sec ''profiles'' Not_an_array])
      | Some arr \<Rightarrow>
          (let ps = List.map_filter as_string arr;
               errs = concat (map (\<lambda>v. case as_string v of
                          None \<Rightarrow> [List_err sec ''profiles'' Entry_not_string]
                        | Some nm \<Rightarrow> err_if (profile_find nm = None) (List_err sec ''profiles'' (Unknown_profile nm))) arr)
           in (ps, errs @ err_if (ps = []) (List_err sec ''profiles'' No_entries))))"

definition read_simple_dn :: "string \<Rightarrow> toml_table \<Rightarrow> string list \<Rightarrow> bool \<times> cfg_error list" where
  "read_simple_dn sec t profiles =
     (if contains t ''simple_dn'' then
        (case get_bool t sec ''simple_dn'' False of (ok, simple, e) \<Rightarrow>
          (simple, e @
            (if ok \<and> simple then
               concat (map (\<lambda>nm. case profile_find nm of
                   None \<Rightarrow> [] | Some d \<Rightarrow> err_if (pd_full_dn d) (List_err sec ''simple_dn'' (Simple_dn_refused nm))) profiles)
             else [])))
      else (False, []))"

definition read_subtree :: "string \<Rightarrow> string \<Rightarrow> bool \<Rightarrow> toml \<Rightarrow> string list \<times> cfg_error list" where
  "read_subtree sec fld email v =
     (case as_string v of
        None \<Rightarrow> ([], [List_err sec fld Entry_not_string])
      | Some nm \<Rightarrow>
          let host = (if email \<and> starts_with nm ''.'' then drop 1 nm else nm) in
          if email \<and> CHR ''@'' \<in> set nm then ([], [List_err sec fld (Mailbox nm)])
          else if \<not> valid_hostname host then ([], [List_err sec fld (Not_a_host nm)])
          else ([nm], []))"

definition read_subtrees :: "string \<Rightarrow> toml_table \<Rightarrow> string \<Rightarrow> bool \<Rightarrow> string list \<times> cfg_error list" where
  "read_subtrees sec t fld email =
     (case get_as as_array t fld of
        None \<Rightarrow> ([], err_if (contains t fld) (List_err sec fld Not_an_array))
      | Some arr \<Rightarrow>
          (let rs = map (read_subtree sec fld email) arr; out = concat (map fst rs)
           in (out, concat (map snd rs) @ err_if (out = []) (List_err sec fld No_entries))))"

text \<open>Botan's reading of a dotted OID followed by printing it gives the same string: at least
  two decimal arcs below 2^32 without leading zeros, the first two in range.\<close>

definition oid_arc :: "string \<Rightarrow> bool" where
  "oid_arc f \<longleftrightarrow> f \<noteq> [] \<and> list_all is_digit f \<and> (length f > 1 \<longrightarrow> hd f \<noteq> CHR ''0'') \<and>
     digits_val 0 f < 2 ^ 32"

definition oid_canonical :: "string \<Rightarrow> bool" where
  "oid_canonical s =
     (case split_on CHR ''.'' s of
        a # b # rest \<Rightarrow> list_all oid_arc (a # b # rest) \<and> digits_val 0 a \<le> 2 \<and>
          (digits_val 0 b \<le> 39 \<or> digits_val 0 a = 2) \<and> digits_val 0 b \<le> 0xFFFFFFAF
      | _ \<Rightarrow> False)"

fun read_oids :: "string \<Rightarrow> string \<Rightarrow> string list \<Rightarrow> toml list \<Rightarrow> string list \<times> cfg_error list" where
  "read_oids sec prof oids [] = (oids, [])"
| "read_oids sec prof oids (v # vs) =
     (let (oids', e) =
        (case as_string v of
           None \<Rightarrow> (oids, [Policy_err sec prof Policy_not_string])
         | Some oid \<Rightarrow>
             if \<not> (oid \<noteq> [] \<and> oid_canonical oid) then (oids, [Policy_err sec prof (Invalid_oid oid)])
             else if oid = ''2.5.29.32.0'' then (oids, [Policy_err sec prof Any_policy])
             else if oid \<in> set oids then (oids, [Policy_err sec prof (Duplicate_oid oid)])
             else (oids @ [oid], []));
          (oids'', es) = read_oids sec prof oids' vs
      in (oids'', e @ es))"

fun read_policy_table ::
  "string \<Rightarrow> string list \<Rightarrow> (string \<times> string list) list \<Rightarrow> toml_table
    \<Rightarrow> (string \<times> string list) list \<times> cfg_error list" where
  "read_policy_table sec profiles pols [] = (pols, [])"
| "read_policy_table sec profiles pols ((prof, pv) # rest) =
     (let (pols', e) =
        (if prof \<notin> set profiles then (pols, [Policy_err sec prof Not_listed])
         else case as_array pv of
           None \<Rightarrow> (pols, [Policy_err sec prof Policy_not_array])
         | Some arr \<Rightarrow>
             let start = (case map_of pols prof of None \<Rightarrow> [] | Some o0 \<Rightarrow> o0);
                 (oids, e) = read_oids sec prof start arr
             in (omap_assign prof oids pols, e));
          (pols'', es) = read_policy_table sec profiles pols' rest
      in (pols'', e @ es))"

definition read_policies ::
  "string \<Rightarrow> toml_table \<Rightarrow> string list \<Rightarrow> (string \<times> string list) list \<times> cfg_error list" where
  "read_policies sec t profiles =
     (case get_as as_table t ''policies'' of
        None \<Rightarrow> ([], err_if (contains t ''policies'') (Policy_err sec [] Not_a_table))
      | Some pol \<Rightarrow> read_policy_table sec profiles [] pol)"

text \<open>The binding ceiling: the strictest of the listed profiles, with the first profile that
  sets it; 0 while no known profile has been seen.\<close>

definition profile_cap :: "string list \<Rightarrow> int \<times> string" where
  "profile_cap profiles =
     foldl (\<lambda>(cap, by) nm.
        case profile_find nm of
          None \<Rightarrow> (cap, by)
        | Some d \<Rightarrow> if cap = 0 \<or> pd_max_valid_days d < cap then (pd_max_valid_days d, nm) else (cap, by))
      (0, []) profiles"

definition load_ee :: "string \<Rightarrow> toml_table \<Rightarrow> signing_ca \<Rightarrow> signing_ca \<times> cfg_error list" where
  "load_ee sec t ca =
     (let (ok1, curve, e1) = get_str t sec ''ee_curve'' (ca_ee_curve ca);
          e1' = err_if (ok1 \<and> \<not> one_of kCurves curve) (Key_err sec ''ee_curve'' (Invalid_curve curve));
          (ok2, digest, e2) = get_str t sec ''ee_digest'' (ca_ee_digest ca);
          e2' = err_if (ok2 \<and> \<not> one_of kDigests digest) (Key_err sec ''ee_digest'' (Invalid_digest digest));
          (ok3, days, e3) = get_int t sec ''ee_valid_days'' (ca_ee_valid_days ca);
          (cap, capped_by) = profile_cap (ca_profiles ca);
          e3' = (if ok3 then
              err_if (days \<le> 0) (Key_err sec ''ee_valid_days'' Not_positive) @
              err_if (cap > 0 \<and> days > cap) (Days_err sec (Over_cap cap capped_by)) @
              err_if (ca_valid_days ca > 0 \<and> days \<ge> ca_valid_days ca)
                (Days_err sec (Not_below_ca (ca_valid_days ca)))
            else [])
      in (ca\<lparr>ca_ee_curve := curve, ca_ee_digest := digest, ca_ee_valid_days := days\<rparr>,
          e1 @ e1' @ e2 @ e2' @ e3 @ e3'))"

definition load_ca ::
  "int \<Rightarrow> string \<Rightarrow> toml_table \<Rightarrow> signing_ca \<times> cfg_error list \<times> cfg_error list" where
  "load_ca root_days purpose t =
     (let sec = ''ca.'' @ purpose;
          e0 = err_if (\<not> valid_slug purpose) (File_err (Invalid_purpose sec)) @
               err_if (purpose = ''root'') (File_err Purpose_root);
          unk = check_keys t sec kCaKeys kSigningCaKeys;
          (ca1, e1) = read_ca t sec (empty_signing_ca purpose);
          (profiles, e2) = read_profiles sec t;
          (simple, e3) = read_simple_dn sec t profiles;
          (dns, e4) = read_subtrees sec t ''permitted_dns'' False;
          (email, e5) = read_subtrees sec t ''permitted_email'' True;
          (pols, e6) = read_policies sec t profiles;
          (ca2, e7) = load_ee sec t (ca1\<lparr>ca_profiles := profiles, ca_simple_dn := simple,
            ca_permitted_dns := dns, ca_permitted_email := email, ca_policies_map := pols\<rparr>);
          e8 = err_if (root_days > 0 \<and> ca_valid_days ca2 > 0 \<and> ca_valid_days ca2 \<ge> root_days)
                 (Days_err sec (Not_below_root root_days))
      in (ca2, e0 @ e1 @ e2 @ e3 @ e4 @ e5 @ e6 @ e7 @ e8, unk))"

fun load_cas_loop ::
  "int \<Rightarrow> (string \<times> signing_ca) list \<Rightarrow> toml_table
    \<Rightarrow> (string \<times> signing_ca) list \<times> cfg_error list \<times> cfg_error list" where
  "load_cas_loop root_days cas [] = (cas, [], [])"
| "load_cas_loop root_days cas ((purpose, node) # rest) =
     (case as_table node of
        None \<Rightarrow>
          (case load_cas_loop root_days cas rest of
             (cas', es, us) \<Rightarrow> (cas', File_err (Not_a_section (''ca.'' @ purpose)) # es, us))
      | Some t \<Rightarrow>
          (case load_ca root_days purpose t of
             (ca, e, u) \<Rightarrow>
               (case load_cas_loop root_days (omap_emplace purpose ca cas) rest of
                  (cas', es, us) \<Rightarrow> (cas', e @ es, u @ us))))"

definition load_cas ::
  "int \<Rightarrow> toml_table \<Rightarrow> (string \<times> signing_ca) list \<times> cfg_error list \<times> cfg_error list" where
  "load_cas root_days tbl =
     (case get_as as_table tbl ''ca'' of
        None \<Rightarrow> ([], [if contains tbl ''ca'' then File_err Ca_not_sections else File_err No_issuing_ca], [])
      | Some cas \<Rightarrow> load_cas_loop root_days [] cas)"

section \<open>Checks across the CAs\<close>

text \<open>\<^verbatim>\<open>claim\<close>: a name may be taken once; the map remembers by whom.\<close>

definition claim ::
  "(string \<times> string) list \<Rightarrow> string \<Rightarrow> string \<Rightarrow> string \<Rightarrow> (string \<times> string) list \<times> cfg_error list"
where
  "claim taken v what sec =
     (if v = [] then (taken, [])
      else case map_of taken v of
        None \<Rightarrow> (omap_emplace v sec taken, [])
      | Some owner \<Rightarrow> (taken, [Cross_err (Shared_name owner sec what v)]))"

fun claim_profiles ::
  "string \<Rightarrow> (string \<times> string) list \<Rightarrow> string list \<Rightarrow> (string \<times> string) list \<times> cfg_error list" where
  "claim_profiles sec own [] = (own, [])"
| "claim_profiles sec own (p # ps) =
     (case map_of own p of
        None \<Rightarrow> claim_profiles sec (omap_emplace p sec own) ps
      | Some o1 \<Rightarrow>
          (case claim_profiles sec own ps of
             (own', es) \<Rightarrow> (own', Cross_err (Profile_claimed_twice p o1 sec) # es)))"

fun claim_all ::
  "(string \<times> string) list \<Rightarrow> (string \<times> string) list \<Rightarrow> (string \<times> string) list
    \<Rightarrow> (string \<times> signing_ca) list \<Rightarrow> (string \<times> string) list \<times> cfg_error list" where
  "claim_all slugs cns own [] = (slugs, [])"
| "claim_all slugs cns own ((purpose, ca) # rest) =
     (let sec = ''ca.'' @ purpose;
          (slugs', e1) = claim slugs (ca_slug_prefix ca) ''slug_prefix'' sec;
          (cns', e2) = claim cns (ca_cn ca) ''cn'' sec;
          (own', e3) = claim_profiles sec own (ca_profiles ca);
          (slugs'', es) = claim_all slugs' cns' own' rest
      in (slugs'', e1 @ e2 @ e3 @ es))"

definition check_digits_apart :: "(string \<times> string) list \<Rightarrow> cfg_error list" where
  "check_digits_apart slugs =
     concat (map (\<lambda>(a, sec_a). concat (map (\<lambda>(b, sec_b).
       err_if (a \<noteq> b \<and> digits_apart a b) (Cross_err (Digits_apart sec_a a sec_b b))) slugs)) slugs)"

definition check_names :: "ca_fields \<Rightarrow> (string \<times> signing_ca) list \<Rightarrow> cfg_error list" where
  "check_names root cas =
     (let (slugs0, e1) = claim [] (ca_slug_prefix root) ''slug_prefix'' ''root'';
          (cns0, e2) = claim [] (ca_cn root) ''cn'' ''root'';
          (slugs, e3) = claim_all slugs0 cns0 [] cas
      in e1 @ e2 @ e3 @ check_digits_apart slugs)"

definition any_pkcs11 :: "ca_fields \<Rightarrow> (string \<times> signing_ca) list \<Rightarrow> bool" where
  "any_pkcs11 root cas \<longleftrightarrow>
     ca_key_backend root = ''pkcs11'' \<or> list_ex (\<lambda>(_, ca). ca_key_backend ca = ''pkcs11'') cas"

definition check_backends ::
  "pkcs11 \<Rightarrow> ca_fields \<Rightarrow> (string \<times> signing_ca) list \<Rightarrow> cfg_error list" where
  "check_backends p11 root cas =
     (let root_p11 = (ca_key_backend root = ''pkcs11''); any_p11 = any_pkcs11 root cas
      in concat (map (\<lambda>(purpose, ca).
           err_if (ca_key_backend ca = ''pkcs11'' \<and> \<not> root_p11) (Cross_err (Misplaced_trust purpose))) cas) @
         err_if (any_p11 \<and> p11_module p11 = []) (Cross_err P11_module_required) @
         err_if (\<not> any_p11 \<and> (p11_module p11 \<noteq> [] \<or> p11_token_label p11 \<noteq> [])) (Cross_err P11_unused))"

text \<open>\<^verbatim>\<open>resolve_label\<close>: the CA with its label resolved, whether the default was
  used, and the errors.\<close>

definition resolve_label ::
  "pkcs11 \<Rightarrow> string \<Rightarrow> 'a ca_fields_scheme \<Rightarrow> 'a ca_fields_scheme \<times> bool \<times> cfg_error list" where
  "resolve_label p11 sec ca =
     (if ca_key_backend ca \<noteq> ''pkcs11'' then
        (ca\<lparr>ca_token_label := []\<rparr>, False, err_if (ca_token_label ca \<noteq> []) (Cross_err (Token_label_unused sec)))
      else
        let default_used = (ca_token_label ca = []);
            label = (if default_used then p11_token_label p11 else ca_token_label ca)
        in (ca\<lparr>ca_token_label := label\<rparr>, default_used,
            if label = [] then [Cross_err (Token_label_required sec)]
            else err_if (length label > p11_token_label_max) (Cross_err (Token_label_too_long sec))))"

definition resolve_labels ::
  "pkcs11 \<Rightarrow> ca_fields \<Rightarrow> (string \<times> signing_ca) list
    \<Rightarrow> ca_fields \<times> (string \<times> signing_ca) list \<times> cfg_error list" where
  "resolve_labels p11 root cas =
     (let (root', used0, e0) = resolve_label p11 ''root'' root;
          rs = map (\<lambda>(purpose, ca). (purpose, resolve_label p11 (''ca.'' @ purpose) ca)) cas;
          cas' = map (\<lambda>(purpose, (ca, _, _)). (purpose, ca)) rs;
          used = (used0 \<or> list_ex (\<lambda>(_, (_, u, _)). u) rs);
          es = concat (map (\<lambda>(_, (_, _, e)). e) rs)
      in (root', cas', e0 @ es @
            err_if (p11_token_label p11 \<noteq> [] \<and> \<not> used) (Cross_err P11_default_unused)))"

section \<open>The loader\<close>

definition cfg_load :: "toml_file \<Rightarrow> cfg_error list + config" where
  "cfg_load file =
     (case file of
        No_file \<Rightarrow> Inl [File_err Config_not_found]
      | Bad_toml \<Rightarrow> Inl [File_err Config_parse_error]
      | Parsed tbl \<Rightarrow>
          (let u0 = check_sections tbl;
               (pki, e1, u1) = load_pki tbl;
               (p11, e2, u2) = load_pkcs11 tbl;
               (root, e3, u3) = load_root tbl;
               (cas, e4, u4) = load_cas (ca_valid_days root) tbl;
               e5 = check_names root cas;
               e6 = check_backends p11 root cas;
               (root', cas', e7) = resolve_labels p11 root cas;
               errs = e1 @ e2 @ e3 @ e4 @ e5 @ e6 @ e7;
               unk = u0 @ u1 @ u2 @ u3 @ u4
           in if errs \<noteq> [] then Inl (errs @ unk)
              else Inr \<lparr>cfg_pki = pki, cfg_pkcs11 = p11, cfg_root = root', cfg_cas = cas',
                     cfg_unknown = unk\<rparr>))"

section \<open>What an accepted configuration satisfies\<close>

definition ca_fields_ok :: "'a ca_fields_scheme \<Rightarrow> bool" where
  "ca_fields_ok ca \<longleftrightarrow> ca_cn ca \<noteq> [] \<and> ca_curve ca \<in> set kCurves \<and> ca_digest ca \<in> set kDigests \<and>
     0 < ca_valid_days ca \<and> ca_valid_days ca < 2 ^ 31 \<and> ca_slug_prefix ca \<noteq> [] \<and>
     valid_slug (ca_slug_prefix ca) \<and> ca_slug ca = ca_slug_prefix ca @ ''1'' \<and>
     (ca_key_backend ca = ''internal'' \<or> ca_key_backend ca = ''pkcs11'')"

definition subtree_ok :: "bool \<Rightarrow> string \<Rightarrow> bool" where
  "subtree_ok email nm \<longleftrightarrow>
     valid_hostname nm \<or> (email \<and> starts_with nm ''.'' \<and> valid_hostname (drop 1 nm))"

definition policies_ok :: "string list \<Rightarrow> (string \<times> string list) list \<Rightarrow> bool" where
  "policies_ok profiles pols \<longleftrightarrow> omap_ok pols \<and>
     (\<forall>(prof, oids) \<in> set pols. prof \<in> set profiles \<and> distinct oids \<and>
        (\<forall>oid \<in> set oids. oid_canonical oid \<and> oid \<noteq> ''2.5.29.32.0''))"

definition issuing_ok :: "int \<Rightarrow> string \<Rightarrow> signing_ca \<Rightarrow> bool" where
  "issuing_ok root_days purpose ca \<longleftrightarrow> ca_purpose ca = purpose \<and> valid_slug purpose \<and>
     purpose \<noteq> ''root'' \<and> ca_fields_ok ca \<and> ca_profiles ca \<noteq> [] \<and>
     (\<forall>p \<in> set (ca_profiles ca). \<exists>d. profile_find p = Some d \<and>
        ca_ee_valid_days ca \<le> pd_max_valid_days d \<and> (ca_simple_dn ca \<longrightarrow> \<not> pd_full_dn d)) \<and>
     list_all (subtree_ok False) (ca_permitted_dns ca) \<and>
     list_all (subtree_ok True) (ca_permitted_email ca) \<and>
     policies_ok (ca_profiles ca) (ca_policies_map ca) \<and>
     ca_ee_curve ca \<in> set kCurves \<and> ca_ee_digest ca \<in> set kDigests \<and>
     0 < ca_ee_valid_days ca \<and> ca_ee_valid_days ca < ca_valid_days ca \<and>
     (0 < root_days \<longrightarrow> ca_valid_days ca < root_days)"

lemma cast_int_range: "- (2 ^ 31) \<le> cast_int v \<and> cast_int v < 2 ^ 31"
  using sint_range_size [of "word_of_int v :: 32 word"]
  by (simp add: cast_int_def word_size)

lemma get_str_ok:
  "get_str t sec key out = (b, v, []) \<Longrightarrow> b \<and> v \<noteq> []"
  by (auto simp: get_str_def split: option.splits if_splits)

lemma get_str_errs: "snd (snd (get_str t sec key out)) = [] \<longleftrightarrow> fst (get_str t sec key out)"
  by (auto simp: get_str_def split: option.splits)

lemma get_int_ok: "get_int t sec key out = (b, v, []) \<Longrightarrow> b \<and> v < 2 ^ 31"
  using cast_int_range by (auto simp: get_int_def split: option.splits)

lemma read_ca_ok:
  assumes "read_ca t sec ca = (ca', [])" and "ca_key_backend ca = ''internal''"
  shows "ca_fields_ok ca'"
  using assms
  by (auto simp: read_ca_def Let_def ca_fields_ok_def split: prod.splits if_splits
      dest!: get_str_ok get_int_ok)

lemma read_ca_extends:
  fixes ca :: signing_ca
  assumes "read_ca t sec ca = (ca', e)"
  shows "signing_ca.more ca' = () \<and> ca_purpose ca' = ca_purpose ca"
  using assms by (auto simp: read_ca_def Let_def split: prod.splits if_splits)

lemma concat_Nil_map: "concat (map f xs) = [] \<longleftrightarrow> (\<forall>x \<in> set xs. f x = [])"
  by (auto simp: concat_eq_Nil_conv)

lemma read_profiles_ok:
  assumes "read_profiles sec t = (ps, [])"
  shows "ps \<noteq> [] \<and> (\<forall>p \<in> set ps. profile_find p \<noteq> None)"
proof -
  obtain arr where arr: "get_as as_array t ''profiles'' = Some arr"
      and ps: "ps = List.map_filter as_string arr" and ne: "ps \<noteq> []"
      and known: "\<forall>v \<in> set arr. \<forall>nm. as_string v = Some nm \<longrightarrow> profile_find nm \<noteq> None"
    using assms by (auto simp: read_profiles_def Let_def concat_Nil_map split: option.splits)
  have "\<exists>v \<in> set arr. as_string v = Some p" if "p \<in> set ps" for p
    using that by (auto simp: ps map_filter_def)
  with known ne show ?thesis by blast
qed

lemma read_simple_dn_ok:
  "read_simple_dn sec t ps = (simple, []) \<Longrightarrow> simple \<Longrightarrow> p \<in> set ps \<Longrightarrow> profile_find p = Some d \<Longrightarrow>
   \<not> pd_full_dn d"
  by (auto simp: read_simple_dn_def get_bool_def concat_Nil_map split: if_splits option.splits prod.splits)

lemma read_subtree_ok: "read_subtree sec fld email v = (out, e) \<Longrightarrow> list_all (subtree_ok email) out"
  by (auto simp: read_subtree_def Let_def subtree_ok_def split: option.splits if_splits)

lemma read_subtrees_ok:
  "read_subtrees sec t fld email = (out, e) \<Longrightarrow> list_all (subtree_ok email) out"
  by (auto simp: read_subtrees_def Let_def list_all_iff split: option.splits)
    (metis list_all_iff prod.collapse read_subtree_ok)

definition oids_ok :: "string list \<Rightarrow> bool" where
  "oids_ok oids \<longleftrightarrow> distinct oids \<and> (\<forall>oid \<in> set oids. oid_canonical oid \<and> oid \<noteq> ''2.5.29.32.0'')"

lemma read_oids_ok: "read_oids sec prof oids vs = (oids', e) \<Longrightarrow> oids_ok oids \<Longrightarrow> oids_ok oids'"
proof (induction sec prof oids vs arbitrary: e rule: read_oids.induct)
  case (1 sec prof oids)
  then show ?case by simp
next
  case (2 sec prof oids v vs)
  obtain o1 e1 where step: "(case as_string v of
           None \<Rightarrow> (oids, [Policy_err sec prof Policy_not_string])
         | Some oid \<Rightarrow>
             if \<not> (oid \<noteq> [] \<and> oid_canonical oid) then (oids, [Policy_err sec prof (Invalid_oid oid)])
             else if oid = ''2.5.29.32.0'' then (oids, [Policy_err sec prof Any_policy])
             else if oid \<in> set oids then (oids, [Policy_err sec prof (Duplicate_oid oid)])
             else (oids @ [oid], [])) = (o1, e1)" by (rule prod.exhaust)
  have "oids_ok o1"
    using step "2.prems"(2) by (auto simp: oids_ok_def split: option.splits if_splits)
  with "2.IH" [OF step [symmetric] refl] "2.prems"(1) show ?case
    by (simp only: read_oids.simps step) (auto simp: Let_def split: prod.splits)
qed

lemma policies_ok_assign:
  assumes "policies_ok ps pols" and "prof \<in> set ps" and "oids_ok oids"
  shows "policies_ok ps (omap_assign prof oids pols)"
proof -
  have "set (omap_assign prof oids pols) \<subseteq> insert (prof, oids) (set pols)"
    by (induction prof oids pols rule: omap_assign.induct) auto
  then have "x = (prof, oids) \<or> x \<in> set pols" if "x \<in> set (omap_assign prof oids pols)" for x
    using that by blast
  with assms show ?thesis
    unfolding policies_ok_def oids_ok_def by (fastforce intro: omap_ok_assign)
qed

lemma read_policy_table_ok:
  "read_policy_table sec ps pols rows = (pols', e) \<Longrightarrow> policies_ok ps pols \<Longrightarrow> policies_ok ps pols'"
proof (induction sec ps pols rows arbitrary: e rule: read_policy_table.induct)
  case (1 sec profiles pols)
  then show ?case by simp
next
  case (2 sec profiles pols prof pv rest)
  obtain p1 e1 where step: "(if prof \<notin> set profiles then (pols, [Policy_err sec prof Not_listed])
         else case as_array pv of
           None \<Rightarrow> (pols, [Policy_err sec prof Policy_not_array])
         | Some arr \<Rightarrow>
             let start = (case map_of pols prof of None \<Rightarrow> [] | Some o0 \<Rightarrow> o0);
                 (oids, e) = read_oids sec prof start arr
             in (omap_assign prof oids pols, e)) = (p1, e1)" by (rule prod.exhaust)
  have start: "oids_ok (case map_of pols prof of None \<Rightarrow> [] | Some o0 \<Rightarrow> o0)"
    using "2.prems"(2) by (auto simp: policies_ok_def oids_ok_def split: option.splits dest!: map_of_SomeD)
  have "policies_ok profiles p1"
  proof (cases "prof \<in> set profiles \<and> as_array pv \<noteq> None")
    case True
    then obtain arr where arr: "as_array pv = Some arr" by blast
    obtain oids e2 where oids: "read_oids sec prof
        (case map_of pols prof of None \<Rightarrow> [] | Some o0 \<Rightarrow> o0) arr = (oids, e2)" by (rule prod.exhaust)
    have "p1 = omap_assign prof oids pols"
      using step True by (simp add: arr oids Let_def)
    with policies_ok_assign [OF "2.prems"(2) _ read_oids_ok [OF oids start]] True
    show ?thesis by simp
  next
    case False
    with step "2.prems"(2) show ?thesis by (auto split: option.splits if_splits)
  qed
  with "2.IH" [OF step [symmetric] refl] "2.prems"(1) show ?case
    by (simp only: read_policy_table.simps step) (auto simp: Let_def split: prod.splits)
qed

lemma read_policies_ok: "read_policies sec t ps = (pols, e) \<Longrightarrow> policies_ok ps pols"
proof -
  have "policies_ok ps []" by (simp add: policies_ok_def omap_ok_def)
  then show "read_policies sec t ps = (pols, e) \<Longrightarrow> policies_ok ps pols"
    by (auto simp: read_policies_def split: option.splits dest: read_policy_table_ok)
qed

text \<open>The ceiling is the strictest of the profiles seen.\<close>

lemma profile_cap_fold:
  "foldl (\<lambda>(cap, by) nm.
        case profile_find nm of
          None \<Rightarrow> (cap, by)
        | Some d \<Rightarrow> if cap = 0 \<or> pd_max_valid_days d < cap then (pd_max_valid_days d, nm) else (cap, by))
      (c0, b0) ps = (cap, by) \<Longrightarrow> 0 \<le> c0 \<Longrightarrow>
   0 \<le> cap \<and> (0 < c0 \<longrightarrow> 0 < cap \<and> cap \<le> c0) \<and>
   (\<forall>p \<in> set ps. \<forall>d. profile_find p = Some d \<longrightarrow> 0 < cap \<and> cap \<le> pd_max_valid_days d)"
proof (induction ps arbitrary: c0 b0)
  case Nil
  then show ?case by simp
next
  case (Cons p ps)
  show ?case
  proof (cases "profile_find p")
    case None
    with Cons show ?thesis by simp
  next
    case (Some d)
    then have "0 < pd_max_valid_days d"
      using profile_cap_le_max profile_find_Some by blast
    with Cons.prems Some
      Cons.IH [of "if c0 = 0 \<or> pd_max_valid_days d < c0 then pd_max_valid_days d else c0"
          "if c0 = 0 \<or> pd_max_valid_days d < c0 then p else b0"]
    show ?thesis by (auto split: if_splits)
  qed
qed

lemma profile_cap_bound:
  "profile_cap ps = (cap, by) \<Longrightarrow> p \<in> set ps \<Longrightarrow> profile_find p = Some d \<Longrightarrow>
   0 < cap \<and> cap \<le> pd_max_valid_days d"
  unfolding profile_cap_def using profile_cap_fold [of 0 "[]" ps cap "by"] by auto

lemma load_ee_ok:
  assumes "load_ee sec t ca = (ca', [])"
  shows "ca_ee_curve ca' \<in> set kCurves" "ca_ee_digest ca' \<in> set kDigests" "0 < ca_ee_valid_days ca'"
    "0 < ca_valid_days ca \<Longrightarrow> ca_ee_valid_days ca' < ca_valid_days ca"
    "p \<in> set (ca_profiles ca) \<Longrightarrow> profile_find p = Some d \<Longrightarrow> ca_ee_valid_days ca' \<le> pd_max_valid_days d"
    "ca' = ca\<lparr>ca_ee_curve := ca_ee_curve ca', ca_ee_digest := ca_ee_digest ca',
       ca_ee_valid_days := ca_ee_valid_days ca'\<rparr>"
proof -
  obtain cap "by" where cap: "profile_cap (ca_profiles ca) = (cap, by)" by (rule prod.exhaust)
  note facts = assms cap profile_cap_bound [OF cap]
  show "ca_ee_curve ca' \<in> set kCurves" "ca_ee_digest ca' \<in> set kDigests" "0 < ca_ee_valid_days ca'"
    "0 < ca_valid_days ca \<Longrightarrow> ca_ee_valid_days ca' < ca_valid_days ca"
    "ca' = ca\<lparr>ca_ee_curve := ca_ee_curve ca', ca_ee_digest := ca_ee_digest ca',
       ca_ee_valid_days := ca_ee_valid_days ca'\<rparr>"
    using facts(1,2) by (auto simp: load_ee_def Let_def split: prod.splits dest!: get_str_ok get_int_ok split: if_splits)
  show "p \<in> set (ca_profiles ca) \<Longrightarrow> profile_find p = Some d \<Longrightarrow> ca_ee_valid_days ca' \<le> pd_max_valid_days d"
    using facts(1,2) facts(3) [of p d]
    by (auto simp: load_ee_def Let_def split: prod.splits dest!: get_str_ok get_int_ok split: if_splits)
qed

lemma load_ca_ok:
  assumes "load_ca root_days purpose t = (ca, [], u)"
  shows "issuing_ok root_days purpose ca"
proof -
  let ?sec = "''ca.'' @ purpose"
  obtain ca1 e1 where r1: "read_ca t ?sec (empty_signing_ca purpose) = (ca1, e1)" by (rule prod.exhaust)
  obtain ps e2 where r2: "read_profiles ?sec t = (ps, e2)" by (rule prod.exhaust)
  obtain simple e3 where r3: "read_simple_dn ?sec t ps = (simple, e3)" by (rule prod.exhaust)
  obtain dns e4 where r4: "read_subtrees ?sec t ''permitted_dns'' False = (dns, e4)" by (rule prod.exhaust)
  obtain email e5 where r5: "read_subtrees ?sec t ''permitted_email'' True = (email, e5)" by (rule prod.exhaust)
  obtain pols e6 where r6: "read_policies ?sec t ps = (pols, e6)" by (rule prod.exhaust)
  let ?mid = "ca1\<lparr>ca_profiles := ps, ca_simple_dn := simple, ca_permitted_dns := dns,
    ca_permitted_email := email, ca_policies_map := pols\<rparr>"
  obtain ca2 e7 where r7: "load_ee ?sec t ?mid = (ca2, e7)" by (rule prod.exhaust)
  have ca: "ca = ca2" and no_errs: "e1 = []" "e2 = []" "e3 = []" "e7 = []"
    and purpose: "valid_slug purpose" "purpose \<noteq> ''root''"
    and root: "0 < root_days \<Longrightarrow> 0 < ca_valid_days ca2 \<Longrightarrow> ca_valid_days ca2 < root_days"
    using assms unfolding load_ca_def Let_def r1 prod.case r2 r3 r4 r5 r6 r7 by auto
  have ca1: "ca_fields_ok ca1"
    using r1 by (intro read_ca_ok) (auto simp: no_errs empty_signing_ca_def empty_ca_fields_def ca_fields.defs)
  have purpose1: "ca_purpose ca1 = purpose"
    using read_ca_extends [OF r1] by (simp add: empty_signing_ca_def empty_ca_fields_def ca_fields.defs signing_ca.defs)
  note ee = load_ee_ok [OF r7 [unfolded no_errs]]
  have base: "ca_fields_ok ca2"
    using ca1 by (subst ee(6)) (simp add: ca_fields_ok_def)
  have keeps: "ca_valid_days ca2 = ca_valid_days ca1" "ca_profiles ca2 = ps" "ca_simple_dn ca2 = simple"
    "ca_permitted_dns ca2 = dns" "ca_permitted_email ca2 = email" "ca_policies_map ca2 = pols"
    "ca_purpose ca2 = purpose"
    by (subst ee(6); simp add: purpose1)+
  have profiles: "\<exists>d. profile_find p = Some d \<and> ca_ee_valid_days ca2 \<le> pd_max_valid_days d \<and>
      (simple \<longrightarrow> \<not> pd_full_dn d)" if "p \<in> set ps" for p
  proof -
    obtain d where d: "profile_find p = Some d"
      using read_profiles_ok [OF r2 [unfolded no_errs]] \<open>p \<in> set ps\<close> by blast
    with ee(5) [of p d] read_simple_dn_ok [OF r3 [unfolded no_errs] _ \<open>p \<in> set ps\<close> d] \<open>p \<in> set ps\<close>
    show ?thesis by auto
  qed
  show ?thesis
    using base ee(1-4) profiles purpose root ca1 read_profiles_ok [OF r2 [unfolded no_errs]]
      read_subtrees_ok [OF r4] read_subtrees_ok [OF r5] read_policies_ok [OF r6]
    by (auto simp: issuing_ok_def ca keeps ca_fields_ok_def)
qed

lemma load_cas_loop_ok:
  "load_cas_loop root_days cas t = (cas', [], u) \<Longrightarrow> omap_ok cas \<Longrightarrow>
   \<forall>(purpose, ca) \<in> set cas. issuing_ok root_days purpose ca \<Longrightarrow>
   omap_ok cas' \<and> (\<forall>(purpose, ca) \<in> set cas'. issuing_ok root_days purpose ca) \<and> set cas \<subseteq> set cas'"
proof (induction root_days cas t arbitrary: u rule: load_cas_loop.induct)
  case (1 root_days cas)
  then show ?case by simp
next
  case (2 root_days cas purpose node rest)
  then obtain t where t: "as_table node = Some t" by (auto split: option.splits prod.splits)
  obtain ca e u1 where ca: "load_ca root_days purpose t = (ca, e, u1)" by (metis prod.exhaust)
  with "2.prems"(1) have "e = []" by (auto simp: t split: prod.splits)
  with ca have ok: "issuing_ok root_days purpose ca" using load_ca_ok by blast
  obtain u2 where rest: "load_cas_loop root_days (omap_emplace purpose ca cas) rest = (cas', [], u2)"
    using "2.prems"(1) by (auto simp: t ca split: prod.splits)
  have "set (omap_emplace purpose ca cas) \<subseteq> insert (purpose, ca) (set cas)"
       "set cas \<subseteq> set (omap_emplace purpose ca cas)"
    by (induction purpose ca cas rule: omap_emplace.induct) auto
  with "2.IH"(2) [OF t ca [symmetric] refl rest] ok "2.prems"(2,3) show ?case
    using omap_ok_emplace [OF "2.prems"(2)] by fastforce
qed

subsection \<open>Names across the CAs\<close>

lemma claim_ok:
  "claim taken v what sec = (taken', []) \<Longrightarrow> v \<noteq> [] \<Longrightarrow>
   v \<notin> fst ` set taken \<and> fst ` set taken' = insert v (fst ` set taken)"
  using keys_emplace [of v sec taken]
  by (clarsimp simp: claim_def map_of_eq_None_iff simp del: set_map split: option.splits)

lemma claim_profiles_ok:
  "claim_profiles sec own ps = (own', []) \<Longrightarrow>
   distinct ps \<and> set ps \<inter> fst ` set own = {} \<and> fst ` set own' = set ps \<union> fst ` set own"
  by (induction sec own ps arbitrary: own' rule: claim_profiles.induct)
    (auto simp: keys_emplace map_of_eq_None_iff split: option.splits prod.splits)

definition prefixes_of :: "(string \<times> signing_ca) list \<Rightarrow> string list" where
  "prefixes_of cas = map (\<lambda>(_, ca). ca_slug_prefix ca) cas"

definition cns_of :: "(string \<times> signing_ca) list \<Rightarrow> string list" where
  "cns_of cas = map (\<lambda>(_, ca). ca_cn ca) cas"

definition profiles_of :: "(string \<times> signing_ca) list \<Rightarrow> string list" where
  "profiles_of cas = concat (map (\<lambda>(_, ca). ca_profiles ca) cas)"

lemmas names_of_defs = prefixes_of_def cns_of_def profiles_of_def

lemma fresh_Cons:
  "distinct ps \<Longrightarrow> set ps \<inter> T' = {} \<Longrightarrow> v \<notin> T \<and> T' = insert v T \<Longrightarrow>
   distinct (v # ps) \<and> set (v # ps) \<inter> T = {} \<and> set ps \<union> T' = set (v # ps) \<union> T"
  by auto

lemma fresh_append:
  "distinct ps \<Longrightarrow> set ps \<inter> T' = {} \<Longrightarrow> distinct vs \<and> set vs \<inter> T = {} \<and> T' = set vs \<union> T \<Longrightarrow>
   distinct (vs @ ps) \<and> set (vs @ ps) \<inter> T = {}"
  by auto

lemma claim_all_ok:
  "claim_all slugs cns own cas = (slugs', []) \<Longrightarrow>
   \<forall>(_, ca) \<in> set cas. ca_slug_prefix ca \<noteq> [] \<and> ca_cn ca \<noteq> [] \<Longrightarrow>
   distinct (prefixes_of cas) \<and> set (prefixes_of cas) \<inter> fst ` set slugs = {} \<and>
   distinct (cns_of cas) \<and> set (cns_of cas) \<inter> fst ` set cns = {} \<and>
   distinct (profiles_of cas) \<and> set (profiles_of cas) \<inter> fst ` set own = {} \<and>
   fst ` set slugs' = set (prefixes_of cas) \<union> fst ` set slugs"
proof (induction slugs cns own cas arbitrary: slugs' rule: claim_all.induct)
  case (1 slugs cns own)
  then show ?case by (simp add: names_of_defs)
next
  case (2 slugs cns own purpose ca rest)
  let ?sec = "''ca.'' @ purpose"
  obtain s1 e1 where c1: "claim slugs (ca_slug_prefix ca) ''slug_prefix'' ?sec = (s1, e1)" by (rule prod.exhaust)
  obtain n1 e2 where c2: "claim cns (ca_cn ca) ''cn'' ?sec = (n1, e2)" by (rule prod.exhaust)
  obtain o1 e3 where c3: "claim_profiles ?sec own (ca_profiles ca) = (o1, e3)" by (rule prod.exhaust)
  obtain s2 e4 where c4: "claim_all s1 n1 o1 rest = (s2, e4)" by (rule prod.exhaust)
  have nil: "e1 = []" "e2 = []" "e3 = []" "e4 = []" "s2 = slugs'"
    using "2.prems"(1) unfolding claim_all.simps Let_def c1 prod.case c2 c3 c4 by auto
  have ne: "ca_slug_prefix ca \<noteq> []" "ca_cn ca \<noteq> []" using "2.prems"(2) by auto
  note c1' = claim_ok [OF c1 [unfolded nil] ne(1)] and c2' = claim_ok [OF c2 [unfolded nil] ne(2)]
    and c3' = claim_profiles_ok [OF c3 [unfolded nil]]
  have IH: "distinct (prefixes_of rest) \<and> set (prefixes_of rest) \<inter> fst ` set s1 = {} \<and>
     distinct (cns_of rest) \<and> set (cns_of rest) \<inter> fst ` set n1 = {} \<and>
     distinct (profiles_of rest) \<and> set (profiles_of rest) \<inter> fst ` set o1 = {} \<and>
     fst ` set slugs' = set (prefixes_of rest) \<union> fst ` set s1"
    using "2.IH" [OF refl c1 [symmetric] refl c2 [symmetric] refl c3 [symmetric] refl c4 [unfolded nil]] "2.prems"(2)
    by simp
  have cons: "prefixes_of ((purpose, ca) # rest) = ca_slug_prefix ca # prefixes_of rest"
      "cns_of ((purpose, ca) # rest) = ca_cn ca # cns_of rest"
      "profiles_of ((purpose, ca) # rest) = ca_profiles ca @ profiles_of rest"
    by (simp_all add: names_of_defs)
  from IH have parts: "distinct (prefixes_of rest)" "set (prefixes_of rest) \<inter> fst ` set s1 = {}"
      "distinct (cns_of rest)" "set (cns_of rest) \<inter> fst ` set n1 = {}"
      "distinct (profiles_of rest)" "set (profiles_of rest) \<inter> fst ` set o1 = {}"
      "fst ` set slugs' = set (prefixes_of rest) \<union> fst ` set s1"
    by blast+
  show ?case
    unfolding cons parts(7)
    using fresh_Cons [OF parts(1,2) c1'] fresh_Cons [OF parts(3,4) c2'] fresh_append [OF parts(5,6) c3']
    by (elim conjE) (intro conjI; assumption)
qed

lemma check_digits_apart_ok:
  "check_digits_apart slugs = [] \<Longrightarrow> a \<in> fst ` set slugs \<Longrightarrow> b \<in> fst ` set slugs \<Longrightarrow> a \<noteq> b \<Longrightarrow>
   \<not> digits_apart a b"
  by (fastforce simp: check_digits_apart_def)

definition names_ok :: "ca_fields \<Rightarrow> (string \<times> signing_ca) list \<Rightarrow> bool" where
  "names_ok root cas \<longleftrightarrow> distinct (ca_slug_prefix root # prefixes_of cas) \<and>
     distinct (ca_cn root # cns_of cas) \<and> distinct (profiles_of cas) \<and>
     (\<forall>a \<in> set (ca_slug_prefix root # prefixes_of cas). \<forall>b \<in> set (ca_slug_prefix root # prefixes_of cas).
        a \<noteq> b \<longrightarrow> \<not> digits_apart a b)"

lemma check_names_ok:
  assumes "check_names root cas = []"
    and "ca_fields_ok root" and "\<forall>(purpose, ca) \<in> set cas. ca_fields_ok ca"
  shows "names_ok root cas"
proof -
  obtain s0 e1 where c1: "claim [] (ca_slug_prefix root) ''slug_prefix'' ''root'' = (s0, e1)" by (rule prod.exhaust)
  obtain n0 e2 where c2: "claim [] (ca_cn root) ''cn'' ''root'' = (n0, e2)" by (rule prod.exhaust)
  obtain s e3 where c3: "claim_all s0 n0 [] cas = (s, e3)" by (rule prod.exhaust)
  have nil: "e1 = []" "e2 = []" "e3 = []" and apart: "check_digits_apart s = []"
    using assms(1) unfolding check_names_def Let_def c1 prod.case c2 c3 by auto
  have ne: "ca_slug_prefix root \<noteq> []" "ca_cn root \<noteq> []"
      "\<forall>(purpose, ca) \<in> set cas. ca_slug_prefix ca \<noteq> [] \<and> ca_cn ca \<noteq> []"
    using assms(2,3) by (auto simp: ca_fields_ok_def)
  from claim_ok [OF c1 [unfolded nil] ne(1)] claim_ok [OF c2 [unfolded nil] ne(2)]
    claim_all_ok [OF c3 [unfolded nil] ne(3)]
  have "distinct (ca_slug_prefix root # prefixes_of cas)" "distinct (ca_cn root # cns_of cas)"
      "distinct (profiles_of cas)" "fst ` set s = set (ca_slug_prefix root # prefixes_of cas)"
    by auto
  with check_digits_apart_ok [OF apart] show ?thesis unfolding names_ok_def by metis
qed

subsection \<open>Token labels\<close>

definition label_ok :: "'a ca_fields_scheme \<Rightarrow> bool" where
  "label_ok ca \<longleftrightarrow> (if ca_key_backend ca = ''pkcs11''
     then ca_token_label ca \<noteq> [] \<and> length (ca_token_label ca) \<le> p11_token_label_max
     else ca_token_label ca = [])"

lemma resolve_label_ok:
  "resolve_label p11 sec ca = (ca', u, []) \<Longrightarrow>
   label_ok ca' \<and> ca' = ca\<lparr>ca_token_label := ca_token_label ca'\<rparr>"
  by (auto simp: resolve_label_def Let_def label_ok_def split: if_splits)

lemma ca_fields_ok_label [simp]: "ca_fields_ok (ca\<lparr>ca_token_label := l\<rparr>) = ca_fields_ok ca"
  by (simp add: ca_fields_ok_def)

lemma issuing_ok_label [simp]: "issuing_ok d p (ca\<lparr>ca_token_label := l\<rparr>) = issuing_ok d p ca"
  by (simp add: issuing_ok_def)

definition labelled :: "signing_ca \<Rightarrow> signing_ca \<Rightarrow> bool" where
  "labelled ca ca' \<longleftrightarrow> label_ok ca' \<and> ca' = ca\<lparr>ca_token_label := ca_token_label ca'\<rparr>"

lemma labelled_names:
  "list_all2 (\<lambda>(p, ca) (p', ca'). p = p' \<and> labelled ca ca') cas cas' \<Longrightarrow>
   map fst cas' = map fst cas \<and> prefixes_of cas' = prefixes_of cas \<and> cns_of cas' = cns_of cas \<and>
   profiles_of cas' = profiles_of cas"
proof (induction rule: list_all2_induct)
  case Nil
  then show ?case by simp
next
  case (Cons x xs y ys)
  have eq: "ca_slug_prefix (ca\<lparr>ca_token_label := l\<rparr>) = ca_slug_prefix ca"
     "ca_cn (ca\<lparr>ca_token_label := l\<rparr>) = ca_cn ca" "ca_profiles (ca\<lparr>ca_token_label := l\<rparr>) = ca_profiles ca"
    for ca :: signing_ca and l by simp_all
  obtain p ca p' ca' where xy: "x = (p, ca)" "y = (p', ca')" by fastforce
  with Cons(1) have "p = p'" "ca' = ca\<lparr>ca_token_label := ca_token_label ca'\<rparr>"
    by (auto simp: labelled_def)
  with Cons(3) show ?case
    unfolding xy by (simp add: names_of_defs) (metis eq)
qed

lemma resolve_labels_parts:
  assumes "resolve_labels p11 root cas = (root', cas', [])"
  shows "\<exists>u0. resolve_label p11 ''root'' root = (root', u0, []) \<and>
      (p11_token_label p11 \<noteq> [] \<longrightarrow> u0 \<or> (\<exists>(p, ca) \<in> set cas. fst (snd (resolve_label p11 (''ca.'' @ p) ca))))"
    and "cas' = map (\<lambda>(p, ca). (p, fst (resolve_label p11 (''ca.'' @ p) ca))) cas"
    and "\<And>p ca. (p, ca) \<in> set cas \<Longrightarrow> snd (snd (resolve_label p11 (''ca.'' @ p) ca)) = []"
proof -
  obtain r u e where r: "resolve_label p11 ''root'' root = (r, u, e)" by (metis prod.exhaust)
  show "\<exists>u0. resolve_label p11 ''root'' root = (root', u0, []) \<and>
      (p11_token_label p11 \<noteq> [] \<longrightarrow> u0 \<or> (\<exists>(p, ca) \<in> set cas. fst (snd (resolve_label p11 (''ca.'' @ p) ca))))"
    using assms unfolding resolve_labels_def r Let_def by (auto simp: split_beta list_ex_iff)
  show "cas' = map (\<lambda>(p, ca). (p, fst (resolve_label p11 (''ca.'' @ p) ca))) cas"
    using assms unfolding resolve_labels_def r Let_def by (auto simp: split_beta)
  show "snd (snd (resolve_label p11 (''ca.'' @ p) ca)) = []" if "(p, ca) \<in> set cas" for p ca
    using assms that unfolding resolve_labels_def r Let_def by (fastforce simp: split_beta)
qed

lemma resolve_labels_ok:
  assumes "resolve_labels p11 root cas = (root', cas', [])"
  shows "label_ok root'" and "root' = root\<lparr>ca_token_label := ca_token_label root'\<rparr>"
    and "list_all2 (\<lambda>(p, ca) (p', ca'). p = p' \<and> labelled ca ca') cas cas'"
proof -
  note parts = resolve_labels_parts [OF assms]
  then show "label_ok root'" "root' = root\<lparr>ca_token_label := ca_token_label root'\<rparr>"
    using resolve_label_ok by blast+
  have "labelled ca (fst (resolve_label p11 (''ca.'' @ p) ca))" if "(p, ca) \<in> set cas" for p ca
    using parts(3) [OF that] resolve_label_ok unfolding labelled_def by (metis prod.collapse)
  then show "list_all2 (\<lambda>(p, ca) (p', ca'). p = p' \<and> labelled ca ca') cas cas'"
    unfolding parts(2) by (auto simp: list_all2_conv_all_nth split_beta)
qed

text \<open>What every operation relies on of an accepted configuration. What the loader checks of the token
  labels against the file is \<open>labels_ok\<close> below.\<close>

definition config_ok :: "config \<Rightarrow> bool" where
  "config_ok c \<longleftrightarrow>
     pki_org_name (cfg_pki c) \<noteq> [] \<and> two_letters (pki_country_code (cfg_pki c)) \<and>
     valid_host_port (pki_repository_host (cfg_pki c)) \<and>
     ca_fields_ok (cfg_root c) \<and> label_ok (cfg_root c) \<and> omap_ok (cfg_cas c) \<and>
     (\<forall>(purpose, ca) \<in> set (cfg_cas c).
        issuing_ok (ca_valid_days (cfg_root c)) purpose ca \<and> label_ok ca) \<and>
     names_ok (cfg_root c) (cfg_cas c) \<and>
     (\<forall>(purpose, ca) \<in> set (cfg_cas c). ca_key_backend ca = ''pkcs11'' \<longrightarrow>
        ca_key_backend (cfg_root c) = ''pkcs11'') \<and>
     (ca_key_backend (cfg_root c) = ''pkcs11'' \<longleftrightarrow> p11_module (cfg_pkcs11 c) \<noteq> [])"

lemma load_pki_ok:
  "load_pki tbl = (p, [], u) \<Longrightarrow>
   pki_org_name p \<noteq> [] \<and> two_letters (pki_country_code p) \<and> valid_host_port (pki_repository_host p)"
  by (auto simp: load_pki_def Let_def require_table_def split: prod.splits option.splits dest!: get_str_ok)

lemma load_root_ok: "load_root tbl = (root, [], u) \<Longrightarrow> ca_fields_ok root"
proof -
  assume *: "load_root tbl = (root, [], u)"
  obtain t where t: "map_of tbl ''root'' = Some (TTable t)"
  proof -
    from * obtain node t where "map_of tbl ''root'' = Some node" "as_table node = Some t"
      by (auto simp: load_root_def require_table_def Let_def split: option.splits prod.splits)
    with that show thesis by (cases node) auto
  qed
  have "ca_key_backend empty_ca_fields = ''internal''" by (simp add: empty_ca_fields_def)
  with read_ca_ok [of t "''root''" empty_ca_fields root] show ?thesis
    using * by (auto simp: load_root_def require_table_def Let_def t split: prod.splits)
qed

lemma check_backends_ok:
  "check_backends p11 root cas = [] \<Longrightarrow>
   (\<forall>(purpose, ca) \<in> set cas. ca_key_backend ca = ''pkcs11'' \<longrightarrow> ca_key_backend root = ''pkcs11'') \<and>
   (ca_key_backend root = ''pkcs11'' \<longleftrightarrow> p11_module p11 \<noteq> [])"
  by (fastforce simp: check_backends_def any_pkcs11_def Let_def list_ex_iff)

lemma load_cas_ok:
  assumes "load_cas root_days tbl = (cas, [], u)"
  shows "omap_ok cas \<and> (\<forall>(purpose, ca) \<in> set cas. issuing_ok root_days purpose ca)"
  using assms load_cas_loop_ok [of root_days "[]" _ cas u]
  by (auto simp: load_cas_def omap_ok_def [of "[]"] split: option.splits)

lemma cfg_loadE:
  assumes "cfg_load file = Inr c"
  obtains tbl root cas u1 u2 u3 u4
  where "file = Parsed tbl" "load_pki tbl = (cfg_pki c, [], u1)" "load_pkcs11 tbl = (cfg_pkcs11 c, [], u2)"
    "load_root tbl = (root, [], u3)" "load_cas (ca_valid_days root) tbl = (cas, [], u4)"
    "check_names root cas = []" "check_backends (cfg_pkcs11 c) root cas = []"
    "resolve_labels (cfg_pkcs11 c) root cas = (cfg_root c, cfg_cas c, [])"
proof -
  obtain tbl where tbl: "file = Parsed tbl"
    using assms by (auto simp: cfg_load_def split: toml_file.splits)
  obtain p e1 u1 where 1: "load_pki tbl = (p, e1, u1)" by (metis prod.exhaust)
  obtain p11 e2 u2 where 2: "load_pkcs11 tbl = (p11, e2, u2)" by (metis prod.exhaust)
  obtain root e3 u3 where 3: "load_root tbl = (root, e3, u3)" by (metis prod.exhaust)
  obtain cas e4 u4 where 4: "load_cas (ca_valid_days root) tbl = (cas, e4, u4)" by (metis prod.exhaust)
  obtain root' cas' e7 where 7: "resolve_labels p11 root cas = (root', cas', e7)" by (metis prod.exhaust)
  have "e1 = [] \<and> e2 = [] \<and> e3 = [] \<and> e4 = [] \<and> check_names root cas = [] \<and>
      check_backends p11 root cas = [] \<and> e7 = [] \<and>
      cfg_pki c = p \<and> cfg_pkcs11 c = p11 \<and> cfg_root c = root' \<and> cfg_cas c = cas'"
    using assms unfolding cfg_load_def tbl toml_file.case Let_def 1 prod.case 2 3 4 7
    by (auto split: if_splits)
  with that [OF tbl, of u1 u2 root u3 cas u4] 1 2 3 4 7 show thesis by simp
qed

lemma labelled_issuing:
  assumes "list_all2 (\<lambda>(p, ca) (p', ca'). p = p' \<and> labelled ca ca') cas cas'" and "(p, ca') \<in> set cas'"
  obtains ca where "(p, ca) \<in> set cas" "label_ok ca'" "ca' = ca\<lparr>ca_token_label := ca_token_label ca'\<rparr>"
  using assms by (force simp: list_all2_conv_all_nth in_set_conv_nth labelled_def)

lemma load_config_ok: "cfg_load file = Inr c \<Longrightarrow> config_ok c"
proof -
  assume "cfg_load file = Inr c"
  then obtain tbl root cas u1 u2 u3 u4 where pki: "load_pki tbl = (cfg_pki c, [], u1)"
    and root: "load_root tbl = (root, [], u3)" and cas: "load_cas (ca_valid_days root) tbl = (cas, [], u4)"
    and names: "check_names root cas = []" and backends: "check_backends (cfg_pkcs11 c) root cas = []"
    and labels: "resolve_labels (cfg_pkcs11 c) root cas = (cfg_root c, cfg_cas c, [])"
    by (rule cfg_loadE)
  note root' = resolve_labels_ok(1,2) [OF labels] and cas' = resolve_labels_ok(3) [OF labels]
  note same = labelled_names [OF cas']
  have root_ok: "ca_fields_ok root" by (rule load_root_ok [OF root])
  have root_eqs: "ca_valid_days (cfg_root c) = ca_valid_days root"
      "ca_key_backend (cfg_root c) = ca_key_backend root" "ca_cn (cfg_root c) = ca_cn root"
      "ca_slug_prefix (cfg_root c) = ca_slug_prefix root" "ca_fields_ok (cfg_root c)"
    by (subst root'(2); simp add: root_ok)+
  have issuing: "issuing_ok (ca_valid_days root) p ca' \<and> label_ok ca' \<and>
      (ca_key_backend ca' = ''pkcs11'' \<longrightarrow> ca_key_backend root = ''pkcs11'')"
    if "(p, ca') \<in> set (cfg_cas c)" for p ca'
  proof -
    obtain ca where ca: "(p, ca) \<in> set cas" and "label_ok ca'"
      and eq: "ca' = ca\<lparr>ca_token_label := ca_token_label ca'\<rparr>"
      using labelled_issuing [OF cas' \<open>(p, ca') \<in> set (cfg_cas c)\<close>] .
    have "ca_key_backend ca' = ca_key_backend ca" "issuing_ok (ca_valid_days root) p ca'"
      by (subst eq; use load_cas_ok [OF cas] ca in fastforce)+
    with check_backends_ok [OF backends] ca \<open>label_ok ca'\<close> show ?thesis by fastforce
  qed
  have "names_ok root cas"
    using load_cas_ok [OF cas] by (intro check_names_ok [OF names root_ok]) (auto simp: issuing_ok_def)
  then have "names_ok (cfg_root c) (cfg_cas c)"
    using same root_eqs by (simp add: names_ok_def)
  moreover have "omap_ok (cfg_cas c)"
    using load_cas_ok [OF cas] same by (simp add: omap_ok_def)
  ultimately show "config_ok c"
    using issuing root'(1) root_eqs load_pki_ok [OF pki] check_backends_ok [OF backends]
    by (auto simp: config_ok_def)
qed

subsection \<open>Token labels against the file\<close>

text \<open>The label a section of the file declares, the label a CA ends up with, and the CAs that fall
  back to the default.\<close>

definition declared_label :: "toml_table \<Rightarrow> string" where
  "declared_label t = (case map_of t ''token_label'' of Some (TString s) \<Rightarrow> s | _ \<Rightarrow> [])"

definition label_resolved :: "toml_table \<Rightarrow> string \<Rightarrow> 'a ca_fields_scheme \<Rightarrow> bool" where
  "label_resolved t default_label ca \<longleftrightarrow>
     (if ca_key_backend ca = ''pkcs11''
      then ca_token_label ca = (if declared_label t = [] then default_label else declared_label t)
      else declared_label t = [])"

definition falls_back :: "toml_table \<Rightarrow> 'a ca_fields_scheme \<Rightarrow> bool" where
  "falls_back t ca \<longleftrightarrow> ca_key_backend ca = ''pkcs11'' \<and> declared_label t = []"

definition labels_ok :: "toml_table \<Rightarrow> config \<Rightarrow> bool" where
  "labels_ok tbl c \<longleftrightarrow>
     (\<exists>rt cat. map_of tbl ''root'' = Some (TTable rt) \<and> map_of tbl ''ca'' = Some (TTable cat) \<and>
        label_resolved rt (p11_token_label (cfg_pkcs11 c)) (cfg_root c) \<and>
        (\<forall>(p, ca) \<in> set (cfg_cas c). \<exists>t. map_of cat p = Some (TTable t) \<and>
           label_resolved t (p11_token_label (cfg_pkcs11 c)) ca) \<and>
        (p11_token_label (cfg_pkcs11 c) \<noteq> [] \<longrightarrow> falls_back rt (cfg_root c) \<or>
           (\<exists>(p, ca) \<in> set (cfg_cas c). \<exists>t. map_of cat p = Some (TTable t) \<and> falls_back t ca)))"

lemma as_table_Some [simp]: "as_table v = Some t \<longleftrightarrow> v = TTable t"
  by (cases v) auto

lemma as_string_Some [simp]: "as_string v = Some s \<longleftrightarrow> v = TString s"
  by (cases v) auto

lemma read_ca_label:
  assumes "read_ca t sec ca = (ca', [])" and "ca_token_label ca = []"
  shows "ca_token_label ca' = declared_label t"
proof -
  obtain ok label e where r: "(if contains t ''token_label'' then get_str t sec ''token_label'' (ca_token_label ca)
             else (False, ca_token_label ca, [])) = (ok, label, e)" by (metis prod.exhaust)
  with assms have "ca_token_label ca' = label" "e = []"
    unfolding read_ca_def Let_def r by (auto split: prod.splits)
  with r assms(2) show ?thesis
    by (auto simp: declared_label_def contains_def get_str_def get_as_def split: if_splits option.splits)
qed

lemma resolve_label_resolved:
  assumes "resolve_label p11 sec ca = (ca', u, [])" and "ca_token_label ca = declared_label t"
  shows "label_resolved t (p11_token_label p11) ca' \<and> (u \<longleftrightarrow> falls_back t ca')"
  using assms by (auto simp: resolve_label_def Let_def label_resolved_def falls_back_def split: if_splits)

lemma load_ee_label: "load_ee sec t ca = (ca', e) \<Longrightarrow> ca_token_label ca' = ca_token_label ca"
  by (auto simp: load_ee_def Let_def split: prod.splits)

lemma load_ca_label:
  assumes "load_ca root_days purpose t = (ca, [], u)"
  shows "ca_token_label ca = declared_label t"
proof -
  obtain ca1 e1 where r: "read_ca t (''ca.'' @ purpose) (empty_signing_ca purpose) = (ca1, e1)" by (rule prod.exhaust)
  with assms have "ca_token_label ca = ca_token_label ca1" "e1 = []"
    unfolding load_ca_def Let_def r by (auto split: prod.splits dest!: load_ee_label)
  with r read_ca_label [of t "''ca.'' @ purpose" "empty_signing_ca purpose" ca1] show ?thesis
    by (simp add: empty_signing_ca_def empty_ca_fields_def ca_fields.defs)
qed

lemma emplace_origin:
  "x \<in> set (omap_emplace k v m) \<Longrightarrow> x \<in> set m \<or> x = (k, v)"
  by (induction k v m rule: omap_emplace.induct) (auto split: if_splits)

lemma load_cas_loop_labels:
  "load_cas_loop root_days cas tbl = (cas', [], u) \<Longrightarrow> omap_ok cas \<Longrightarrow> (p, ca) \<in> set cas' \<Longrightarrow>
   (p, ca) \<in> set cas \<or> (p \<notin> fst ` set cas \<and> (\<exists>t. map_of tbl p = Some (TTable t) \<and> ca_token_label ca = declared_label t))"
proof (induction root_days cas tbl arbitrary: u rule: load_cas_loop.induct)
  case (1 root_days cas)
  then show ?case by simp
next
  case (2 root_days cas purpose node rest)
  then obtain t where t: "node = TTable t" by (auto split: option.splits prod.splits)
  obtain ca1 e u1 where ca1: "load_ca root_days purpose t = (ca1, e, u1)" by (metis prod.exhaust)
  with "2.prems"(1) have "e = []" by (auto simp: t split: prod.splits)
  with ca1 have lab: "ca_token_label ca1 = declared_label t" using load_ca_label by blast
  obtain u2 where rest: "load_cas_loop root_days (omap_emplace purpose ca1 cas) rest = (cas', [], u2)"
    using "2.prems"(1) by (auto simp: t ca1 split: prod.splits)
  have ok: "omap_ok (omap_emplace purpose ca1 cas)" by (rule omap_ok_emplace [OF "2.prems"(2)])
  have found: "map_of (omap_emplace purpose ca1 cas) p = Some ca" if "(p, ca) \<in> set (omap_emplace purpose ca1 cas)"
    using that ok by (simp add: omap_ok_distinct)
  have "(p, ca) \<in> set (omap_emplace purpose ca1 cas) \<or> p \<notin> fst ` set (omap_emplace purpose ca1 cas) \<and>
      (\<exists>t. map_of rest p = Some (TTable t) \<and> ca_token_label ca = declared_label t)"
    by (rule "2.IH"(2) [OF _ ca1 [symmetric] refl rest ok "2.prems"(3)]) (simp add: t)
  then show ?case
  proof (elim disjE conjE)
    assume in1: "(p, ca) \<in> set (omap_emplace purpose ca1 cas)"
    show ?thesis
    proof (cases "map_of cas p")
      case None
      then have new: "p \<notin> fst ` set cas" by (simp add: map_of_eq_None_iff)
      with emplace_origin [OF in1] have "p = purpose" "ca = ca1" by force+
      with new lab t show ?thesis by simp
    next
      case (Some x)
      with found [OF in1] \<open>omap_ok cas\<close> have "x = ca" by (auto simp: map_of_emplace split: if_splits)
      with Some show ?thesis by (auto dest: map_of_SomeD)
    qed
  next
    assume "p \<notin> fst ` set (omap_emplace purpose ca1 cas)"
      and "\<exists>t. map_of rest p = Some (TTable t) \<and> ca_token_label ca = declared_label t"
    then show ?thesis by (simp add: keys_emplace)
  qed
qed

lemma load_config_labels:
  assumes "cfg_load file = Inr c"
  shows "\<exists>tbl. file = Parsed tbl \<and> labels_ok tbl c"
proof -
  let ?label = "p11_token_label (cfg_pkcs11 c)"
  from assms obtain tbl root cas u3 u4 where tbl: "file = Parsed tbl" and root: "load_root tbl = (root, [], u3)"
    and cas: "load_cas (ca_valid_days root) tbl = (cas, [], u4)"
    and labels: "resolve_labels (cfg_pkcs11 c) root cas = (cfg_root c, cfg_cas c, [])"
    by (rule cfg_loadE)
  from root obtain rt where rt: "map_of tbl ''root'' = Some (TTable rt)" "read_ca rt ''root'' empty_ca_fields = (root, [])"
    by (auto simp: load_root_def require_table_def Let_def split: option.splits prod.splits)
  have root_label: "ca_token_label root = declared_label rt"
    by (rule read_ca_label [OF rt(2)]) (simp add: empty_ca_fields_def)
  from cas obtain cat where cat: "map_of tbl ''ca'' = Some (TTable cat)" "load_cas_loop (ca_valid_days root) [] cat = (cas, [], u4)"
    by (auto simp: load_cas_def get_as_def bind_eq_Some_conv split: option.splits)
  have declared: "\<exists>t. map_of cat p = Some (TTable t) \<and> ca_token_label ca = declared_label t" if "(p, ca) \<in> set cas" for p ca
    using load_cas_loop_labels [OF cat(2) _ that] by (simp add: omap_ok_def)
  note parts = resolve_labels_parts [OF labels]
  then obtain u0 where r0: "resolve_label (cfg_pkcs11 c) ''root'' root = (cfg_root c, u0, [])"
    and used: "?label \<noteq> [] \<Longrightarrow> u0 \<or> (\<exists>(p, ca) \<in> set cas. fst (snd (resolve_label (cfg_pkcs11 c) (''ca.'' @ p) ca)))"
    by blast
  note cas' = parts(2) and none = parts(3)
  have one: "\<exists>t. map_of cat p = Some (TTable t) \<and> label_resolved t ?label (fst (resolve_label (cfg_pkcs11 c) (''ca.'' @ p) ca)) \<and>
      (fst (snd (resolve_label (cfg_pkcs11 c) (''ca.'' @ p) ca)) \<longleftrightarrow> falls_back t (fst (resolve_label (cfg_pkcs11 c) (''ca.'' @ p) ca)))"
    if "(p, ca) \<in> set cas" for p ca
  proof -
    from declared [OF that] obtain t where t: "map_of cat p = Some (TTable t)" "ca_token_label ca = declared_label t" by blast
    have "resolve_label (cfg_pkcs11 c) (''ca.'' @ p) ca =
        (fst (resolve_label (cfg_pkcs11 c) (''ca.'' @ p) ca), fst (snd (resolve_label (cfg_pkcs11 c) (''ca.'' @ p) ca)), [])"
      using none [OF that] by (simp add: prod_eq_iff)
    from resolve_label_resolved [OF this t(2)] t(1) show ?thesis by blast
  qed
  note zero = resolve_label_resolved [OF r0 root_label]
  have "\<forall>(p, ca) \<in> set (cfg_cas c). \<exists>t. map_of cat p = Some (TTable t) \<and> label_resolved t ?label ca"
    unfolding cas' using one by fastforce
  moreover have "?label \<noteq> [] \<longrightarrow> falls_back rt (cfg_root c) \<or>
           (\<exists>(p, ca) \<in> set (cfg_cas c). \<exists>t. map_of cat p = Some (TTable t) \<and> falls_back t ca)"
    unfolding cas' using used one zero by fastforce
  ultimately show ?thesis using tbl rt(1) cat(1) zero unfolding labels_ok_def by blast
qed

definition all_prefixes :: "config \<Rightarrow> string list" where
  "all_prefixes c = ca_slug_prefix (cfg_root c) # prefixes_of (cfg_cas c)"

lemma two_letters_set:
  "two_letters s \<longleftrightarrow> length s = 2 \<and> set s \<subseteq> set (lower_letters @ upper_letters)"
  by (auto simp: two_letters_def char_sets length_Suc_conv numeral_2_eq_2 split: list.splits)

lemma valid_slug_set: "valid_slug s \<longleftrightarrow> set s \<subseteq> set (lower_letters @ decimal_digits @ ''.-'')"
  by (auto simp: valid_slug_def slug_char_def list_all_iff char_sets)

lemma digits_apart_set: "digits_apart a b \<longleftrightarrow> (\<exists>ds. b = a @ ds \<and> set ds \<subseteq> set decimal_digits)"
  by (auto simp: digits_apart_iff list_all_iff char_sets)

lemma valid_port_number:
  "valid_port port \<Longrightarrow> length port \<le> 5 \<and> (\<exists>z v. port = replicate z CHR ''0'' @ show_nat v \<and> 0 < v \<and> v < 2 ^ 16)"
proof -
  assume ok: "valid_port port"
  then have v: "list_all is_digit port" "0 < digits_val 0 port" "digits_val 0 port < 2 ^ 16" "length port \<le> 5"
    by (auto simp: valid_port_def split: if_splits)
  from digits_zeros [OF v(1,2)] v(2-4) show ?thesis by blast
qed

lemma valid_host_port_form:
  "valid_host_port s \<Longrightarrow> valid_hostname s \<or>
   (\<exists>host port. s = host @ '':'' @ port \<and> valid_hostname host \<and> valid_port port)"
  by (auto simp: valid_host_port_def split: option.splits if_splits dest!: cut_at_SomeD)

text \<open>C22. What holds of every configuration that \<^verbatim>\<open>cfg::load\<close> accepts: the
  pki fields are present, the country two letters, the repository a host name with at most a port from 1 to
  65535; the root and every issuing CA have a known curve and digest, a positive validity, a slug of lower-case
  letters, digits, dots and hyphens and a known backend; every issuing CA lists only known
  profiles, its leaf validity is below its own, below the root's chain and within the ceiling of each of
  its profiles; names, prefixes and profiles belong to one CA only and no prefix extends another by digits;
  an issuing CA may use a token only when the root does, and the module is given exactly when the root needs
  it. Each token-held CA has the label of its own section or else the default, of one to 32 bytes, no other
  CA declares one, and a default is only given when some token-held CA falls back to it.\<close>

theorem cfg_load_ok:
  "cfg_load file = Inr c \<Longrightarrow>
   config_ok c \<and>
   length (pki_country_code (cfg_pki c)) = 2 \<and>
   set (pki_country_code (cfg_pki c)) \<subseteq> set (lower_letters @ upper_letters) \<and>
   (valid_hostname (pki_repository_host (cfg_pki c)) \<or>
      (\<exists>host z v. pki_repository_host (cfg_pki c) = host @ '':'' @ replicate z CHR ''0'' @ show_nat v \<and>
         valid_hostname host \<and> 0 < v \<and> v < 2 ^ 16 \<and> z + length (show_nat v) \<le> 5)) \<and>
   (\<forall>s \<in> set (all_prefixes c @ map fst (cfg_cas c)). set s \<subseteq> set (lower_letters @ decimal_digits @ ''.-'')) \<and>
   (\<forall>a \<in> set (all_prefixes c). \<forall>b \<in> set (all_prefixes c). \<forall>ds.
      b = a @ ds \<longrightarrow> ds = [] \<or> \<not> set ds \<subseteq> set decimal_digits) \<and>
   (\<exists>tbl. file = Parsed tbl \<and> labels_ok tbl c)"
proof -
  assume load: "cfg_load file = Inr c"
  note ok = load_config_ok [OF load]
  from ok have pki: "two_letters (pki_country_code (cfg_pki c))" "valid_host_port (pki_repository_host (cfg_pki c))"
    by (simp_all add: config_ok_def)
  have slugs: "valid_slug s" if "s \<in> set (all_prefixes c @ map fst (cfg_cas c))" for s
    using ok that by (fastforce simp: config_ok_def all_prefixes_def names_of_defs issuing_ok_def ca_fields_ok_def)
  have apart: "\<not> digits_apart a b" if "a \<in> set (all_prefixes c)" "b \<in> set (all_prefixes c)" "a \<noteq> b" for a b
    using ok that by (auto simp: config_ok_def names_ok_def all_prefixes_def)
  show ?thesis
  proof (intro conjI ballI allI impI)
    show "length (pki_country_code (cfg_pki c)) = 2" "set (pki_country_code (cfg_pki c)) \<subseteq> set (lower_letters @ upper_letters)"
      using pki(1) by (simp_all only: two_letters_set)
    show "valid_hostname (pki_repository_host (cfg_pki c)) \<or>
      (\<exists>host z v. pki_repository_host (cfg_pki c) = host @ '':'' @ replicate z CHR ''0'' @ show_nat v \<and>
         valid_hostname host \<and> 0 < v \<and> v < 2 ^ 16 \<and> z + length (show_nat v) \<le> 5)"
      using valid_host_port_form [OF pki(2)] by (fastforce dest!: valid_port_number)
    show "set s \<subseteq> set (lower_letters @ decimal_digits @ ''.-'')" if "s \<in> set (all_prefixes c @ map fst (cfg_cas c))" for s
      using slugs [OF that] by (simp only: valid_slug_set)
    show "ds = [] \<or> \<not> set ds \<subseteq> set decimal_digits"
      if "a \<in> set (all_prefixes c)" "b \<in> set (all_prefixes c)" "b = a @ ds" for a b ds
      using apart [OF that(1,2)] that(3) by (auto simp: digits_apart_set)
  qed (rule ok, rule load_config_labels [OF load])
qed

section \<open>Facts the callers use\<close>

lemma digits_apart_show: "digits_apart a (a @ ds) \<longleftrightarrow> list_all is_digit ds"
  by (simp add: digits_apart_def)

lemma config_ok_prefix_apart:
  assumes "config_ok c" and "a \<in> set (all_prefixes c)" and "b \<in> set (all_prefixes c)"
    and "a @ show_nat m = b @ show_nat n"
  shows "a = b"
proof (rule ccontr)
  assume "a \<noteq> b"
  with assms(1-3) have apart: "\<not> digits_apart a b" "\<not> digits_apart b a"
    by (auto simp: config_ok_def names_ok_def all_prefixes_def)
  from assms(4) obtain us where "a = b @ us \<and> us @ show_nat m = show_nat n \<or>
      a @ us = b \<and> show_nat m = us @ show_nat n"
    by (auto simp: append_eq_append_conv2)
  then show False
  proof
    assume *: "a = b @ us \<and> us @ show_nat m = show_nat n"
    with show_nat_digits [of n] have "list_all is_digit us" by (metis list_all_append)
    with * digits_apart_show [of b us] apart show False by simp
  next
    assume *: "a @ us = b \<and> show_nat m = us @ show_nat n"
    with show_nat_digits [of m] have "list_all is_digit us" by (metis list_all_append)
    with * digits_apart_show [of a us] apart show False by metis
  qed
qed

lemma distinct_profiles_unique:
  "distinct (profiles_of cas) \<Longrightarrow> (p1, ca1) \<in> set cas \<Longrightarrow> prof \<in> set (ca_profiles ca1) \<Longrightarrow>
   map_option snd (find (\<lambda>(_, ca). list_ex (\<lambda>p. p = prof) (ca_profiles ca)) cas) = Some ca1"
proof (induction cas)
  case Nil
  then show ?case by simp
next
  case (Cons x cas)
  obtain p ca where x: "x = (p, ca)" by fastforce
  show ?case
  proof (cases "(p1, ca1) = x")
    case True
    with Cons.prems(3) show ?thesis by (auto simp: x list_ex_iff)
  next
    case False
    with Cons.prems have "(p1, ca1) \<in> set cas" by auto
    moreover from this Cons.prems have "prof \<in> set (profiles_of cas)"
      by (force simp: profiles_of_def)
    with Cons.prems(1) have "prof \<notin> set (ca_profiles ca)"
      by (auto simp: profiles_of_def x)
    ultimately show ?thesis
      using Cons by (auto simp: x list_ex_iff profiles_of_def)
  qed
qed

text \<open>In an accepted configuration a profile has one issuing CA: looking the issuer up by
  profile returns the very CA that lists it, whichever position it has in the map, and that CA is found
  under its own purpose.\<close>

theorem ca_for_profile_unique:
  "cfg_load file = Inr c \<Longrightarrow> (purpose, ca) \<in> set (cfg_cas c) \<Longrightarrow> profile \<in> set (ca_profiles ca) \<Longrightarrow>
   ca_for_profile c profile = Some ca \<and> config_ca c (ca_purpose ca) = Some ca"
proof -
  assume load: "cfg_load file = Inr c" and ca: "(purpose, ca) \<in> set (cfg_cas c)"
    and profile: "profile \<in> set (ca_profiles ca)"
  have ok: "distinct (profiles_of (cfg_cas c))" "omap_ok (cfg_cas c)" "ca_purpose ca = purpose"
    using load_config_ok [OF load] ca by (auto simp: config_ok_def names_ok_def issuing_ok_def)
  from distinct_profiles_unique [OF ok(1) ca profile] show ?thesis
    using ca ok by (simp add: ca_for_profile_def config_ca_def omap_ok_distinct)
qed

section \<open>Samples\<close>

definition sample_root :: toml where
  "sample_root = TTable [(''cn'', TString ''Root E1''), (''curve'', TString ''secp384r1''),
     (''digest'', TString ''SHA-384''), (''slug_prefix'', TString ''root-e''), (''valid_days'', TInt 7300)]"

definition sample_tls :: "int \<Rightarrow> toml" where
  "sample_tls days = TTable [(''cn'', TString ''CA E1''), (''curve'', TString ''secp384r1''),
     (''digest'', TString ''SHA-384''), (''ee_curve'', TString ''secp256r1''),
     (''ee_digest'', TString ''SHA-256''), (''ee_valid_days'', TInt days),
     (''policies'', TTable [(''server'', TArray [TString ''1.3.6.1.4.1.1.1''])]),
     (''profiles'', TArray [TString ''server'', TString ''client'']),
     (''slug_prefix'', TString ''ca-e''), (''valid_days'', TInt 1825)]"

definition sample_pki :: toml where
  "sample_pki = TTable [(''country_code'', TString ''RO''), (''org_name'', TString ''Org''),
     (''repository_host'', TString ''pki.example.ca'')]"

definition sample_file :: "toml_table \<Rightarrow> toml_file" where
  "sample_file cas = Parsed [(''ca'', TTable cas), (''pki'', sample_pki), (''root'', sample_root)]"

definition loaded :: "toml_file \<Rightarrow> config" where
  "loaded f = (case cfg_load f of Inr c \<Rightarrow> c
     | Inl _ \<Rightarrow> \<lparr>cfg_pki = \<lparr>pki_org_name = [], pki_country_code = [], pki_repository_host = []\<rparr>,
         cfg_pkcs11 = \<lparr>p11_module = [], p11_token_label = []\<rparr>, cfg_root = empty_ca_fields,
         cfg_cas = [], cfg_unknown = []\<rparr>)"

lemma loadedI: "case cfg_load f of Inr c \<Rightarrow> True | Inl _ \<Rightarrow> False \<Longrightarrow> cfg_load f = Inr (loaded f)"
  by (auto simp: loaded_def split: sum.splits)

lemma sample_loads: "cfg_load (sample_file [(''tls'', sample_tls 90)]) = Inr (loaded (sample_file [(''tls'', sample_tls 90)]))"
  by (rule loadedI) code_simp

text \<open>A file with keys on tokens: the root falls back to the default label, the issuing CA has its
  own.\<close>

definition sample_token_table :: toml_table where
  "sample_token_table =
     [(''ca'', TTable [(''tls'', TTable ([(''key_backend'', TString ''pkcs11''), (''token_label'', TString ''issuing'')] @
         (case sample_tls 90 of TTable t \<Rightarrow> t | _ \<Rightarrow> [])))]),
      (''pkcs11'', TTable [(''module'', TString ''/usr/lib/p11.so''), (''token_label'', TString ''shared'')]),
      (''pki'', sample_pki),
      (''root'', TTable ((''key_backend'', TString ''pkcs11'') # (case sample_root of TTable t \<Rightarrow> t | _ \<Rightarrow> [])))]"

lemma sample_token_loads: "cfg_load (Parsed sample_token_table) = Inr (loaded (Parsed sample_token_table))"
  by (rule loadedI) code_simp

lemma sample_token_config:
  "ca_key_backend (cfg_root (loaded (Parsed sample_token_table))) = ''pkcs11'' \<and>
   p11_token_label (cfg_pkcs11 (loaded (Parsed sample_token_table))) = ''shared''"
  "(case map_of sample_token_table ''root'' of Some (TTable t) \<Rightarrow> declared_label t = [] | _ \<Rightarrow> False)"
  by code_simp+

theorem cfg_load_ok_witness:
  "config_ok (loaded (Parsed sample_token_table)) \<and>
   ca_token_label (cfg_root (loaded (Parsed sample_token_table))) = ''shared''"
proof -
  note ok = cfg_load_ok [OF sample_token_loads]
  from ok have "labels_ok sample_token_table (loaded (Parsed sample_token_table))" by blast
  then obtain rt where "map_of sample_token_table ''root'' = Some (TTable rt)"
      and "label_resolved rt ''shared'' (cfg_root (loaded (Parsed sample_token_table)))"
    using sample_token_config(1) unfolding labels_ok_def by auto
  then have "ca_token_label (cfg_root (loaded (Parsed sample_token_table))) = ''shared''"
    using sample_token_config by (simp add: label_resolved_def)
  with ok show ?thesis by blast
qed

lemma sample_cas:
  "map (\<lambda>(p, ca). (p, ca_cn ca, ca_profiles ca)) (cfg_cas (loaded (sample_file [(''tls'', sample_tls 90)]))) =
   [(''tls'', ''CA E1'', [''server'', ''client''])]"
  by code_simp

theorem ca_for_profile_unique_witness:
  "\<exists>ca. ca_for_profile (loaded (sample_file [(''tls'', sample_tls 90)])) ''client'' = Some ca \<and>
     ca_cn ca = ''CA E1''"
proof -
  obtain ca where "cfg_cas (loaded (sample_file [(''tls'', sample_tls 90)])) = [(''tls'', ca)]"
      "ca_cn ca = ''CA E1''" "ca_profiles ca = [''server'', ''client'']"
    using sample_cas by auto
  with ca_for_profile_unique [OF sample_loads, of "''tls''" ca "''client''"] show ?thesis by simp
qed

section \<open>Numbers and empty tables\<close>

text \<open>An integer of the file is cast to 32 bits before it is looked at: the value read is the
  one written modulo 2^32, and equal to it exactly when it fits an \<^verbatim>\<open>int\<close>. A validity of
  2^32 + 90 days is therefore read as 90 and accepted.\<close>

theorem get_int_wraps:
  "map_of t key = Some (TInt i) \<Longrightarrow>
   \<exists>v. get_int t sec key out = (True, v, []) \<and> v mod 2 ^ 32 = i mod 2 ^ 32 \<and>
     (v = i \<longleftrightarrow> - (2 ^ 31) \<le> i \<and> i < 2 ^ 31)"
proof -
  assume t: "map_of t key = Some (TInt i)"
  have "get_int t sec key out = (True, cast_int i, [])" by (simp add: get_int_def get_as_def t)
  moreover have "cast_int i mod 2 ^ 32 = i mod 2 ^ 32"
    by (simp add: cast_int_def int_word_sint mod_simps)
  moreover have "cast_int i = i \<longleftrightarrow> - (2 ^ 31) \<le> i \<and> i < 2 ^ 31"
    using cast_int_range [of i] cast_int_id [of i] by auto
  ultimately show ?thesis by blast
qed

theorem get_int_wraps_witness:
  "get_int [(''ee_valid_days'', TInt (2 ^ 32 + 90))] ''ca.tls'' ''ee_valid_days'' 0 = (True, 90, []) \<and>
   cfg_load (sample_file [(''tls'', sample_tls (2 ^ 32 + 90))]) = cfg_load (sample_file [(''tls'', sample_tls 90)])"
proof -
  obtain v where v: "get_int [(''ee_valid_days'', TInt (2 ^ 32 + 90))] ''ca.tls'' ''ee_valid_days'' 0 = (True, v, [])"
    using get_int_wraps [of "[(''ee_valid_days'', TInt (2 ^ 32 + 90))]" "''ee_valid_days''" "2 ^ 32 + 90" "''ca.tls''" 0]
    by auto
  then have "v = 90" by (simp add: get_int_def get_as_def cast_int_def)
  moreover have "cfg_load (sample_file [(''tls'', sample_tls (2 ^ 32 + 90))]) = cfg_load (sample_file [(''tls'', sample_tls 90)])"
    by code_simp
  ultimately show ?thesis using v by simp
qed

text \<open>A present but empty [ca] table is accepted: the configuration then has no issuing CA at
  all, while leaving the table out is refused for that very reason.\<close>

theorem empty_ca_table_accepted:
  "\<exists>c. cfg_load (sample_file []) = Inr c \<and> cfg_cas c = [] \<and>
     cfg_load (Parsed [(''pki'', sample_pki), (''root'', sample_root)]) = Inl [File_err No_issuing_ca]"
proof -
  have "cfg_load (sample_file []) = Inr (loaded (sample_file []))" by (rule loadedI) code_simp
  moreover have "cfg_cas (loaded (sample_file [])) = []" by code_simp
  moreover have "cfg_load (Parsed [(''pki'', sample_pki), (''root'', sample_root)]) =
      Inl [File_err No_issuing_ca]" by code_simp
  ultimately show ?thesis by blast
qed

end
