(* ===== verification/Store.thy ===== *)
theory Store
  imports App
begin

text \<open>
  The SQLite wrapper of \<^verbatim>\<open>src/store.cpp\<close>: what binding a value stores and what the
  typed readers return of it, the stepping of a statement, and the SQL text the schema and upsert
  functions build. SQLite itself is the sequence of result codes a statement steps through and the
  value each column holds.
\<close>

section \<open>Column values\<close>

datatype sql_value =
    VNull
  | VInt int
  | VText string
  | VBlob "8 word list"

datatype store_error =
    Prepare_failed
  | Not_text
  | Not_integer
  | Step_failed
  | Open_failed
  | Exec_failed
  | Row_count_failed

text \<open>\<^verbatim>\<open>Statement::bind\<close>: a text is bound with its length, a size is reinterpreted
  as a signed 64-bit integer.\<close>

definition bind_text :: "string \<Rightarrow> sql_value" where
  "bind_text s = VText s"

definition bind_size :: "u64 \<Rightarrow> sql_value" where
  "bind_size n = VInt (sint n)"

text \<open>\<^verbatim>\<open>get_str\<close> builds the string from the C string of the column, so it ends at the
  first NUL byte.\<close>

definition c_str :: "string \<Rightarrow> string" where
  "c_str s = takeWhile (\<lambda>c. c \<noteq> CHR 0x00) s"

definition column_str :: "sql_value \<Rightarrow> store_error + string" where
  "column_str v = (case v of VText s \<Rightarrow> Inr (c_str s) | _ \<Rightarrow> Inl Not_text)"

definition column_size :: "sql_value \<Rightarrow> store_error + u64" where
  "column_size v = (case v of VInt i \<Rightarrow> Inr (word_of_int i) | _ \<Rightarrow> Inl Not_integer)"

text \<open>What \<^verbatim>\<open>sqlite3_column_text\<close> and \<^verbatim>\<open>sqlite3_column_blob\<close> make of a
  value that is not NULL: an integer is written out, a text and a blob are their bytes.\<close>

definition char_byte8 :: "char \<Rightarrow> 8 word" where
  "char_byte8 c = of_nat (of_char c)"

fun value_text :: "sql_value \<Rightarrow> string" where
  "value_text VNull = []"
| "value_text (VInt i) = show_int i"
| "value_text (VText s) = s"
| "value_text (VBlob bs) = map (\<lambda>b. char_of (unat b)) bs"

text \<open>\<^verbatim>\<open>get_blob\<close>, of both statement classes.\<close>

definition column_blob :: "sql_value \<Rightarrow> 8 word list" where
  "column_blob v = (case v of VNull \<Rightarrow> [] | VBlob bs \<Rightarrow> bs | _ \<Rightarrow> map char_byte8 (value_text v))"

text \<open>The reader Botan uses takes the byte count from SQLite, so it keeps every byte, and has no
  value for NULL. A binding with a null data pointer stores NULL, a time its whole seconds, counted from the
  clock's nanoseconds towards zero.\<close>

definition botan_bind_text :: "string option \<Rightarrow> sql_value" where
  "botan_bind_text s = (case s of None \<Rightarrow> VNull | Some v \<Rightarrow> VText v)"

definition botan_column_str :: "sql_value \<Rightarrow> string option" where
  "botan_column_str v = (case v of VNull \<Rightarrow> None | _ \<Rightarrow> Some (value_text v))"

definition botan_bind_blob :: "8 word list option \<Rightarrow> sql_value" where
  "botan_bind_blob data = (case data of None \<Rightarrow> VNull | Some bs \<Rightarrow> VBlob bs)"

definition botan_bind_time :: "int \<Rightarrow> sql_value" where
  "botan_bind_time ns =
     bind_size (word_of_int (if ns < 0 then - (- ns div 1000000000) else ns div 1000000000))"

definition nul_free :: "string \<Rightarrow> bool" where
  "nul_free s \<longleftrightarrow> CHR 0x00 \<notin> set s"

lemma c_str_nul_free [simp]: "nul_free s \<Longrightarrow> c_str s = s"
  by (auto simp: c_str_def nul_free_def takeWhile_eq_all_conv)

lemma nul_free_c_str [simp]: "nul_free (c_str s)"
  by (auto simp: c_str_def nul_free_def dest: set_takeWhileD)

lemma c_str_id_iff: "c_str s = s \<longleftrightarrow> nul_free s"
  by (metis c_str_nul_free nul_free_c_str)

lemma nul_free_append [simp]: "nul_free (s @ t) \<longleftrightarrow> nul_free s \<and> nul_free t"
  by (auto simp: nul_free_def)

lemma nul_free_Cons [simp]: "nul_free (c # s) \<longleftrightarrow> c \<noteq> CHR 0x00 \<and> nul_free s"
  by (auto simp: nul_free_def)

lemma nul_free_Nil [simp]: "nul_free []"
  by (simp add: nul_free_def)

text \<open>A value read back from the column it was bound to is the value bound: sizes always, although
  they pass through a signed column, and texts exactly when they hold no NUL byte. The reader that backs
  Botan's own tables returns every text unchanged, and every blob.\<close>

theorem column_roundtrip:
  "column_size (bind_size n) = Inr n \<and>
   (column_str (bind_text s) = Inr s \<longleftrightarrow> nul_free s) \<and>
   botan_column_str (botan_bind_text (Some s)) = Some s \<and> column_blob (botan_bind_blob (Some bs)) = bs"
  by (simp add: column_blob_def botan_bind_blob_def column_size_def bind_size_def column_str_def bind_text_def botan_column_str_def
      botan_bind_text_def c_str_id_iff)

section \<open>Stepping a statement\<close>

text \<open>A statement is the list of result codes it will step through; \<^verbatim>\<open>spin\<close> steps until
  there is no row left. A statement that has returned SQLITE_DONE returns it again.\<close>

datatype step_code = Row | Done | Failed

fun step :: "step_code list \<Rightarrow> store_error + bool" where
  "step (Row # _) = Inr True"
| "step (Failed # _) = Inl Step_failed"
| "step _ = Inr False"

fun spin_loop :: "nat \<Rightarrow> step_code list \<Rightarrow> store_error + nat" where
  "spin_loop steps codes =
     (case step codes of
        Inl e \<Rightarrow> Inl e
      | Inr False \<Rightarrow> Inr steps
      | Inr True \<Rightarrow> (case codes of [] \<Rightarrow> Inr steps | _ # rest \<Rightarrow> spin_loop (Suc steps) rest))"

declare spin_loop.simps [simp del]

definition spin :: "step_code list \<Rightarrow> store_error + nat" where
  "spin codes = spin_loop 0 codes"

lemma spin_loop_rows:
  "spin_loop k codes =
     (let rows = takeWhile (\<lambda>c. c = Row) codes
      in if length rows < length codes \<and> codes ! length rows = Failed then Inl Step_failed
         else Inr (k + length rows))"
proof (induction codes arbitrary: k)
  case Nil
  then show ?case by (simp add: spin_loop.simps)
next
  case (Cons c codes)
  then show ?case by (cases c) (simp_all add: spin_loop.simps [of _ "_ # _"] Let_def)
qed

section \<open>SQL text\<close>

datatype column_type = Blob_col | String_col | Integer_col

record column =
  col_name :: string
  col_type :: column_type
  col_primary :: bool
  col_unique :: bool
  col_not_null :: bool

record table_schema =
  tab_name :: string
  tab_if_not_exists :: bool
  tab_columns :: "column list"

definition column_sql :: "column \<Rightarrow> string" where
  "column_sql col =
     col_name col @ '' '' @
     (case col_type col of Blob_col \<Rightarrow> ''BLOB'' | String_col \<Rightarrow> ''TEXT'' | Integer_col \<Rightarrow> ''INTEGER'') @
     (if col_primary col then '' PRIMARY KEY'' else []) @
     (if col_unique col then '' UNIQUE'' else []) @
     (if col_not_null col then '' NOT NULL'' else [])"

definition create_table_sql :: "table_schema \<Rightarrow> string" where
  "create_table_sql schema =
     fst (foldl (\<lambda>(sql, first) col.
           ((if first then sql else sql @ '', '') @ column_sql col, False))
         (''CREATE TABLE '' @ (if tab_if_not_exists schema then ''IF NOT EXISTS '' else []) @
          tab_name schema @ '' ('', True) (tab_columns schema)) @ '')''"

definition upsert_sql :: "string \<Rightarrow> string list \<Rightarrow> string" where
  "upsert_sql table columns =
     (let sql = fst (foldl (\<lambda>(sql, first) col.
                  ((if first then sql else sql @ '', '') @ col, False))
                (''INSERT OR REPLACE INTO '' @ table @ '' ('', True) columns) @ '') VALUES (''
      in foldl (\<lambda>sql i. (if i > 1 then sql @ '', '' else sql) @ ''?'' @ show_nat i) sql
           [1..<length columns + 1] @ '')'')"

lemma separated_loop:
  "fst (foldl (\<lambda>(sql, first) x. ((if first then sql else sql @ sep) @ f x, False)) (sql, True) xs) =
   sql @ join_with sep (map f xs)"
proof -
  have rest: "fst (foldl (\<lambda>(sql, first) x. ((if first then sql else sql @ sep) @ f x, False)) (sql, False) xs) =
      sql @ (if xs = [] then [] else sep @ join_with sep (map f xs))" for sql xs
    by (induction xs arbitrary: sql) (simp_all add: join_with_Cons)
  show ?thesis by (cases xs) (simp_all add: rest join_with_Cons)
qed

lemma placeholder_loop:
  "foldl (\<lambda>sql i. (if i > 1 then sql @ '', '' else sql) @ ''?'' @ show_nat i) sql [1..<n + 1] =
   sql @ join_with '', '' (map (\<lambda>i. ''?'' @ show_nat i) [1..<n + 1])"
proof (induction n)
  case 0
  then show ?case by simp
next
  case (Suc n)
  have snoc: "join_with sep (xs @ [x]) = (if xs = [] then x else join_with sep xs @ sep @ x)"
    for sep x and xs :: "string list"
    by (induction xs) (simp_all add: join_with_Cons)
  show ?case using Suc by (simp add: snoc)
qed

text \<open>The statement \<^verbatim>\<open>upsert\<close> prepares names every column once, in order, and has one
  numbered placeholder per column, numbered from 1, so value i is bound to column i; the schema text
  lists the columns in order with their types and constraints.\<close>

theorem upsert_sql_text:
  "upsert_sql table columns =
     ''INSERT OR REPLACE INTO '' @ table @ '' ('' @ join_with '', '' columns @ '') VALUES ('' @
     join_with '', '' (map (\<lambda>i. ''?'' @ show_nat i) [1..<length columns + 1]) @ '')'' \<and>
   create_table_sql schema =
     ''CREATE TABLE '' @ (if tab_if_not_exists schema then ''IF NOT EXISTS '' else []) @
     tab_name schema @ '' ('' @ join_with '', '' (map column_sql (tab_columns schema)) @ '')''"
  using separated_loop [of "'', ''" "\<lambda>x. x"]
  by (simp only: upsert_sql_def create_table_sql_def Let_def separated_loop placeholder_loop list.map_ident
      append_assoc)

section \<open>Opening and counting\<close>

text \<open>\<^verbatim>\<open>row_count\<close>: the query yields one row with an integer, else an error.\<close>

definition row_count :: "sql_value option \<Rightarrow> store_error + u64" where
  "row_count first_row =
     (case first_row of None \<Rightarrow> Inl Row_count_failed | Some v \<Rightarrow> column_size v)"

end
