(* ===== verification/Snapshot.thy ===== *)
theory Snapshot
  imports Config Store "HOL-Library.Multiset"
begin

text \<open>
  The configuration locked into the store: \<^verbatim>\<open>locked_global\<close>,
  \<^verbatim>\<open>lock_purpose\<close>, \<^verbatim>\<open>load_config\<close> and \<^verbatim>\<open>reconcile\<close> of
  \<^verbatim>\<open>src/ca.cpp\<close>. The two tables are lists of rows in the order SQLite returns them; a
  missing table is \<^term>\<open>None\<close>.
\<close>

section \<open>Lists in one column\<close>

definition join_profiles :: "string list \<Rightarrow> string" where
  "join_profiles profiles =
     foldl (\<lambda>out p. (if out \<noteq> [] then out @ '','' else out) @ p) [] profiles"

function split_profiles :: "string \<Rightarrow> string list" where
  "split_profiles s =
     (if s = [] then []
      else case cut_at CHR '','' s of
          None \<Rightarrow> [s]
        | Some (p, rest) \<Rightarrow> p # split_profiles rest)"
  by pat_completeness auto
termination by (relation "measure length") (auto dest: cut_at_length)

definition join_policies :: "(string \<times> string list) list \<Rightarrow> string" where
  "join_policies policies =
     foldl (\<lambda>out (prof, oids). (if out \<noteq> [] then out @ '';'' else out) @
        prof @ ''='' @ join_profiles oids) [] policies"

definition split_policy :: "string \<Rightarrow> string \<times> string list" where
  "split_policy entry =
     (case cut_at CHR ''='' entry of
        None \<Rightarrow> (entry, if entry = [] then [] else split_profiles entry)
      | Some (prof, oids) \<Rightarrow> (prof, if oids = [] then [] else split_profiles oids))"

function split_policies_loop ::
  "(string \<times> string list) list \<Rightarrow> string \<Rightarrow> (string \<times> string list) list" where
  "split_policies_loop out s =
     (if s = [] then out
      else case cut_at CHR '';'' s of
          None \<Rightarrow> (case split_policy s of (k, v) \<Rightarrow> omap_assign k v out)
        | Some (entry, rest) \<Rightarrow>
            (case split_policy entry of (k, v) \<Rightarrow> split_policies_loop (omap_assign k v out) rest))"
  by pat_completeness auto
termination by (relation "measure (\<lambda>(out, s). length s)") (auto dest: cut_at_length)

declare split_profiles.simps [simp del] split_policies_loop.simps [simp del]

definition split_policies :: "string \<Rightarrow> (string \<times> string list) list" where
  "split_policies s = split_policies_loop [] s"

text \<open>Joining is separation by a comma as long as no leading field is empty; splitting undoes it.\<close>

definition fields_ok :: "char \<Rightarrow> string list \<Rightarrow> bool" where
  "fields_ok c xs \<longleftrightarrow> (\<forall>x \<in> set xs. x \<noteq> [] \<and> c \<notin> set x)"

lemma fields_ok_Cons [simp]: "fields_ok c (x # xs) \<longleftrightarrow> x \<noteq> [] \<and> c \<notin> set x \<and> fields_ok c xs"
  by (auto simp: fields_ok_def)

lemma sep_fold:
  "\<forall>x \<in> set xs. f x \<noteq> [] \<Longrightarrow>
   foldl (\<lambda>out x. (if out \<noteq> [] then out @ sep else out) @ f x) out xs =
   (if out \<noteq> [] \<and> xs \<noteq> [] then out @ sep else out) @ join_with sep (map f xs)"
  by (induction xs arbitrary: out) (auto simp: join_with_Cons)

lemma join_profiles_eq: "fields_ok c ps \<Longrightarrow> join_profiles ps = join_with '','' ps"
  using sep_fold [of ps "\<lambda>x. x" "'',''" "[]"] by (simp add: join_profiles_def fields_ok_def)

lemma split_profiles_join:
  "fields_ok CHR '','' ps \<Longrightarrow> split_profiles (join_with '','' ps) = ps"
proof (induction ps)
  case Nil
  then show ?case by (simp add: split_profiles.simps)
next
  case (Cons p ps)
  show ?case
  proof (cases "ps = []")
    case True
    with Cons.prems show ?thesis by (simp add: split_profiles.simps)
  next
    case False
    with Cons show ?thesis
      by (subst split_profiles.simps) (simp add: join_with_Cons)
  qed
qed

lemma split_join_profiles [simp]:
  "fields_ok CHR '','' ps \<Longrightarrow> split_profiles (join_profiles ps) = ps"
  by (simp add: join_profiles_eq split_profiles_join)

definition policy_text :: "string \<times> string list \<Rightarrow> string" where
  "policy_text pol = fst pol @ ''='' @ join_profiles (snd pol)"

definition policy_fields_ok :: "(string \<times> string list) list \<Rightarrow> bool" where
  "policy_fields_ok pols \<longleftrightarrow> (\<forall>(prof, oids) \<in> set pols. CHR ''='' \<notin> set prof \<and> CHR '';'' \<notin> set prof \<and>
     fields_ok CHR '','' oids \<and> (\<forall>oid \<in> set oids. CHR '';'' \<notin> set oid))"

lemma join_with_chars: "set (join_with sep xs) \<subseteq> set sep \<union> \<Union> (set ` set xs)"
  by (induction sep xs rule: join_with.induct) auto

lemma join_profiles_chars: "fields_ok CHR '','' ps \<Longrightarrow> set (join_profiles ps) \<subseteq> {CHR '',''} \<union> \<Union> (set ` set ps)"
  using join_with_chars [of "'',''" ps] by (simp add: join_profiles_eq)

lemma join_profiles_Nil_iff: "fields_ok c ps \<Longrightarrow> join_profiles ps = [] \<longleftrightarrow> ps = []"
  by (cases ps) (auto simp: join_profiles_eq join_with_Cons split: if_splits)

lemma split_policy_text:
  "policy_fields_ok [pol] \<Longrightarrow> split_policy (policy_text pol) = pol"
  by (cases pol) (auto simp: policy_fields_ok_def policy_text_def split_policy_def join_profiles_Nil_iff)

lemma policy_text_no_sep: "policy_fields_ok [pol] \<Longrightarrow> CHR '';'' \<notin> set (policy_text pol)"
  using join_profiles_chars [of "snd pol"]
  by (cases pol) (fastforce simp: policy_fields_ok_def policy_text_def)

lemma split_policies_join_loop:
  "policy_fields_ok pols \<Longrightarrow>
   split_policies_loop out (join_with '';'' (map policy_text pols)) =
   foldl (\<lambda>m (k, v). omap_assign k v m) out pols"
proof (induction pols arbitrary: out)
  case Nil
  then show ?case by (simp add: split_policies_loop.simps)
next
  case (Cons pol pols)
  have ok: "policy_fields_ok [pol]" "policy_fields_ok pols"
    using Cons.prems by (auto simp: policy_fields_ok_def)
  obtain k v where pol: "pol = (k, v)" by fastforce
  have ne: "policy_text pol \<noteq> []" by (simp add: policy_text_def)
  note step = split_policy_text [OF ok(1), unfolded pol] policy_text_no_sep [OF ok(1), unfolded pol]
  show ?case
    using Cons.IH [OF ok(2)] step ne
    by (cases "pols = []"; subst split_policies_loop.simps) (simp_all add: join_with_Cons pol)
qed

lemma split_join_policies [simp]:
  "policy_fields_ok pols \<Longrightarrow> omap_ok pols \<Longrightarrow> split_policies (join_policies pols) = pols"
proof -
  assume ok: "policy_fields_ok pols" "omap_ok pols"
  have "join_policies pols = join_with '';'' (map policy_text pols)"
    using sep_fold [of pols policy_text "'';''" "[]"]
    by (simp add: join_policies_def policy_text_def split_beta')
  then show ?thesis
    using split_policies_join_loop [OF ok(1), of "[]"] omap.assign_entries [OF ok(2)]
    by (simp add: split_policies_def)
qed

section \<open>The tables\<close>

type_synonym row = "sql_value list"

record snapshot =
  snap_config :: "(sql_value \<times> sql_value) list option"
  snap_purposes :: "row list option"

datatype snapshot_error = Column_error store_error | Stoi_failed

fun rbind :: "'e + 'a \<Rightarrow> ('a \<Rightarrow> 'e + 'b) \<Rightarrow> 'e + 'b" where
  "rbind (Inl e) f = Inl e"
| "rbind (Inr x) f = f x"

lemma rbind_Inr: "rbind r f = Inr y \<longleftrightarrow> (\<exists>x. r = Inr x \<and> f x = Inr y)"
  by (cases r) auto

fun map_res :: "('a \<Rightarrow> 'e + 'b) \<Rightarrow> 'a list \<Rightarrow> 'e + 'b list" where
  "map_res f [] = Inr []"
| "map_res f (x # xs) = rbind (f x) (\<lambda>y. rbind (map_res f xs) (\<lambda>ys. Inr (y # ys)))"

lemma map_res_Inr: "(\<And>x. x \<in> set xs \<Longrightarrow> f x = Inr (g x)) \<Longrightarrow> map_res f xs = Inr (map g xs)"
  by (induction xs) auto

definition locked_global :: "config \<Rightarrow> (string \<times> string) list" where
  "locked_global c =
     [(''pki.org_name'', pki_org_name (cfg_pki c)),
      (''pki.country_code'', pki_country_code (cfg_pki c)),
      (''pki.repository_host'', pki_repository_host (cfg_pki c)),
      (''pkcs11.module'', p11_module (cfg_pkcs11 c)),
      (''pkcs11.token_label'', p11_token_label (cfg_pkcs11 c)),
      (''root.cn'', ca_cn (cfg_root c)),
      (''root.curve'', ca_curve (cfg_root c)),
      (''root.digest'', ca_digest (cfg_root c)),
      (''root.valid_days'', show_int (ca_valid_days (cfg_root c))),
      (''root.slug_prefix'', ca_slug_prefix (cfg_root c)),
      (''root.slug'', ca_slug (cfg_root c)),
      (''root.key_backend'', ca_key_backend (cfg_root c)),
      (''root.token_label'', ca_token_label (cfg_root c))]"

definition locked_purpose :: "signing_ca \<Rightarrow> (string \<times> string) list" where
  "locked_purpose ca =
     [(''profiles'', join_profiles (ca_profiles ca)),
      (''cn'', ca_cn ca),
      (''curve'', ca_curve ca),
      (''digest'', ca_digest ca),
      (''valid_days'', show_int (ca_valid_days ca)),
      (''slug_prefix'', ca_slug_prefix ca),
      (''slug'', ca_slug ca),
      (''key_backend'', ca_key_backend ca),
      (''token_label'', ca_token_label ca),
      (''ee_curve'', ca_ee_curve ca),
      (''ee_digest'', ca_ee_digest ca),
      (''ee_valid_days'', show_int (ca_ee_valid_days ca)),
      (''simple_dn'', if ca_simple_dn ca then ''1'' else ''0''),
      (''permitted_dns'', join_profiles (ca_permitted_dns ca)),
      (''permitted_email'', join_profiles (ca_permitted_email ca)),
      (''policies'', join_policies (ca_policies_map ca))]"

text \<open>\<^verbatim>\<open>static_cast<std::size_t>(int)\<close> and back.\<close>

definition bind_int :: "int \<Rightarrow> sql_value" where
  "bind_int d = bind_size (word_of_int d)"

definition column_int :: "sql_value \<Rightarrow> store_error + int" where
  "column_int v = rbind (column_size v) (\<lambda>n. Inr (cast_int (uint n)))"

definition purpose_row :: "signing_ca \<Rightarrow> row" where
  "purpose_row ca =
     [bind_text (ca_purpose ca), bind_text (join_profiles (ca_profiles ca)), bind_text (ca_cn ca),
      bind_text (ca_curve ca), bind_text (ca_digest ca), bind_int (ca_valid_days ca),
      bind_text (ca_slug_prefix ca), bind_text (ca_slug ca), bind_text (ca_key_backend ca),
      bind_text (ca_token_label ca), bind_text (ca_ee_curve ca), bind_text (ca_ee_digest ca),
      bind_int (ca_ee_valid_days ca), bind_int (if ca_simple_dn ca then 1 else 0),
      bind_text (join_profiles (ca_permitted_dns ca)), bind_text (join_profiles (ca_permitted_email ca)),
      bind_text (join_policies (ca_policies_map ca))]"

text \<open>The purpose is the primary key of its table, the key that of the configuration
  table.\<close>

definition lock_purpose :: "row list \<Rightarrow> signing_ca \<Rightarrow> store_error + row list" where
  "lock_purpose rows ca =
     (if list_ex (\<lambda>r. hd r = bind_text (ca_purpose ca)) rows then Inl Step_failed
      else Inr (rows @ [purpose_row ca]))"

fun lock_purposes :: "row list \<Rightarrow> signing_ca list \<Rightarrow> store_error + row list" where
  "lock_purposes rows [] = Inr rows"
| "lock_purposes rows (ca # cas) = rbind (lock_purpose rows ca) (\<lambda>rows'. lock_purposes rows' cas)"

fun lock_globals ::
  "(sql_value \<times> sql_value) list \<Rightarrow> (string \<times> string) list \<Rightarrow> store_error + (sql_value \<times> sql_value) list"
where
  "lock_globals rows [] = Inr rows"
| "lock_globals rows ((k, v) # kvs) =
     (if list_ex (\<lambda>(k', _). k' = bind_text k) rows then Inl Step_failed
      else lock_globals (rows @ [(bind_text k, bind_text v)]) kvs)"

definition lock_config :: "config \<Rightarrow> store_error + snapshot" where
  "lock_config c =
     rbind (lock_globals [] (locked_global c)) (\<lambda>gs.
     rbind (lock_purposes [] (map snd (cfg_cas c))) (\<lambda>ps.
       Inr \<lparr>snap_config = Some gs, snap_purposes = Some ps\<rparr>))"

section \<open>Reading it back\<close>

text \<open>\<^verbatim>\<open>std::stoi\<close>: leading blanks, a sign, the longest run of digits; it throws
  without a digit and outside the range of \<^verbatim>\<open>int\<close>.\<close>

definition is_blank :: "char \<Rightarrow> bool" where
  "is_blank c \<longleftrightarrow> c = CHR '' '' \<or> (9 \<le> (of_char c :: nat) \<and> (of_char c :: nat) \<le> 13)"

definition stoi :: "string \<Rightarrow> int option" where
  "stoi s =
     (let t = dropWhile is_blank s;
          neg = (t \<noteq> [] \<and> hd t = CHR ''-'');
          u = (if t \<noteq> [] \<and> (hd t = CHR ''-'' \<or> hd t = CHR ''+'') then tl t else t);
          ds = takeWhile is_digit u;
          v = (if neg then - int (digits_val 0 ds) else int (digits_val 0 ds))
      in if ds = [] then None else if - (2 ^ 31) \<le> v \<and> v < 2 ^ 31 then Some v else None)"

definition cfg_S :: "(string \<times> string) list \<Rightarrow> string \<Rightarrow> string" where
  "cfg_S m k = (case map_of m k of Some v \<Rightarrow> v | None \<Rightarrow> [])"

definition cfg_I :: "(string \<times> string) list \<Rightarrow> string \<Rightarrow> snapshot_error + int" where
  "cfg_I m k = (case map_of m k of
      Some v \<Rightarrow> (case stoi v of Some i \<Rightarrow> Inr i | None \<Rightarrow> Inl Stoi_failed)
    | None \<Rightarrow> Inr 0)"

definition read_key_value :: "sql_value \<times> sql_value \<Rightarrow> store_error + string \<times> string" where
  "read_key_value kv = rbind (column_str (fst kv)) (\<lambda>k. rbind (column_str (snd kv)) (\<lambda>v. Inr (k, v)))"

definition read_purpose :: "row \<Rightarrow> store_error + signing_ca" where
  "read_purpose r =
     rbind (column_str (r ! 0)) (\<lambda>purpose. rbind (column_str (r ! 1)) (\<lambda>profiles.
     rbind (column_str (r ! 2)) (\<lambda>cn. rbind (column_str (r ! 3)) (\<lambda>curve.
     rbind (column_str (r ! 4)) (\<lambda>digest. rbind (column_int (r ! 5)) (\<lambda>valid_days.
     rbind (column_str (r ! 6)) (\<lambda>slug_prefix. rbind (column_str (r ! 7)) (\<lambda>slug.
     rbind (column_str (r ! 8)) (\<lambda>key_backend. rbind (column_str (r ! 9)) (\<lambda>token_label.
     rbind (column_str (r ! 10)) (\<lambda>ee_curve. rbind (column_str (r ! 11)) (\<lambda>ee_digest.
     rbind (column_int (r ! 12)) (\<lambda>ee_valid_days. rbind (column_size (r ! 13)) (\<lambda>simple.
     rbind (column_str (r ! 14)) (\<lambda>dns. rbind (column_str (r ! 15)) (\<lambda>email.
     rbind (column_str (r ! 16)) (\<lambda>policies.
       Inr \<lparr>ca_cn = cn, ca_curve = curve, ca_digest = digest, ca_valid_days = valid_days,
         ca_slug_prefix = slug_prefix, ca_slug = slug, ca_key_backend = key_backend,
         ca_token_label = token_label, ca_purpose = purpose, ca_profiles = split_profiles profiles,
         ca_ee_curve = ee_curve, ca_ee_digest = ee_digest, ca_ee_valid_days = ee_valid_days,
         ca_simple_dn = (simple \<noteq> 0), ca_permitted_dns = split_profiles dns,
         ca_permitted_email = split_profiles email, ca_policies_map = split_policies policies\<rparr>)))))))))))))))))"

definition read_root :: "(string \<times> string) list \<Rightarrow> snapshot_error + ca_fields" where
  "read_root m =
     rbind (cfg_I m ''root.valid_days'') (\<lambda>days.
       Inr \<lparr>ca_cn = cfg_S m ''root.cn'', ca_curve = cfg_S m ''root.curve'', ca_digest = cfg_S m ''root.digest'',
         ca_valid_days = days, ca_slug_prefix = cfg_S m ''root.slug_prefix'', ca_slug = cfg_S m ''root.slug'',
         ca_key_backend = cfg_S m ''root.key_backend'', ca_token_label = cfg_S m ''root.token_label''\<rparr>)"

fun lift_error :: "store_error + 'a \<Rightarrow> snapshot_error + 'a" where
  "lift_error (Inl e) = Inl (Column_error e)"
| "lift_error (Inr x) = Inr x"

text \<open>\<^term>\<open>Inl\<close> is an exception, \<^term>\<open>Inr None\<close> is \<^verbatim>\<open>nullopt\<close>.
  No snapshot means no store file.\<close>

definition load_config :: "snapshot option \<Rightarrow> snapshot_error + config option" where
  "load_config store =
     (case store of None \<Rightarrow> Inr None
      | Some s \<Rightarrow>
         (case snap_config s of None \<Rightarrow> Inl (Column_error Prepare_failed)
          | Some kvs \<Rightarrow>
             rbind (lift_error (map_res read_key_value kvs)) (\<lambda>entries.
               let m = foldl (\<lambda>m (k, v). omap_emplace k v m) [] entries in
               if m = [] then Inr None
               else rbind (read_root m) (\<lambda>root.
                 case snap_purposes s of None \<Rightarrow> Inl (Column_error Prepare_failed)
                 | Some rows \<Rightarrow>
                    rbind (lift_error (map_res read_purpose rows)) (\<lambda>cas.
                      let cas' = foldl (\<lambda>m (k, v). omap_emplace k v m) [] (map (\<lambda>ca. (ca_purpose ca, ca)) cas)
                      in if cas' = [] then Inr None
                         else Inr (Some \<lparr>cfg_pki = \<lparr>pki_org_name = cfg_S m ''pki.org_name'',
                                pki_country_code = cfg_S m ''pki.country_code'',
                                pki_repository_host = cfg_S m ''pki.repository_host''\<rparr>,
                              cfg_pkcs11 = \<lparr>p11_module = cfg_S m ''pkcs11.module'',
                                p11_token_label = cfg_S m ''pkcs11.token_label''\<rparr>,
                              cfg_root = root, cfg_cas = cas', cfg_unknown = []\<rparr>))))))"

section \<open>What a column can hold\<close>

text \<open>A field that survives a C string and the separators of the joined columns.\<close>

definition plain_char :: "char \<Rightarrow> bool" where
  "plain_char c \<longleftrightarrow> c \<noteq> CHR 0x00 \<and> c \<noteq> CHR '','' \<and> c \<noteq> CHR '';'' \<and> c \<noteq> CHR ''=''"

definition plain :: "string \<Rightarrow> bool" where
  "plain s \<longleftrightarrow> list_all plain_char s"

lemma plain_nul_free: "plain s \<Longrightarrow> nul_free s"
  by (auto simp: plain_def plain_char_def nul_free_def list_all_iff)

lemma plain_seps: "plain s \<Longrightarrow> CHR '','' \<notin> set s \<and> CHR '';'' \<notin> set s \<and> CHR ''='' \<notin> set s"
  by (auto simp: plain_def plain_char_def list_all_iff)

lemma plain_append [simp]: "plain (s @ t) \<longleftrightarrow> plain s \<and> plain t"
  by (simp add: plain_def)

lemma plain_Cons [simp]: "plain (c # s) \<longleftrightarrow> plain_char c \<and> plain s"
  by (simp add: plain_def)

lemma plain_Nil [simp]: "plain []"
  by (simp add: plain_def)

lemma plain_chars:
  "is_digit c \<Longrightarrow> plain_char c" "is_lower c \<Longrightarrow> plain_char c" "is_upper c \<Longrightarrow> plain_char c"
  "is_alnum c \<Longrightarrow> plain_char c" "plain_char CHR ''.''" "plain_char CHR ''-''" "plain_char CHR '':''"
  by (auto simp: plain_char_def is_digit_def is_lower_def is_upper_def is_alnum_def less_eq_char_def)

lemma plain_slug: "valid_slug s \<Longrightarrow> plain s"
  by (auto simp: valid_slug_def slug_char_def plain_def list_all_iff intro: plain_chars)

lemma hostname_loop_plain: "hostname_loop n prev s \<Longrightarrow> plain s"
  by (induction n prev s rule: hostname_loop.induct) (auto split: if_splits intro: plain_chars)

lemma plain_hostname: "valid_hostname s \<Longrightarrow> plain s \<and> s \<noteq> []"
  by (auto simp: valid_hostname_def hostname_loop_plain split: if_splits)

lemma plain_subtree: "subtree_ok email nm \<Longrightarrow> plain nm \<and> nm \<noteq> []"
proof -
  assume "subtree_ok email nm"
  moreover have "plain nm \<and> nm \<noteq> []" if "starts_with nm ''.''" "valid_hostname (drop 1 nm)"
    using that plain_hostname [OF that(2)] by (auto simp: starts_with_iff plain_chars)
  ultimately show ?thesis using plain_hostname by (auto simp: subtree_ok_def)
qed

lemma plain_profile: "profile_find nm = Some d \<Longrightarrow> plain nm \<and> nm \<noteq> []"
  by (drule profile_find_names) (auto simp: plain_char_def)

lemma plain_oid: "oid_canonical s \<Longrightarrow> plain s \<and> s \<noteq> []"
proof -
  assume ok: "oid_canonical s"
  have "\<forall>f \<in> set (split_on CHR ''.'' s). list_all is_digit f"
    using ok by (auto simp: oid_canonical_def oid_arc_def list_all_iff split: list.splits)
  then have "set s \<subseteq> {CHR ''.''} \<union> Collect is_digit"
    using join_with_chars [of "''.''" "split_on CHR ''.'' s"]
    by (fastforce simp: join_split_on list_all_iff)
  moreover have "s \<noteq> []" using ok by (auto simp: oid_canonical_def)
  ultimately show ?thesis by (auto simp: plain_def list_all_iff plain_chars)
qed

lemma plain_host_port: "valid_host_port s \<Longrightarrow> plain s"
proof (cases "cut_at CHR '':'' s")
  case None
  then show "valid_host_port s \<Longrightarrow> plain s" by (simp add: valid_host_port_def plain_hostname)
next
  case (Some pr)
  obtain h p where pr: "pr = (h, p)" by fastforce
  assume "valid_host_port s"
  with Some have "valid_hostname h" "list_all is_digit p"
    by (auto simp: valid_host_port_def valid_port_def pr split: if_splits)
  with Some show "plain s"
    by (auto simp: pr dest!: cut_at_SomeD plain_hostname) (auto simp: plain_def list_all_iff plain_chars)
qed

lemma plain_known: "s \<in> set kCurves \<or> s \<in> set kDigests \<Longrightarrow> plain s"
  by (auto simp: kCurves_def kDigests_def plain_char_def)

lemma fields_ok_plain: "\<forall>x \<in> set xs. plain x \<and> x \<noteq> [] \<Longrightarrow> fields_ok CHR '','' xs"
  using plain_seps by (auto simp: fields_ok_def)

lemma nul_free_join: "\<forall>x \<in> set xs. plain x \<and> x \<noteq> [] \<Longrightarrow> nul_free (join_profiles xs)"
proof -
  assume ok: "\<forall>x \<in> set xs. plain x \<and> x \<noteq> []"
  have "CHR 0x00 \<notin> set x" if "x \<in> set xs" for x
    using ok that plain_nul_free by (auto simp: nul_free_def)
  with join_profiles_chars [OF fields_ok_plain [OF ok]] show "nul_free (join_profiles xs)"
    by (auto simp: nul_free_def)
qed

lemma nul_free_join_policies:
  "\<forall>(prof, oids) \<in> set pols. plain prof \<and> (\<forall>oid \<in> set oids. plain oid \<and> oid \<noteq> []) \<Longrightarrow>
   nul_free (join_policies pols)"
proof -
  assume ok: "\<forall>(prof, oids) \<in> set pols. plain prof \<and> (\<forall>oid \<in> set oids. plain oid \<and> oid \<noteq> [])"
  have "nul_free out \<Longrightarrow> nul_free (foldl (\<lambda>out (prof, oids). (if out \<noteq> [] then out @ '';'' else out) @
        prof @ ''='' @ join_profiles oids) out pols)" for out
    using ok
  proof (induction pols arbitrary: out)
    case Nil
    then show ?case by simp
  next
    case (Cons pol pols)
    obtain prof oids where pol: "pol = (prof, oids)" by fastforce
    have "nul_free ((if out \<noteq> [] then out @ '';'' else out) @ prof @ ''='' @ join_profiles oids)"
      using Cons.prems by (auto simp: pol plain_nul_free nul_free_join)
    with Cons show ?case by (simp add: pol)
  qed
  then show ?thesis by (simp add: join_policies_def)
qed

lemma stoi_show_int: "0 \<le> d \<Longrightarrow> d < 2 ^ 31 \<Longrightarrow> stoi (show_int d) = Some d"
proof -
  assume d: "0 \<le> d" "d < 2 ^ 31"
  let ?s = "show_nat (nat d)"
  have digits: "list_all is_digit ?s" "?s \<noteq> []" by (simp_all add: show_nat_digits)
  then have hd: "is_digit (hd ?s)" by (cases ?s) auto
  then have "\<not> is_blank (hd ?s)" "hd ?s \<noteq> CHR ''-''" "hd ?s \<noteq> CHR ''+''"
    by (auto simp: is_blank_def is_digit_def less_eq_char_def)
  moreover have "dropWhile is_blank ?s = ?s"
    using \<open>\<not> is_blank (hd ?s)\<close> digits(2) by (cases ?s) auto
  moreover have tw: "takeWhile is_digit ?s = ?s"
    using digits(1) by (simp add: takeWhile_eq_all_conv list_all_iff)
  ultimately show ?thesis
    using d digits(2) by (simp add: stoi_def show_int_def Let_def tw)
qed

lemma column_int_bind:
  "- (2 ^ 31) \<le> d \<Longrightarrow> d < 2 ^ 31 \<Longrightarrow> column_int (bind_int d) = Inr d"
proof -
  assume d: "- (2 ^ 31) \<le> d" "d < 2 ^ 31"
  have "d mod 2 ^ 64 mod 2 ^ 32 = d mod 2 ^ 32" by (simp add: mod_mod_cancel)
  then have "(d mod 2 ^ 64 + 2 ^ 31) mod 2 ^ 32 = (d + 2 ^ 31) mod 2 ^ 32" by (metis mod_add_left_eq)
  then have "cast_int (uint (word_of_int d :: u64)) = cast_int d"
    by (simp add: cast_int_def int_word_sint uint_word_of_int)
  with d show ?thesis
    by (simp add: column_int_def bind_int_def bind_size_def column_size_def cast_int_id)
qed

lemma column_bind_text [simp]: "nul_free s \<Longrightarrow> column_str (bind_text s) = Inr s"
  by (simp add: column_str_def bind_text_def)

section \<open>Locking and loading\<close>

text \<open>The fields the loader takes as free text: everything else has a character set without
  NUL.\<close>

definition ca_text_ok :: "'a ca_fields_scheme \<Rightarrow> bool" where
  "ca_text_ok ca \<longleftrightarrow> nul_free (ca_cn ca) \<and> nul_free (ca_token_label ca)"

definition config_text_ok :: "config \<Rightarrow> bool" where
  "config_text_ok c \<longleftrightarrow> nul_free (pki_org_name (cfg_pki c)) \<and> nul_free (p11_module (cfg_pkcs11 c)) \<and>
     nul_free (p11_token_label (cfg_pkcs11 c)) \<and> ca_text_ok (cfg_root c) \<and>
     (\<forall>(purpose, ca) \<in> set (cfg_cas c). ca_text_ok ca)"

lemma ca_fields_nul_free:
  "ca_fields_ok ca \<Longrightarrow> nul_free (ca_curve ca) \<and> nul_free (ca_digest ca) \<and> nul_free (ca_slug_prefix ca) \<and>
   nul_free (ca_slug ca) \<and> nul_free (ca_key_backend ca)"
  by (auto simp: ca_fields_ok_def plain_nul_free plain_known plain_slug)

lemma issuing_fields:
  assumes "issuing_ok d p ca"
  shows "\<forall>x \<in> set (ca_profiles ca). plain x \<and> x \<noteq> []"
    and "\<forall>x \<in> set (ca_permitted_dns ca). plain x \<and> x \<noteq> []"
    and "\<forall>x \<in> set (ca_permitted_email ca). plain x \<and> x \<noteq> []"
    and "(prof, oids) \<in> set (ca_policies_map ca) \<Longrightarrow> plain prof \<and> (\<forall>oid \<in> set oids. plain oid \<and> oid \<noteq> [])"
proof -
  have known: "\<exists>d. profile_find x = Some d" if "x \<in> set (ca_profiles ca)" for x
    using assms that unfolding issuing_ok_def by blast
  then show profiles: "\<forall>x \<in> set (ca_profiles ca). plain x \<and> x \<noteq> []" using plain_profile by blast
  have dns: "list_all (subtree_ok False) (ca_permitted_dns ca)" and
    email: "list_all (subtree_ok True) (ca_permitted_email ca)" and
    pols: "policies_ok (ca_profiles ca) (ca_policies_map ca)"
    using assms unfolding issuing_ok_def by blast+
  from dns show "\<forall>x \<in> set (ca_permitted_dns ca). plain x \<and> x \<noteq> []"
    unfolding list_all_iff using plain_subtree by blast
  from email show "\<forall>x \<in> set (ca_permitted_email ca). plain x \<and> x \<noteq> []"
    unfolding list_all_iff using plain_subtree by blast
  assume "(prof, oids) \<in> set (ca_policies_map ca)"
  with pols have "prof \<in> set (ca_profiles ca)" "\<forall>oid \<in> set oids. oid_canonical oid"
    unfolding policies_ok_def by blast+
  with profiles show "plain prof \<and> (\<forall>oid \<in> set oids. plain oid \<and> oid \<noteq> [])" using plain_oid by blast
qed

lemma policies_fields_ok:
  "issuing_ok d p ca \<Longrightarrow> policy_fields_ok (ca_policies_map ca) \<and> omap_ok (ca_policies_map ca)"
proof -
  assume ok: "issuing_ok d p ca"
  have "policy_fields_ok (ca_policies_map ca)"
    unfolding policy_fields_ok_def
  proof (safe)
    fix prof oids assume "(prof, oids) \<in> set (ca_policies_map ca)"
    then have "plain prof" "\<forall>oid \<in> set oids. plain oid \<and> oid \<noteq> []" using issuing_fields(4) [OF ok] by blast+
    then show "CHR ''='' \<in> set prof \<Longrightarrow> False" "CHR '';'' \<in> set prof \<Longrightarrow> False"
      "fields_ok CHR '','' oids" "\<And>oid. oid \<in> set oids \<Longrightarrow> CHR '';'' \<in> set oid \<Longrightarrow> False"
      using plain_seps fields_ok_plain by blast+
  qed
  with ok show ?thesis by (auto simp: issuing_ok_def policies_ok_def)
qed

lemma read_purpose_row:
  assumes ok: "issuing_ok d p ca" and text_ok: "ca_text_ok ca"
  shows "read_purpose (purpose_row ca) = Inr ca"
proof -
  note lists = issuing_fields(1-3) [OF ok]
  have pols: "nul_free (join_policies (ca_policies_map ca))"
    by (rule nul_free_join_policies) (use issuing_fields(4) [OF ok] in blast)
  have base: "ca_fields_ok ca" and purpose: "valid_slug (ca_purpose ca)"
    and known: "ca_ee_curve ca \<in> set kCurves" "ca_ee_digest ca \<in> set kDigests"
    and ee: "0 < ca_ee_valid_days ca" "ca_ee_valid_days ca < ca_valid_days ca"
    and days: "0 < ca_valid_days ca" "ca_valid_days ca < 2 ^ 31"
    using ok by (auto simp: issuing_ok_def ca_fields_ok_def)
  have cols: "column_str (bind_text s) = Inr s" if "nul_free s" for s
    using that by (simp add: column_str_def bind_text_def)
  note texts = cols [OF plain_nul_free [OF plain_slug [OF purpose]]]
    cols [OF plain_nul_free [OF plain_known [OF disjI1 [OF known(1)]]]]
    cols [OF plain_nul_free [OF plain_known [OF disjI2 [OF known(2)]]]]
    ca_fields_nul_free [OF base, THEN conjunct1, THEN cols]
    ca_fields_nul_free [OF base, THEN conjunct2, THEN conjunct1, THEN cols]
    ca_fields_nul_free [OF base, THEN conjunct2, THEN conjunct2, THEN conjunct1, THEN cols]
    ca_fields_nul_free [OF base, THEN conjunct2, THEN conjunct2, THEN conjunct2, THEN conjunct1, THEN cols]
    ca_fields_nul_free [OF base, THEN conjunct2, THEN conjunct2, THEN conjunct2, THEN conjunct2, THEN cols]
    text_ok [unfolded ca_text_ok_def, THEN conjunct1, THEN cols]
    text_ok [unfolded ca_text_ok_def, THEN conjunct2, THEN cols]
    nul_free_join [OF lists(1), THEN cols] nul_free_join [OF lists(2), THEN cols]
    nul_free_join [OF lists(3), THEN cols] cols [OF pols]
  have ints: "column_int (bind_int (ca_valid_days ca)) = Inr (ca_valid_days ca)"
      "column_int (bind_int (ca_ee_valid_days ca)) = Inr (ca_ee_valid_days ca)"
    using days ee by (simp_all add: column_int_bind)
  have simple: "column_size (bind_int (if b then 1 else 0)) = Inr (if b then 1 else 0)" for b
    by (simp add: bind_int_def bind_size_def column_size_def)
  show ?thesis
    by (simp add: read_purpose_def purpose_row_def texts ints simple fields_ok_plain [OF lists(1)]
        fields_ok_plain [OF lists(2)] fields_ok_plain [OF lists(3)] policies_fields_ok [OF ok])
qed

lemma lock_purposes_rows:
  "distinct (map ca_purpose cas) \<Longrightarrow>
   \<forall>ca \<in> set cas. \<forall>r \<in> set rows. hd r \<noteq> bind_text (ca_purpose ca) \<Longrightarrow>
   lock_purposes rows cas = Inr (rows @ map purpose_row cas)"
proof (induction cas arbitrary: rows)
  case Nil
  then show ?case by simp
next
  case (Cons ca cas)
  have "lock_purpose rows ca = Inr (rows @ [purpose_row ca])"
    using Cons.prems by (auto simp: lock_purpose_def list_ex_iff)
  moreover have "hd (purpose_row ca) = bind_text (ca_purpose ca)" by (simp add: purpose_row_def)
  moreover have "lock_purposes (rows @ [purpose_row ca]) cas = Inr ((rows @ [purpose_row ca]) @ map purpose_row cas)"
    using Cons.prems calculation(2) by (intro Cons.IH) (auto simp: bind_text_def)
  ultimately show ?case by simp
qed

lemma lock_globals_rows:
  "distinct (map fst kvs) \<Longrightarrow> \<forall>(k, v) \<in> set kvs. \<forall>r \<in> set rows. fst r \<noteq> bind_text k \<Longrightarrow>
   lock_globals rows kvs = Inr (rows @ map (\<lambda>(k, v). (bind_text k, bind_text v)) kvs)"
proof (induction kvs arbitrary: rows)
  case Nil
  then show ?case by simp
next
  case (Cons kv kvs)
  obtain k v where kv: "kv = (k, v)" by fastforce
  have "lock_globals (rows @ [(bind_text k, bind_text v)]) kvs =
      Inr ((rows @ [(bind_text k, bind_text v)]) @ map (\<lambda>(k, v). (bind_text k, bind_text v)) kvs)"
    using Cons.prems by (intro Cons.IH) (force simp: kv bind_text_def)+
  moreover have "\<not> list_ex (\<lambda>(k', _). k' = bind_text k) rows"
    using Cons.prems(2) by (auto simp: kv list_ex_iff)
  ultimately show ?case by (simp add: kv)
qed

lemma locked_global_distinct: "distinct (map fst (locked_global c))"
  by (simp add: locked_global_def)

lemma lock_config_tables:
  "config_ok c \<Longrightarrow> lock_config c = Inr \<lparr>
     snap_config = Some (map (\<lambda>(k, v). (bind_text k, bind_text v)) (locked_global c)),
     snap_purposes = Some (map purpose_row (map snd (cfg_cas c)))\<rparr>"
proof -
  assume ok: "config_ok c"
  have "ca_purpose ca = p" if "(p, ca) \<in> set (cfg_cas c)" for p ca
    using ok that unfolding config_ok_def issuing_ok_def by blast
  then have same: "map ca_purpose (map snd (cfg_cas c)) = map fst (cfg_cas c)"
    by auto
  have "distinct (map ca_purpose (map snd (cfg_cas c)))"
    unfolding same using ok unfolding config_ok_def by (simp add: omap_ok_distinct)
  then show ?thesis
    using lock_globals_rows [of "locked_global c" "[]"] locked_global_distinct
    by (simp add: lock_config_def lock_purposes_rows)
qed

lemma two_letters_plain: "two_letters s \<Longrightarrow> plain s"
  by (auto simp: two_letters_def plain_chars split: list.splits)

lemma show_int_plain: "0 \<le> d \<Longrightarrow> plain (show_int d)"
  using show_nat_digits [of "nat d"] plain_chars(1)
  by (auto simp: show_int_def plain_def list_all_iff)

lemma locked_global_nul_free:
  assumes "config_ok c" and "config_text_ok c" and "(k, v) \<in> set (locked_global c)"
  shows "nul_free k \<and> nul_free v"
proof -
  have root: "ca_fields_ok (cfg_root c)" "nul_free (pki_country_code (cfg_pki c))"
      "nul_free (pki_repository_host (cfg_pki c))"
    using assms(1) unfolding config_ok_def
    by (auto intro: plain_nul_free two_letters_plain plain_host_port)
  have "nul_free (show_int (ca_valid_days (cfg_root c)))"
    using root(1) by (intro plain_nul_free show_int_plain) (simp add: ca_fields_ok_def)
  with assms(2,3) root ca_fields_nul_free [OF root(1)] show ?thesis
    by (auto simp: locked_global_def config_text_ok_def ca_text_ok_def)
qed

text \<open>The rows may come back in any order: both tables are emplaced into ordered maps.\<close>

lemma locked_globals_read:
  assumes ok: "config_ok c" "config_text_ok c"
    and gs: "set gs = set (map (\<lambda>(k, v). (bind_text k, bind_text v)) (locked_global c))" "distinct gs"
  shows "\<exists>kvs. map_res read_key_value gs = Inr kvs \<and> map_of kvs = map_of (locked_global c)"
proof -
  have read_kv: "read_key_value (bind_text k, bind_text v) = Inr (k, v)" if "(k, v) \<in> set (locked_global c)" for k v
    using locked_global_nul_free [OF ok that] by (simp add: read_key_value_def)
  define kvs where "kvs = map (\<lambda>r. case r of (VText k, VText v) \<Rightarrow> (k, v) | _ \<Rightarrow> ([], [])) gs"
  have read: "map_res read_key_value gs = Inr kvs"
    unfolding kvs_def
  proof (rule map_res_Inr)
    fix r assume "r \<in> set gs"
    with gs(1) obtain k v where "r = (bind_text k, bind_text v)" "(k, v) \<in> set (locked_global c)" by auto
    with read_kv show "read_key_value r = Inr (case r of (VText k, VText v) \<Rightarrow> (k, v) | _ \<Rightarrow> ([], []))"
      by (simp add: bind_text_def)
  qed
  have same: "set kvs = set (locked_global c)"
    unfolding kvs_def set_map gs(1) by (force simp: bind_text_def image_iff)
  have "distinct kvs"
    unfolding kvs_def distinct_map using gs by (auto simp: inj_on_def bind_text_def)
  moreover have "inj_on fst (set (locked_global c))" using locked_global_distinct by (simp add: distinct_map)
  ultimately have "distinct (map fst kvs)" using same by (simp add: distinct_map)
  then have "map_of kvs = map_of (locked_global c)" using same locked_global_distinct by (metis map_of_inject_set)
  with read show ?thesis by blast
qed

lemma locked_purposes_read:
  assumes ok: "config_ok c" "config_text_ok c"
    and ps: "set ps = set (map purpose_row (map snd (cfg_cas c)))" "distinct ps"
  shows "\<exists>casl. map_res read_purpose ps = Inr casl \<and>
    foldl (\<lambda>m (k, v). omap_emplace k v m) [] (map (\<lambda>ca. (ca_purpose ca, ca)) casl) = cfg_cas c"
proof -
  have issuing: "issuing_ok (ca_valid_days (cfg_root c)) p ca \<and> ca_text_ok ca" if "(p, ca) \<in> set (cfg_cas c)" for p ca
    using that ok unfolding config_ok_def config_text_ok_def by blast
  then have read_row: "read_purpose (purpose_row ca) = Inr ca" if "(p, ca) \<in> set (cfg_cas c)" for p ca
    using that read_purpose_row by blast
  define casl where "casl = map (\<lambda>r. projr (read_purpose r)) ps"
  have read: "map_res read_purpose ps = Inr casl"
    unfolding casl_def by (rule map_res_Inr) (use ps(1) in \<open>auto dest: read_row\<close>)
  have set: "set casl = set (map snd (cfg_cas c))"
    unfolding casl_def set_map ps(1) image_image by (force simp: image_iff dest: read_row)
  have dist: "distinct casl"
    unfolding casl_def distinct_map using ps by (auto simp: inj_on_def dest!: read_row)
  have keys: "ca_purpose ca = p" if "(p, ca) \<in> set (cfg_cas c)" for p ca
    using issuing [OF that] by (simp add: issuing_ok_def)
  have ord: "omap_ok (cfg_cas c)" using ok(1) by (simp add: config_ok_def)
  have "set (map (\<lambda>ca. (ca_purpose ca, ca)) casl) = set (cfg_cas c)"
    using set keys by (force simp: image_iff)
  moreover have "inj_on ca_purpose (set casl)"
    using set keys omap_ok_distinct [OF ord] by (auto simp: inj_on_def) (metis eq_key_imp_eq_value)
  then have "distinct (map fst (map (\<lambda>ca. (ca_purpose ca, ca)) casl))"
    using dist by (simp add: distinct_map comp_def)
  ultimately show ?thesis using read by (blast intro: omap.emplace_perm_entries [OF ord])
qed

lemma load_config_locked:
  assumes ok: "config_ok c" "config_text_ok c" "cfg_cas c \<noteq> []"
    and gs: "set gs = set (map (\<lambda>(k, v). (bind_text k, bind_text v)) (locked_global c))" "distinct gs"
    and ps: "set ps = set (map purpose_row (map snd (cfg_cas c)))" "distinct ps"
  shows "load_config (Some \<lparr>snap_config = Some gs, snap_purposes = Some ps\<rparr>) =
    Inr (Some (c\<lparr>cfg_unknown := []\<rparr>))"
proof -
  from locked_globals_read [OF ok(1,2) gs] obtain kvs where kvs: "map_res read_key_value gs = Inr kvs"
      "map_of kvs = map_of (locked_global c)" by blast
  from locked_purposes_read [OF ok(1,2) ps] obtain casl where casl: "map_res read_purpose ps = Inr casl"
      "foldl (\<lambda>m (k, v). omap_emplace k v m) [] (map (\<lambda>ca. (ca_purpose ca, ca)) casl) = cfg_cas c" by blast
  define m where "m = foldl (\<lambda>m (k, v). omap_emplace k v m) [] kvs"
  have m: "map_of m = map_of (locked_global c)"
    unfolding m_def using kvs(2) by (simp only: omap.lookup_emplace_empty)
  have m_ne: "m \<noteq> []" using m by (auto simp: locked_global_def dest: fun_cong [of _ _ "''root.cn''"])
  have root: "ca_fields_ok (cfg_root c)" using ok(1) by (simp add: config_ok_def)
  have root_read: "read_root m = Inr (cfg_root c)"
    using root by (simp add: read_root_def cfg_I_def cfg_S_def m locked_global_def stoi_show_int ca_fields_ok_def)
  have global_read: "\<lparr>pki_org_name = cfg_S m ''pki.org_name'', pki_country_code = cfg_S m ''pki.country_code'',
        pki_repository_host = cfg_S m ''pki.repository_host''\<rparr> = cfg_pki c"
      "\<lparr>p11_module = cfg_S m ''pkcs11.module'', p11_token_label = cfg_S m ''pkcs11.token_label''\<rparr> = cfg_pkcs11 c"
    by (simp_all add: cfg_S_def m locked_global_def)
  show ?thesis
    using m_ne ok(3)
    by (simp add: load_config_def kvs(1) casl Let_def m_def [symmetric] root_read global_read)
qed

text \<open>Whatever is loaded is free of NUL bytes, because the readers stop at the first one.\<close>

lemma map_res_member: "map_res f xs = Inr ys \<Longrightarrow> y \<in> set ys \<Longrightarrow> \<exists>x \<in> set xs. f x = Inr y"
proof (induction xs arbitrary: ys)
  case Nil
  then show ?case by simp
next
  case (Cons x xs)
  then obtain y' ys' where "f x = Inr y'" "map_res f xs = Inr ys'" "ys = y' # ys'"
    by (cases "f x"; cases "map_res f xs") auto
  with Cons show ?case by auto
qed

lemma rbind_InrE: "rbind r f = Inr y \<Longrightarrow> (\<And>x. r = Inr x \<Longrightarrow> f x = Inr y \<Longrightarrow> P) \<Longrightarrow> P"
  by (cases r) auto

lemma lift_error_Inr [simp]: "lift_error r = Inr x \<longleftrightarrow> r = Inr x"
  by (cases r) auto

lemma column_str_nul_free: "column_str v = Inr s \<Longrightarrow> nul_free s"
  by (auto simp: column_str_def split: sql_value.splits)

lemma read_purpose_text_ok: "read_purpose r = Inr ca \<Longrightarrow> ca_text_ok ca"
  unfolding read_purpose_def
  by (elim rbind_InrE) (auto simp: ca_text_ok_def dest: column_str_nul_free)

lemma read_key_value_nul_free: "read_key_value kv = Inr (k, v) \<Longrightarrow> nul_free v"
  unfolding read_key_value_def by (elim rbind_InrE) (auto dest: column_str_nul_free)

lemma load_config_text_ok:
  assumes "load_config (Some s) = Inr (Some c)"
  shows "config_text_ok c"
proof -
  obtain kvs where "snap_config s = Some kvs" using assms by (auto simp: load_config_def split: option.splits)
  with assms obtain entries root where entries: "map_res read_key_value kvs = Inr entries"
    and root: "read_root (foldl (\<lambda>m (k, v). omap_emplace k v m) [] entries) = Inr root"
    by (auto simp: load_config_def Let_def elim!: rbind_InrE split: if_splits)
  define m where "m = foldl (\<lambda>m (k, v). omap_emplace k v m) [] entries"
  obtain rows where "snap_purposes s = Some rows"
    using assms \<open>snap_config s = Some kvs\<close> entries root
    by (auto simp: load_config_def Let_def split: if_splits option.splits)
  with assms \<open>snap_config s = Some kvs\<close> entries root obtain cas
    where cas: "map_res read_purpose rows = Inr cas"
      and c: "cfg_pki c = \<lparr>pki_org_name = cfg_S m ''pki.org_name'', pki_country_code = cfg_S m ''pki.country_code'',
            pki_repository_host = cfg_S m ''pki.repository_host''\<rparr>"
          "cfg_pkcs11 c = \<lparr>p11_module = cfg_S m ''pkcs11.module'', p11_token_label = cfg_S m ''pkcs11.token_label''\<rparr>"
          "cfg_root c = root"
          "cfg_cas c = foldl (\<lambda>m (k, v). omap_emplace k v m) [] (map (\<lambda>ca. (ca_purpose ca, ca)) cas)"
    by (auto simp: load_config_def Let_def m_def elim!: rbind_InrE split: if_splits)
  have m: "map_of m = map_of entries" unfolding m_def by (simp only: omap.lookup_emplace_empty)
  have S: "nul_free (cfg_S m k)" for k
  proof (cases "map_of m k")
    case (Some v)
    then have "(k, v) \<in> set entries" by (simp add: m map_of_SomeD)
    with map_res_member [OF entries] Some show ?thesis
      by (auto simp: cfg_S_def dest: read_key_value_nul_free)
  qed (simp add: cfg_S_def)
  have "ca_text_ok root"
    using root unfolding read_root_def m_def [symmetric]
    by (auto simp: ca_text_ok_def S elim!: rbind_InrE)
  moreover have "ca_text_ok ca" if "(p, ca) \<in> set (cfg_cas c)" for p ca
  proof -
    have "set (foldl (\<lambda>m (k, v). omap_emplace k v m) m0 xs) \<subseteq> set m0 \<union> set xs" for m0 :: "(string \<times> signing_ca) list" and xs
    proof (induction xs arbitrary: m0)
      case Nil
      then show ?case by simp
    next
      case (Cons x xs)
      have "set (omap_emplace k v m0) \<subseteq> insert (k, v) (set m0)" for k v
        by (induction k v m0 rule: omap_emplace.induct) auto
      with Cons [of "omap_emplace (fst x) (snd x) m0"] show ?case by (cases x) fastforce
    qed
    then have "(p, ca) \<in> set (map (\<lambda>ca. (ca_purpose ca, ca)) cas)"
      using that unfolding c(4) by fastforce
    with map_res_member [OF cas] show ?thesis by (auto dest: read_purpose_text_ok)
  qed
  ultimately show ?thesis by (auto simp: config_text_ok_def c S)
qed

text \<open>C27. The snapshot the init ceremony locks is the configuration it was given: reading it back,
  in whatever order the tables return their rows, yields every section of an accepted configuration
  with an issuing CA, exactly when none of its free-text fields holds a NUL byte (the readers cut a text
  at the first one, so such a configuration comes back changed).\<close>

theorem snapshot_roundtrip:
  "cfg_load file = Inr c \<Longrightarrow> cfg_cas c \<noteq> [] \<Longrightarrow>
   \<exists>gs ps. lock_config c = Inr \<lparr>snap_config = Some gs, snap_purposes = Some ps\<rparr> \<and>
     (config_text_ok c \<longleftrightarrow>
      (\<forall>gs' ps'. mset gs' = mset gs \<longrightarrow> mset ps' = mset ps \<longrightarrow>
        load_config (Some \<lparr>snap_config = Some gs', snap_purposes = Some ps'\<rparr>) =
          Inr (Some (c\<lparr>cfg_unknown := []\<rparr>))))"
proof -
  assume load: "cfg_load file = Inr c" and ne: "cfg_cas c \<noteq> []"
  note ok = load_config_ok [OF load]
  let ?gs = "map (\<lambda>(k, v). (bind_text k, bind_text v)) (locked_global c)"
  let ?ps = "map purpose_row (map snd (cfg_cas c))"
  have "distinct ?gs"
    by (simp add: locked_global_def bind_text_def)
  moreover have "ca_purpose ca = p" if "(p, ca) \<in> set (cfg_cas c)" for p ca
    using that ok unfolding config_ok_def issuing_ok_def by blast
  then have same: "map hd ?ps = map (\<lambda>x. bind_text (fst x)) (cfg_cas c)"
    by (auto simp: purpose_row_def)
  have "distinct (map fst (cfg_cas c))"
    using ok unfolding config_ok_def by (simp add: omap_ok_distinct)
  then have "distinct (map bind_text (map fst (cfg_cas c)))"
    by (subst distinct_map) (simp add: inj_on_def bind_text_def)
  then have "distinct (map hd ?ps)"
    unfolding same by (simp add: comp_def)
  then have "distinct ?ps" by (subst (asm) distinct_map) (rule conjunct1)
  ultimately have perm: "set gs' = set ?gs \<and> distinct gs'" "set ps' = set ?ps \<and> distinct ps'"
    if "mset gs' = mset ?gs" "mset ps' = mset ?ps" for gs' ps'
    using that by (metis mset_eq_setD mset_eq_imp_distinct_iff)+
  have "config_text_ok c" if "load_config (Some s) = Inr (Some (c\<lparr>cfg_unknown := []\<rparr>))" for s
    using load_config_text_ok [OF that] by (simp add: config_text_ok_def)
  with perm load_config_locked [OF ok _ ne] have "config_text_ok c \<longleftrightarrow>
      (\<forall>gs' ps'. mset gs' = mset ?gs \<longrightarrow> mset ps' = mset ?ps \<longrightarrow>
        load_config (Some \<lparr>snap_config = Some gs', snap_purposes = Some ps'\<rparr>) =
          Inr (Some (c\<lparr>cfg_unknown := []\<rparr>)))" by metis
  with lock_config_tables [OF ok] show ?thesis by blast
qed

definition sample_config :: config where
  "sample_config = loaded (sample_file [(''tls'', sample_tls 90)])"

theorem snapshot_roundtrip_witness:
  "\<exists>s. lock_config sample_config = Inr s \<and> load_config (Some s) = Inr (Some (sample_config\<lparr>cfg_unknown := []\<rparr>))"
proof -
  have "cfg_cas sample_config \<noteq> []" "config_text_ok sample_config" by code_simp+
  moreover have "cfg_load (sample_file [(''tls'', sample_tls 90)]) = Inr sample_config"
    unfolding sample_config_def by (rule sample_loads)
  ultimately show ?thesis using snapshot_roundtrip [of _ sample_config] by blast
qed

section \<open>Comparing the file with the snapshot\<close>

datatype reconcile_warning =
    Readonly_changed string string
  | Declared_not_created string
  | Missing_from_file string

definition compare_section ::
  "string \<Rightarrow> (string \<times> string) list \<Rightarrow> (string \<times> string) list \<Rightarrow> reconcile_warning list" where
  "compare_section sec fk ek =
     concat (map (\<lambda>((k, v), (_, v')). if v \<noteq> v' then [Readonly_changed sec k] else []) (zip fk ek))"

definition reconcile :: "config \<Rightarrow> config \<Rightarrow> reconcile_warning list" where
  "reconcile file eff =
     compare_section ''pki/pkcs11/root'' (locked_global file) (locked_global eff) @
     concat (map (\<lambda>(purpose, ca).
       case map_of (cfg_cas eff) purpose of
         None \<Rightarrow> [Declared_not_created purpose]
       | Some ca' \<Rightarrow> compare_section (''ca.'' @ purpose) (locked_purpose ca) (locked_purpose ca'))
       (cfg_cas file)) @
     concat (map (\<lambda>(purpose, _).
       if map_of (cfg_cas file) purpose = None then [Missing_from_file purpose] else []) (cfg_cas eff))"

lemma compare_section_Nil:
  "length fk = length ek \<Longrightarrow> compare_section sec fk ek = [] \<longleftrightarrow> map snd fk = map snd ek"
  by (induction fk ek rule: list_induct2) (auto simp: compare_section_def split: if_splits)

lemma show_int_inj:
  "0 \<le> a \<Longrightarrow> a < 2 ^ 31 \<Longrightarrow> 0 \<le> b \<Longrightarrow> b < 2 ^ 31 \<Longrightarrow> show_int a = show_int b \<longleftrightarrow> a = b"
  by (metis option.inject stoi_show_int)

lemma compare_global_Nil:
  assumes "config_ok c" and "config_ok d"
  shows "compare_section sec (locked_global c) (locked_global d) = [] \<longleftrightarrow>
    cfg_pki c = cfg_pki d \<and> cfg_pkcs11 c = cfg_pkcs11 d \<and> cfg_root c = cfg_root d"
proof -
  have "ca_fields_ok (cfg_root c)" "ca_fields_ok (cfg_root d)"
    using assms unfolding config_ok_def by blast+
  then have days: "show_int (ca_valid_days (cfg_root c)) = show_int (ca_valid_days (cfg_root d)) \<longleftrightarrow>
      ca_valid_days (cfg_root c) = ca_valid_days (cfg_root d)"
    by (intro show_int_inj) (simp_all add: ca_fields_ok_def)
  have "compare_section sec (locked_global c) (locked_global d) = [] \<longleftrightarrow>
      map snd (locked_global c) = map snd (locked_global d)"
    by (rule compare_section_Nil) (simp add: locked_global_def)
  then show ?thesis
    by (cases "cfg_root c"; cases "cfg_root d"; cases "cfg_pki c"; cases "cfg_pki d";
        cases "cfg_pkcs11 c"; cases "cfg_pkcs11 d") (use days in \<open>auto simp: locked_global_def\<close>)
qed

lemma compare_purpose_Nil:
  assumes "issuing_ok d p ca" and "issuing_ok d' p ca'"
  shows "compare_section sec (locked_purpose ca) (locked_purpose ca') = [] \<longleftrightarrow> ca = ca'"
proof
  assume "compare_section sec (locked_purpose ca) (locked_purpose ca') = []"
  then have eq: "map snd (locked_purpose ca) = map snd (locked_purpose ca')"
    by (subst (asm) compare_section_Nil) (simp_all add: locked_purpose_def)
  note split = fields_ok_plain [OF issuing_fields(1)] fields_ok_plain [OF issuing_fields(2)]
    fields_ok_plain [OF issuing_fields(3)]
  have lists: "ca_profiles ca = ca_profiles ca'" "ca_permitted_dns ca = ca_permitted_dns ca'"
      "ca_permitted_email ca = ca_permitted_email ca'"
    using eq split [OF assms(1)] split [OF assms(2)] unfolding locked_purpose_def
    by (simp; metis split_join_profiles)+
  have pols: "ca_policies_map ca = ca_policies_map ca'"
    using eq policies_fields_ok [OF assms(1)] policies_fields_ok [OF assms(2)] unfolding locked_purpose_def
    by simp (metis split_join_policies)
  have days: "0 \<le> ca_valid_days ca" "ca_valid_days ca < 2 ^ 31" "0 \<le> ca_valid_days ca'" "ca_valid_days ca' < 2 ^ 31"
      "0 \<le> ca_ee_valid_days ca" "ca_ee_valid_days ca < 2 ^ 31" "0 \<le> ca_ee_valid_days ca'"
      "ca_ee_valid_days ca' < 2 ^ 31"
    using assms unfolding issuing_ok_def ca_fields_ok_def by auto
  have "ca_valid_days ca = ca_valid_days ca'" "ca_ee_valid_days ca = ca_ee_valid_days ca'"
    using eq days unfolding locked_purpose_def by (auto simp: show_int_inj)
  moreover have "ca_simple_dn ca = ca_simple_dn ca'"
    using eq unfolding locked_purpose_def by (auto split: if_splits)
  moreover have "ca_purpose ca = ca_purpose ca'"
    using assms by (simp add: issuing_ok_def)
  ultimately show "ca = ca'"
    using eq lists pols unfolding locked_purpose_def
    by (intro signing_ca.equality) simp_all
next
  assume "ca = ca'"
  then show "compare_section sec (locked_purpose ca) (locked_purpose ca') = []"
    by (subst compare_section_Nil) simp_all
qed

text \<open>C28. The comparison made before issuance is silent exactly when the file and the locked snapshot
  agree in every section, the unknown keys aside: a change of any field of any CA, a purpose not created yet
  and a purpose dropped from the file each produce a warning.\<close>

theorem reconcile_silent_iff:
  "config_ok f \<Longrightarrow> config_ok e \<Longrightarrow> reconcile f e = [] \<longleftrightarrow> f\<lparr>cfg_unknown := []\<rparr> = e\<lparr>cfg_unknown := []\<rparr>"
proof
  assume ok: "config_ok f" "config_ok e"
  assume silent: "reconcile f e = []"
  then have same: "cfg_pki f = cfg_pki e" "cfg_pkcs11 f = cfg_pkcs11 e" "cfg_root f = cfg_root e"
    using compare_global_Nil [OF ok] by (simp_all add: reconcile_def)
  have ord: "omap_ok (cfg_cas f)" "omap_ok (cfg_cas e)" using ok unfolding config_ok_def by blast+
  have "map_of (cfg_cas f) p = map_of (cfg_cas e) p" for p
  proof (cases "map_of (cfg_cas f) p")
    case None
    with silent show ?thesis
      by (cases "map_of (cfg_cas e) p") (auto simp: reconcile_def dest!: map_of_SomeD)
  next
    case (Some ca)
    then have mem: "(p, ca) \<in> set (cfg_cas f)" by (rule map_of_SomeD)
    with silent obtain ca' where ca': "map_of (cfg_cas e) p = Some ca'"
      and cmp: "compare_section (''ca.'' @ p) (locked_purpose ca) (locked_purpose ca') = []"
      by (fastforce simp: reconcile_def split: option.splits)
    have "issuing_ok (ca_valid_days (cfg_root f)) p ca" "issuing_ok (ca_valid_days (cfg_root e)) p ca'"
      using ok mem map_of_SomeD [OF ca'] unfolding config_ok_def by blast+
    from compare_purpose_Nil [OF this] cmp have "ca = ca'" by blast
    with Some ca' show ?thesis by simp
  qed
  then have "cfg_cas f = cfg_cas e" by (intro omap_eqI [OF ord]) blast
  with same show "f\<lparr>cfg_unknown := []\<rparr> = e\<lparr>cfg_unknown := []\<rparr>" by simp
next
  assume ok: "config_ok f" "config_ok e"
  assume "f\<lparr>cfg_unknown := []\<rparr> = e\<lparr>cfg_unknown := []\<rparr>"
  then have same: "cfg_pki f = cfg_pki e" "cfg_pkcs11 f = cfg_pkcs11 e" "cfg_root f = cfg_root e"
      "cfg_cas f = cfg_cas e"
    by (metis config.select_convs(1-4) config.update_convs(5) config.surjective)+
  have "distinct (map fst (cfg_cas e))" using ok(2) unfolding config_ok_def by (simp add: omap_ok_distinct)
  then have "map_of (cfg_cas e) p = Some ca" if "(p, ca) \<in> set (cfg_cas e)" for p ca
    using that by simp
  moreover have "compare_section sec (locked_purpose ca) (locked_purpose ca) = []" for sec ca
    by (subst compare_section_Nil) simp_all
  moreover have "compare_section sec (locked_global f) (locked_global e) = []" for sec
    using compare_global_Nil [OF ok] same by blast
  ultimately show "reconcile f e = []"
    unfolding reconcile_def same by (auto split: option.splits)
qed

lemma config_ok_unknown [simp]: "config_ok (c\<lparr>cfg_unknown := u\<rparr>) = config_ok c"
  by (simp add: config_ok_def)

lemma config_ok_pkcs11:
  "p11_module p = p11_module (cfg_pkcs11 c) \<Longrightarrow> config_ok (c\<lparr>cfg_pkcs11 := p\<rparr>) = config_ok c"
  by (simp add: config_ok_def)

theorem reconcile_silent_iff_witness:
  "reconcile sample_config (sample_config\<lparr>cfg_unknown := [Key_err ''pki'' ''x'' Unknown_key]\<rparr>) = [] \<and>
   reconcile sample_config (sample_config\<lparr>cfg_pkcs11 := \<lparr>p11_module = [], p11_token_label = ''t''\<rparr>\<rparr>) \<noteq> []"
proof -
  have ok: "config_ok sample_config"
    unfolding sample_config_def by (rule load_config_ok [OF sample_loads])
  then have ok2: "config_ok (sample_config\<lparr>cfg_unknown := [Key_err ''pki'' ''x'' Unknown_key]\<rparr>)"
    by simp
  have "p11_module (cfg_pkcs11 sample_config) = []" by code_simp
  with ok have ok3: "config_ok (sample_config\<lparr>cfg_pkcs11 := \<lparr>p11_module = [], p11_token_label = ''t''\<rparr>\<rparr>)"
    by (subst config_ok_pkcs11) simp_all
  have "cfg_pkcs11 sample_config \<noteq> \<lparr>p11_module = [], p11_token_label = ''t''\<rparr>" by code_simp
  then have "sample_config\<lparr>cfg_unknown := []\<rparr> \<noteq>
      sample_config\<lparr>cfg_pkcs11 := \<lparr>p11_module = [], p11_token_label = ''t''\<rparr>\<rparr>\<lparr>cfg_unknown := []\<rparr>"
    by (metis config.select_convs(2) config.update_convs(2,5) config.surjective)
  with reconcile_silent_iff [OF ok ok2] reconcile_silent_iff [OF ok ok3] show ?thesis by simp
qed

end
