(* ===== verification/X509.thy ===== *)
theory X509
  imports Snapshot
begin

text \<open>
  The shape of every certificate the PKI mints: the subject name, the extension lists of
  \<^verbatim>\<open>src/ca.cpp\<close> and the nameConstraints encoder of \<^verbatim>\<open>src/x509ext.cpp\<close>.
  A certificate is what Botan's \<^verbatim>\<open>make_cert\<close> puts in it; its serial number, its
  fingerprint and the key identifier Botan hashes from a public key are arguments.
\<close>

unbundle bit_operations_syntax

section \<open>Names\<close>

datatype dn_attr = Country | Organization | Common_name

type_synonym dn = "(dn_attr \<times> string) list"

text \<open>\<^verbatim>\<open>X509_DN::add_attribute\<close> ignores an empty value.\<close>

definition add_attribute :: "dn \<Rightarrow> dn_attr \<Rightarrow> string \<Rightarrow> dn" where
  "add_attribute dn a v = (if v = [] then dn else dn @ [(a, v)])"

definition first_attribute :: "dn \<Rightarrow> dn_attr \<Rightarrow> string" where
  "first_attribute dn a = (case find (\<lambda>(b, _). b = a) dn of Some (_, v) \<Rightarrow> v | None \<Rightarrow> [])"

definition subject_dn :: "pki \<Rightarrow> string \<Rightarrow> bool \<Rightarrow> dn" where
  "subject_dn p cn simple =
     (let dn = (if \<not> simple
                then add_attribute (add_attribute [] Country (pki_country_code p)) Organization (pki_org_name p)
                else [])
      in add_attribute dn Common_name cn)"

section \<open>Extensions\<close>

datatype san = Dns string | Email string | Ip u32 | Uri string

datatype extension =
    Basic_Constraints bool "nat option"
  | Key_Usage u32
  | Ext_Key_Usage "string list"
  | Authority_Key_ID string
  | Subject_Key_ID string
  | Subject_Alt_Name "san list"
  | Name_Constraints "string list" "string list"
  | Authority_Info "string list"
  | CRL_Points "string list"
  | Cert_Policies "string list"

text \<open>\<^verbatim>\<open>Extensions::add_new\<close> refuses a second extension with the same OID.\<close>

definition ext_oid :: "extension \<Rightarrow> nat" where
  "ext_oid e = (case e of Basic_Constraints _ _ \<Rightarrow> 19 | Key_Usage _ \<Rightarrow> 15 | Ext_Key_Usage _ \<Rightarrow> 37
     | Authority_Key_ID _ \<Rightarrow> 35 | Subject_Key_ID _ \<Rightarrow> 14 | Subject_Alt_Name _ \<Rightarrow> 17
     | Name_Constraints _ _ \<Rightarrow> 30 | Authority_Info _ \<Rightarrow> 1 | CRL_Points _ \<Rightarrow> 31 | Cert_Policies _ \<Rightarrow> 32)"

type_synonym extensions = "(bool \<times> extension) list"

definition add_new :: "extensions \<Rightarrow> bool \<Rightarrow> extension \<Rightarrow> extensions" where
  "add_new ext critical e =
     (if list_ex (\<lambda>(_, x). ext_oid x = ext_oid e) ext then ext else ext @ [(critical, e)])"

record certificate =
  x_serial :: string
  x_fp :: string
  x_pub :: string
  x_issuer :: dn
  x_subject :: dn
  x_not_before :: nat
  x_not_after :: nat
  x_exts :: extensions
  x_signer :: string

text \<open>\<^verbatim>\<open>X509_CA::make_cert\<close> fills a certificate with what it is given; the signature is
  recorded as the public half of the key that made it.\<close>

definition make_cert ::
  "string \<Rightarrow> string \<Rightarrow> string \<Rightarrow> string \<Rightarrow> nat \<Rightarrow> nat \<Rightarrow> dn \<Rightarrow> dn \<Rightarrow> extensions \<Rightarrow> certificate" where
  "make_cert serial fp signer pub nb na issuer subject exts =
     \<lparr>x_serial = serial, x_fp = fp, x_pub = pub, x_issuer = issuer, x_subject = subject,
      x_not_before = nb, x_not_after = na, x_exts = exts, x_signer = signer\<rparr>"

definition cert_cn :: "certificate \<Rightarrow> string" where
  "cert_cn c = first_attribute (x_subject c) Common_name"

definition cert_issuer_cn :: "certificate \<Rightarrow> string" where
  "cert_issuer_cn c = first_attribute (x_issuer c) Common_name"

text \<open>The hex of the key identifiers, empty when the extension is absent.\<close>

definition ski_of :: "certificate \<Rightarrow> string" where
  "ski_of c = (case List.map_filter (\<lambda>(_, e). case e of Subject_Key_ID k \<Rightarrow> Some k | _ \<Rightarrow> None) (x_exts c) of
     k # _ \<Rightarrow> k | [] \<Rightarrow> [])"

definition aki_of :: "certificate \<Rightarrow> string" where
  "aki_of c = (case List.map_filter (\<lambda>(_, e). case e of Authority_Key_ID k \<Rightarrow> Some k | _ \<Rightarrow> None) (x_exts c) of
     k # _ \<Rightarrow> k | [] \<Rightarrow> [])"

definition kDigitalSignature :: u32 where "kDigitalSignature = 2 ^ 15"

definition kKeyAgreement :: u32 where "kKeyAgreement = 2 ^ 11"

definition kKeyCertSign :: u32 where "kKeyCertSign = 2 ^ 10"

definition kCrlSign :: u32 where "kCrlSign = 2 ^ 9"

text \<open>\<^verbatim>\<open>ca_extensions\<close>; \<open>kid\<close> is the identifier Botan computes from the public
  key, and the self-signed root names its own.\<close>

definition ca_extensions :: "string \<Rightarrow> nat option \<Rightarrow> certificate option \<Rightarrow> extensions" where
  "ca_extensions kid path_limit issuer =
     (let ext = add_new [] True (Basic_Constraints True path_limit);
          ext = add_new ext True (Key_Usage (kKeyCertSign OR kCrlSign));
          ext = add_new ext False (Authority_Key_ID (case issuer of Some i \<Rightarrow> ski_of i | None \<Rightarrow> kid))
      in add_new ext False (Subject_Key_ID kid))"

definition add_policies :: "extensions \<Rightarrow> string list \<Rightarrow> extensions" where
  "add_policies ext oids = (if oids = [] then ext else add_new ext False (Cert_Policies oids))"

definition base_url :: "config \<Rightarrow> string" where
  "base_url c = ''http://'' @ pki_repository_host (cfg_pki c)"

definition add_signing_pointer_extensions ::
  "extensions \<Rightarrow> config \<Rightarrow> signing_ca \<Rightarrow> string \<Rightarrow> extensions" where
  "add_signing_pointer_extensions ext c ca root_slug =
     (let ext = add_new ext False (Authority_Info [base_url c @ ''/'' @ root_slug @ ''.crt'']);
          ext = add_new ext False (CRL_Points [base_url c @ ''/'' @ root_slug @ ''.crl''])
      in add_policies ext (ca_policies ca))"

definition add_ee_pointer_extensions ::
  "extensions \<Rightarrow> config \<Rightarrow> signing_ca \<Rightarrow> profile_def \<Rightarrow> string \<Rightarrow> extensions" where
  "add_ee_pointer_extensions ext c ca prof issuer_slug =
     (let ext = add_new ext False (Authority_Info [base_url c @ ''/'' @ issuer_slug @ ''.crt'']);
          ext = add_new ext False (CRL_Points [base_url c @ ''/'' @ issuer_slug @ ''.crl''])
      in case map_of (ca_policies_map ca) (pd_name prof) of
           None \<Rightarrow> ext
         | Some oids \<Rightarrow> add_policies ext oids)"

definition ee_constraints :: "profile_def \<Rightarrow> u32" where
  "ee_constraints prof =
     (if pd_key_agreement prof then kDigitalSignature OR kKeyAgreement else kDigitalSignature)"

definition ee_extensions ::
  "config \<Rightarrow> signing_ca \<Rightarrow> profile_def \<Rightarrow> certificate \<Rightarrow> string \<Rightarrow> string \<Rightarrow> san list \<Rightarrow> extensions" where
  "ee_extensions c ca prof issuer issuer_slug kid san =
     (let ext = add_new [] True (Basic_Constraints False None);
          ext = add_new ext True (Key_Usage (ee_constraints prof));
          ext = add_new ext False (Ext_Key_Usage [pd_eku prof]);
          ext = add_new ext False (Authority_Key_ID (ski_of issuer));
          ext = add_new ext False (Subject_Key_ID kid);
          ext = add_new ext False (Subject_Alt_Name san)
      in add_ee_pointer_extensions ext c ca prof issuer_slug)"

definition signing_ca_ekus :: "signing_ca \<Rightarrow> string list" where
  "signing_ca_ekus ca =
     concat (map (\<lambda>nm. case profile_find nm of
        None \<Rightarrow> []
      | Some p \<Rightarrow> pd_eku p # (if pd_ca_companion_eku p \<noteq> [] then [pd_ca_companion_eku p] else [])) (ca_profiles ca))"

definition signing_ca_extensions ::
  "config \<Rightarrow> signing_ca \<Rightarrow> certificate \<Rightarrow> string \<Rightarrow> string \<Rightarrow> extensions" where
  "signing_ca_extensions c ca root root_slug kid =
     (let ext = ca_extensions kid (Some 0) (Some root);
          ext = add_new ext False (Ext_Key_Usage (signing_ca_ekus ca));
          ext = (if ca_permitted_dns ca \<noteq> [] \<or> ca_permitted_email ca \<noteq> []
                 then add_new ext True (Name_Constraints (ca_permitted_dns ca) (ca_permitted_email ca)) else ext)
      in add_signing_pointer_extensions ext c ca root_slug)"

section \<open>What the extension lists hold\<close>

lemma add_new_fresh:
  "ext_oid e \<notin> ext_oid ` snd ` set ext \<Longrightarrow> add_new ext cr e = ext @ [(cr, e)]"
  by (auto simp: add_new_def list_ex_iff image_iff)

lemma policies_extension:
  "add_policies ext oids = ext @ (if oids = [] then [] else [(False, Cert_Policies oids)])"
  if "32 \<notin> ext_oid ` snd ` set ext"
  using that by (simp add: add_policies_def add_new_fresh ext_oid_def)

text \<open>No extension is ever dropped by the duplicate rule: the lists are what the calls say.\<close>

lemma ee_extensions_list:
  "ee_extensions c ca prof issuer sl kid san =
    [(True, Basic_Constraints False None), (True, Key_Usage (ee_constraints prof)),
     (False, Ext_Key_Usage [pd_eku prof]), (False, Authority_Key_ID (ski_of issuer)),
     (False, Subject_Key_ID kid), (False, Subject_Alt_Name san),
     (False, Authority_Info [base_url c @ ''/'' @ sl @ ''.crt'']),
     (False, CRL_Points [base_url c @ ''/'' @ sl @ ''.crl''])] @
    (case map_of (ca_policies_map ca) (pd_name prof) of
       Some (oid # oids) \<Rightarrow> [(False, Cert_Policies (oid # oids))] | _ \<Rightarrow> [])"
  by (simp add: ee_extensions_def add_ee_pointer_extensions_def Let_def add_new_fresh ext_oid_def add_policies_def
      split: option.splits list.splits)

lemma signing_ca_extensions_list:
  "signing_ca_extensions c ca root sl kid =
    [(True, Basic_Constraints True (Some 0)), (True, Key_Usage (kKeyCertSign OR kCrlSign)),
     (False, Authority_Key_ID (ski_of root)), (False, Subject_Key_ID kid),
     (False, Ext_Key_Usage (signing_ca_ekus ca))] @
    (if ca_permitted_dns ca \<noteq> [] \<or> ca_permitted_email ca \<noteq> []
     then [(True, Name_Constraints (ca_permitted_dns ca) (ca_permitted_email ca))] else []) @
    [(False, Authority_Info [base_url c @ ''/'' @ sl @ ''.crt'']),
     (False, CRL_Points [base_url c @ ''/'' @ sl @ ''.crl''])] @
    (if ca_policies ca = [] then [] else [(False, Cert_Policies (ca_policies ca))])"
  by (simp add: signing_ca_extensions_def ca_extensions_def add_signing_pointer_extensions_def Let_def
      add_new_fresh ext_oid_def add_policies_def)

lemma ca_policies_inner:
  "set (foldl (\<lambda>out oid. if oid \<in> set out then out else out @ [oid]) out oids) = set out \<union> set oids"
  by (induction oids arbitrary: out) auto

lemma ca_policies_set:
  "set (ca_policies ca) = (\<Union>p \<in> set (ca_profiles ca). case map_of (ca_policies_map ca) p of
     None \<Rightarrow> {} | Some oids \<Rightarrow> set oids)"
proof -
  have "set (foldl (\<lambda>out p. case map_of (ca_policies_map ca) p of None \<Rightarrow> out
        | Some oids \<Rightarrow> foldl (\<lambda>out oid. if oid \<in> set out then out else out @ [oid]) out oids) out ps) =
      set out \<union> (\<Union>p \<in> set ps. case map_of (ca_policies_map ca) p of None \<Rightarrow> {} | Some oids \<Rightarrow> set oids)" for out ps
    by (induction ps arbitrary: out) (auto simp: ca_policies_inner split: option.splits)
  then show ?thesis by (simp add: ca_policies_def)
qed

definition ekus_of :: "extensions \<Rightarrow> string set" where
  "ekus_of ext = \<Union> {set os | os cr. (cr, Ext_Key_Usage os) \<in> set ext}"

definition policies_of :: "extensions \<Rightarrow> string set" where
  "policies_of ext = \<Union> {set os | os cr. (cr, Cert_Policies os) \<in> set ext}"

text \<open>C29. A leaf never asks for more than its issuer may give: under the CA that lists the profile, the
  extended key usages and the policies of the leaf are among those of the CA certificate, and the CA
  certificate carries the usages of its profiles with their companions and no other.\<close>

theorem leaf_within_ca:
  "profile_find nm = Some prof \<Longrightarrow> nm \<in> set (ca_profiles ca) \<Longrightarrow>
   ekus_of (ee_extensions c ca prof issuer sl kid san) \<subseteq> ekus_of (signing_ca_extensions c ca root rsl rkid) \<and>
   policies_of (ee_extensions c ca prof issuer sl kid san) \<subseteq> policies_of (signing_ca_extensions c ca root rsl rkid) \<and>
   ekus_of (signing_ca_extensions c ca root rsl rkid) =
     (\<Union>p \<in> {p. \<exists>nm \<in> set (ca_profiles ca). profile_find nm = Some p}. {pd_eku p, pd_ca_companion_eku p} - {[]})"
proof -
  assume nm: "profile_find nm = Some prof" "nm \<in> set (ca_profiles ca)"
  have eku_ne: "pd_eku p \<noteq> []" if "profile_find nm = Some p" for nm p
    using profile_find_Some [OF that] by (auto simp: kDefs_def)
  have ca_ekus: "ekus_of (signing_ca_extensions c ca root rsl rkid) = set (signing_ca_ekus ca)"
    by (auto simp: ekus_of_def signing_ca_extensions_list)
  have all: "set (signing_ca_ekus ca) =
      (\<Union>p \<in> {p. \<exists>nm \<in> set (ca_profiles ca). profile_find nm = Some p}. {pd_eku p, pd_ca_companion_eku p} - {[]})"
  proof -
    have "set (case profile_find nm of None \<Rightarrow> [] | Some p \<Rightarrow> pd_eku p #
          (if pd_ca_companion_eku p \<noteq> [] then [pd_ca_companion_eku p] else [])) =
        (\<Union>p \<in> {p. profile_find nm = Some p}. {pd_eku p, pd_ca_companion_eku p} - {[]})" for nm
      using eku_ne [of nm] by (cases "profile_find nm") auto
    then show ?thesis unfolding signing_ca_ekus_def set_concat set_map image_image by auto
  qed
  have "ekus_of (ee_extensions c ca prof issuer sl kid san) = {pd_eku prof}"
    by (auto simp: ekus_of_def ee_extensions_list split: option.splits list.splits)
  moreover have "pd_eku prof \<in> set (signing_ca_ekus ca)"
    unfolding all using nm eku_ne [OF nm(1)] by blast
  moreover have "policies_of (signing_ca_extensions c ca root rsl rkid) = set (ca_policies ca)"
    by (auto simp: policies_of_def signing_ca_extensions_list)
  moreover have "policies_of (ee_extensions c ca prof issuer sl kid san) \<subseteq>
      (case map_of (ca_policies_map ca) nm of None \<Rightarrow> {} | Some oids \<Rightarrow> set oids)"
    using profile_find_Some [OF nm(1)]
    by (auto simp: policies_of_def ee_extensions_list split: option.splits list.splits)
  moreover have "(case map_of (ca_policies_map ca) nm of None \<Rightarrow> {} | Some oids \<Rightarrow> set oids) \<subseteq> set (ca_policies ca)"
    using nm(2) by (auto simp: ca_policies_set)
  ultimately show ?thesis using ca_ekus all by auto
qed

definition sample_mail_ca :: signing_ca where
  "sample_mail_ca = (empty_signing_ca ''mail'')\<lparr>ca_profiles := [''email''],
     ca_policies_map := [(''email'', [''1.3.6.1.4.1.1.2''])]\<rparr>"

theorem leaf_within_ca_witness:
  "\<exists>prof iss san. profile_find ''email'' = Some prof \<and> san = [Email ''a@b.example''] \<and>
     ekus_of (ee_extensions sample_config sample_mail_ca prof iss ''ca-e1'' ''K'' san) \<subseteq>
       ekus_of (signing_ca_extensions sample_config sample_mail_ca iss ''root-e1'' ''R'')"
proof -
  have "''email'' \<in> set (ca_profiles sample_mail_ca)"
    by (simp add: sample_mail_ca_def)
  moreover have "profile_find ''email'' \<noteq> None"
    by (simp add: profile_find_def kDefs_def)
  then obtain prof where prof: "profile_find ''email'' = Some prof" by blast
  ultimately have "ekus_of (ee_extensions sample_config sample_mail_ca prof iss ''ca-e1'' ''K'' san) \<subseteq>
       ekus_of (signing_ca_extensions sample_config sample_mail_ca iss ''root-e1'' ''R'')" for iss san
    by (intro leaf_within_ca [THEN conjunct1])
  with prof show ?thesis by blast
qed

end
