(* ===== verification/Der.thy ===== *)
theory Der
  imports X509
begin

text \<open>
  The nameConstraints encoder of \<^verbatim>\<open>src/x509ext.cpp\<close>, byte for byte. Botan's
  \<^verbatim>\<open>DER_Encoder\<close> writes tag, definite length and contents; a nested structure is
  written when it is closed. A decoder for the same grammar gives the round trip.
\<close>

section \<open>Bytes and lengths\<close>

type_synonym byte = "8 word"

definition byte :: "nat \<Rightarrow> byte" where
  "byte n = of_nat n"

lemma unat_byte [simp]: "n < 256 \<Longrightarrow> unat (byte n) = n"
  by (simp add: byte_def unat_of_nat)

definition char_byte :: "char \<Rightarrow> byte" where
  "char_byte c = byte (of_char c)"

definition byte_char :: "byte \<Rightarrow> char" where
  "byte_char b = char_of (unat b)"

lemma byte_char_byte [simp]: "byte_char (char_byte c) = c"
proof -
  have "(of_char c :: nat) < 256" using nat_of_char_less_256 by simp
  then show ?thesis by (simp add: byte_char_def char_byte_def)
qed

text \<open>Base-256 digits, most significant first.\<close>

fun be_bytes :: "nat \<Rightarrow> byte list" where
  "be_bytes n = (if n < 256 then [byte n] else be_bytes (n div 256) @ [byte (n mod 256)])"

declare be_bytes.simps [simp del]

definition be_value :: "byte list \<Rightarrow> nat" where
  "be_value bs = foldl (\<lambda>v b. v * 256 + unat b) 0 bs"

lemma be_value_snoc: "be_value (bs @ [b]) = be_value bs * 256 + unat b"
  by (simp add: be_value_def)

lemma be_value_bytes [simp]: "be_value (be_bytes n) = n"
proof (induction n rule: be_bytes.induct)
  case (1 n)
  show ?case
  proof (cases "n < 256")
    case True
    then show ?thesis by (simp add: be_bytes.simps be_value_def)
  next
    case False
    with 1 show ?thesis by (subst be_bytes.simps) (simp add: be_value_snoc)
  qed
qed

lemma be_bytes_length: "n < 256 ^ k \<Longrightarrow> 0 < k \<Longrightarrow> length (be_bytes n) \<le> k"
proof (induction k arbitrary: n)
  case 0
  then show ?case by simp
next
  case (Suc k)
  show ?case
  proof (cases "n < 256")
    case True
    then show ?thesis by (simp add: be_bytes.simps)
  next
    case False
    with Suc.prems have "0 < k" "n div 256 < 256 ^ k" by (cases k; simp add: less_mult_imp_div_less mult.commute)+
    with Suc.IH [of "n div 256"] False show ?thesis by (subst be_bytes.simps) simp
  qed
qed

lemma be_bytes_not_Nil [simp]: "be_bytes n \<noteq> []"
  by (subst be_bytes.simps) simp

section \<open>Encoding\<close>

definition der_length :: "nat \<Rightarrow> byte list" where
  "der_length n =
     (if n < 128 then [byte n]
      else byte (128 + length (be_bytes n)) # be_bytes n)"

definition der_tlv :: "byte \<Rightarrow> byte list \<Rightarrow> byte list" where
  "der_tlv tag body = tag # der_length (length body) @ body"

text \<open>The tag octets: SEQUENCE, context [0] constructed, and the two primitive context tags of
  \<^verbatim>\<open>GeneralName\<close>.\<close>

definition kSequence :: byte where "kSequence = 0x30"

definition kPermitted :: byte where "kPermitted = 0xA0"

definition kContextSpecific :: byte where "kContextSpecific = 0x80"

definition kRfc822Name :: byte where "kRfc822Name = 1"

definition kDnsName :: byte where "kDnsName = 2"

definition encode_subtree :: "byte \<Rightarrow> string \<Rightarrow> byte list" where
  "encode_subtree tag nm = der_tlv kSequence (der_tlv (kContextSpecific OR tag) (map char_byte nm))"

definition encode_inner :: "string list \<Rightarrow> string list \<Rightarrow> byte list" where
  "encode_inner dns email =
     der_tlv kSequence (der_tlv kPermitted
       (concat (map (encode_subtree kDnsName) dns) @ concat (map (encode_subtree kRfc822Name) email)))"

text \<open>\<^verbatim>\<open>should_encode\<close>: an extension with no subtree is left out.\<close>

definition should_encode :: "string list \<Rightarrow> string list \<Rightarrow> bool" where
  "should_encode dns email \<longleftrightarrow> \<not> (dns = [] \<and> email = [])"

section \<open>Decoding\<close>

text \<open>A definite length and the bytes after it.\<close>

definition take_length :: "byte list \<Rightarrow> (nat \<times> byte list) option" where
  "take_length bs =
     (case bs of [] \<Rightarrow> None
      | b # rest \<Rightarrow>
          if unat b < 128 then Some (unat b, rest)
          else let k = unat b - 128 in
            if k = 0 \<or> length rest < k then None
            else Some (be_value (take k rest), drop k rest))"

definition take_tlv :: "byte list \<Rightarrow> (byte \<times> byte list \<times> byte list) option" where
  "take_tlv bs =
     (case bs of [] \<Rightarrow> None
      | tag # rest \<Rightarrow>
          (case take_length rest of None \<Rightarrow> None
           | Some (n, rest') \<Rightarrow>
               if length rest' < n then None else Some (tag, take n rest', drop n rest')))"

lemma take_length_shorter: "take_length bs = Some (n, rest) \<Longrightarrow> length rest < length bs"
  by (auto simp: take_length_def Let_def split: list.splits if_splits)

lemma take_tlv_shorter: "take_tlv bs = Some (tag, body, rest) \<Longrightarrow> length rest < length bs"
  by (auto simp: take_tlv_def split: list.splits option.splits if_splits dest!: take_length_shorter)

text \<open>The decoder has the tags of the standards, not those of the encoder: SEQUENCE is 0x30,
  permittedSubtrees is 0xA0 (context tag 0, constructed), and of the primitive context tags of
  \<^verbatim>\<open>GeneralName\<close> rfc822Name is 1 and dNSName is 2.\<close>

datatype general_name = Rfc822 string | Dns_name string

function decode_subtrees :: "byte list \<Rightarrow> general_name list option" where
  "decode_subtrees bs =
     (if bs = [] then Some []
      else case take_tlv bs of None \<Rightarrow> None
        | Some (tag, body, rest) \<Rightarrow>
            (case (if tag = 0x30 then take_tlv body else None) of None \<Rightarrow> None
             | Some (t, nm, extra) \<Rightarrow>
                 let name = map byte_char nm;
                     g = (if extra \<noteq> [] then None
                          else if t = 0x81 then Some (Rfc822 name)
                          else if t = 0x82 then Some (Dns_name name)
                          else None)
                 in case g of None \<Rightarrow> None | Some g \<Rightarrow> map_option ((#) g) (decode_subtrees rest)))"
  by pat_completeness auto
termination by (relation "measure length") (auto dest: take_tlv_shorter)

declare decode_subtrees.simps [simp del]

definition decode_constraints :: "byte list \<Rightarrow> general_name list option" where
  "decode_constraints bs =
     (case take_tlv bs of
        Some (tag, body, []) \<Rightarrow>
          if tag \<noteq> 0x30 then None
          else (case take_tlv body of
              Some (tag', body', []) \<Rightarrow> if tag' \<noteq> 0xA0 then None else decode_subtrees body'
            | _ \<Rightarrow> None)
      | _ \<Rightarrow> None)"

section \<open>The round trip\<close>

lemma take_length_der [simp]:
  assumes "n < 256 ^ 126"
  shows "take_length (der_length n @ rest) = Some (n, rest)"
proof (cases "n < 128")
  case True
  then show ?thesis by (simp add: der_length_def take_length_def)
next
  case False
  have "length (be_bytes n) \<le> 126" by (rule be_bytes_length [OF assms]) simp
  moreover have "be_bytes n \<noteq> []" by simp
  ultimately show ?thesis using False by (simp add: der_length_def take_length_def Let_def)
qed

lemma take_tlv_der [simp]:
  "length body < 256 ^ 126 \<Longrightarrow> take_tlv (der_tlv tag body @ rest) = Some (tag, body, rest)"
  by (simp add: take_tlv_def der_tlv_def)

lemma take_tlv_der_end [simp]:
  "length body < 256 ^ 126 \<Longrightarrow> take_tlv (der_tlv tag body) = Some (tag, body, [])"
  using take_tlv_der [of body tag "[]"] by simp

lemma der_tlv_length: "length body < length (der_tlv tag body)"
  by (simp add: der_tlv_def)

lemma der_tlv_not_Nil [simp]: "der_tlv tag body \<noteq> []"
  by (simp add: der_tlv_def)

lemma byte_tags:
  "kSequence = 0x30" "kPermitted = 0xA0" "kContextSpecific OR kRfc822Name = 0x81" "kContextSpecific OR kDnsName = 0x82"
  by (simp_all add: kSequence_def kPermitted_def kContextSpecific_def kDnsName_def kRfc822Name_def)

lemma decode_subtree_dns:
  "length (encode_subtree kDnsName nm) < 256 ^ 126 \<Longrightarrow>
   decode_subtrees (encode_subtree kDnsName nm @ rest) = map_option ((#) (Dns_name nm)) (decode_subtrees rest)"
proof -
  let ?inner = "der_tlv (kContextSpecific OR kDnsName) (map char_byte nm)"
  assume "length (encode_subtree kDnsName nm) < 256 ^ 126"
  then have "length ?inner < 256 ^ 126" "length (map char_byte nm) < 256 ^ 126"
    using der_tlv_length [of ?inner kSequence] der_tlv_length [of "map char_byte nm"]
    unfolding encode_subtree_def by (meson less_trans)+
  then show ?thesis
    by (subst decode_subtrees.simps) (simp add: encode_subtree_def byte_tags comp_def)
qed

lemma decode_subtree_email:
  "length (encode_subtree kRfc822Name nm) < 256 ^ 126 \<Longrightarrow>
   decode_subtrees (encode_subtree kRfc822Name nm @ rest) = map_option ((#) (Rfc822 nm)) (decode_subtrees rest)"
proof -
  let ?inner = "der_tlv (kContextSpecific OR kRfc822Name) (map char_byte nm)"
  assume "length (encode_subtree kRfc822Name nm) < 256 ^ 126"
  then have "length ?inner < 256 ^ 126" "length (map char_byte nm) < 256 ^ 126"
    using der_tlv_length [of ?inner kSequence] der_tlv_length [of "map char_byte nm"]
    unfolding encode_subtree_def by (meson less_trans)+
  then show ?thesis
    by (subst decode_subtrees.simps) (simp add: encode_subtree_def byte_tags comp_def)
qed

lemma decode_email_list:
  "length (concat (map (encode_subtree kRfc822Name) email)) < 256 ^ 126 \<Longrightarrow>
   decode_subtrees (concat (map (encode_subtree kRfc822Name) email)) = Some (map Rfc822 email)"
  by (induction email) (simp_all add: decode_subtree_email decode_subtrees.simps [of "[]"])

lemma decode_name_list:
  "length (concat (map (encode_subtree kDnsName) dns)) < 256 ^ 126 \<Longrightarrow>
   length (concat (map (encode_subtree kRfc822Name) email)) < 256 ^ 126 \<Longrightarrow>
   decode_subtrees (concat (map (encode_subtree kDnsName) dns) @ concat (map (encode_subtree kRfc822Name) email)) =
     Some (map Dns_name dns @ map Rfc822 email)"
  by (induction dns) (simp_all add: decode_email_list decode_subtree_dns)

text \<open>C30. The constraints put into a CA certificate are the ones configured: decoding the bytes gives
  back every DNS subtree (tag 2) and every mail subtree (tag 1), in order, whatever
  the lengths of the names (the length octets switch to the long form at 128 bytes), for any encoding
  shorter than 2^64 bytes.\<close>

theorem name_constraints_roundtrip:
  "length (encode_inner dns email) < 2 ^ 64 \<Longrightarrow>
   decode_constraints (encode_inner dns email) = Some (map Dns_name dns @ map Rfc822 email)"
proof -
  let ?names = "concat (map (encode_subtree kDnsName) dns) @ concat (map (encode_subtree kRfc822Name) email)"
  let ?inner = "der_tlv kPermitted ?names"
  assume small: "length (encode_inner dns email) < 2 ^ 64"
  have big: "(2 :: nat) ^ 64 < 256 ^ 126" by simp
  have "length ?names < length ?inner" "length ?inner < length (encode_inner dns email)"
    unfolding encode_inner_def by (rule der_tlv_length)+
  with small big have len: "length ?names < 256 ^ 126" "length ?inner < 256 ^ 126"
    by (meson less_trans)+
  then have "decode_subtrees ?names = Some (map Dns_name dns @ map Rfc822 email)"
    by (intro decode_name_list) simp_all
  with len show ?thesis by (simp add: decode_constraints_def encode_inner_def byte_tags)
qed

theorem name_constraints_roundtrip_witness:
  "decode_constraints (encode_inner [''example.ca''] [''.example.ca'']) =
     Some [Dns_name ''example.ca'', Rfc822 ''.example.ca''] \<and>
   take 6 (encode_inner [''example.ca''] [''.example.ca'']) = [0x30, 0x1F, 0xA0, 0x1D, 0x30, 0x0C]"
proof -
  have "length (encode_inner [''example.ca''] [''.example.ca'']) < 2 ^ 64" by code_simp
  moreover have "take 6 (encode_inner [''example.ca''] [''.example.ca'']) = [0x30, 0x1F, 0xA0, 0x1D, 0x30, 0x0C]"
    by code_simp
  ultimately show ?thesis
    using name_constraints_roundtrip [of "[''example.ca'']" "[''.example.ca'']"] by simp
qed

end
