(* ===== verification/Keys.thy ===== *)
theory Keys
  imports X509
begin

text \<open>
  Where a CA key lives and how an operation gets at it: the token sessions of
  \<^verbatim>\<open>src/p11.cpp\<close>, the certificate and key tables Botan keeps in the store, and the
  per-backend functions of \<^verbatim>\<open>src/ca.cpp\<close> (\<^verbatim>\<open>CaSpec\<close>,
  \<^verbatim>\<open>ca_secret\<close>, \<^verbatim>\<open>ca_key\<close>, \<^verbatim>\<open>make_ca_key\<close>). A private key is named by
  its public half.
\<close>

section \<open>Tokens\<close>

record p11_object =
  o_label :: string
  o_private :: bool
  o_curve :: string
  o_key :: string

record token =
  tk_info_label :: string
  tk_pin :: string
  tk_objects :: "p11_object list"

datatype p11_error =
    Module_conflict string string
  | No_token string nat
  | Login_failed
  | Objects_mismatch string nat nat
  | Wrong_curve string string
  | Bad_point string
  | Session_read_only

text \<open>The info label is a field of 32 bytes padded with blanks; reading it drops every blank at the
  end.\<close>

definition token_label :: "string \<Rightarrow> string" where
  "token_label info = rev (dropWhile (\<lambda>c. c = CHR '' '') (rev info))"

definition pad_label :: "string \<Rightarrow> string" where
  "pad_label s = take p11_token_label_max (s @ replicate p11_token_label_max CHR '' '')"

text \<open>\<^verbatim>\<open>shared_module\<close>: one module is loaded while any session lives.\<close>

definition shared_module :: "string option \<Rightarrow> string \<Rightarrow> p11_error + string option" where
  "shared_module cached path =
     (case cached of
        Some p \<Rightarrow> if p \<noteq> path then Inl (Module_conflict p path) else Inr (Some p)
      | None \<Rightarrow> Inr (Some path))"

fun find_slot :: "nat \<Rightarrow> token list \<Rightarrow> string \<Rightarrow> nat option" where
  "find_slot i [] label = None"
| "find_slot i (t # ts) label =
     (if token_label (tk_info_label t) = label then Some i else find_slot (Suc i) ts label)"

record session =
  se_slot :: nat
  se_read_write :: bool

definition open_session :: "token list \<Rightarrow> string \<Rightarrow> string \<Rightarrow> bool \<Rightarrow> p11_error + session" where
  "open_session slots label pin read_write =
     (case find_slot 0 slots label of
        None \<Rightarrow> Inl (No_token label (length slots))
      | Some i \<Rightarrow>
          if pin \<noteq> tk_pin (slots ! i) then Inl Login_failed
          else Inr \<lparr>se_slot = i, se_read_write = read_write\<rparr>)"

definition find_keypair :: "token \<Rightarrow> string \<Rightarrow> string \<Rightarrow> p11_error + string option" where
  "find_keypair t label curve =
     (let privs = filter (\<lambda>ob. o_private ob \<and> o_label ob = label) (tk_objects t);
          pubs = filter (\<lambda>ob. \<not> o_private ob \<and> o_label ob = label) (tk_objects t)
      in if privs = [] \<and> pubs = [] then Inr None
         else if length privs \<noteq> 1 \<or> length pubs \<noteq> 1
           then Inl (Objects_mismatch label (length privs) (length pubs))
         else if o_curve (hd privs) \<noteq> curve then Inl (Wrong_curve label curve)
         else if o_curve (hd pubs) \<noteq> curve then Inl (Bad_point label)
         else Inr (Some (o_key (hd pubs))))"

text \<open>The token makes the pair; \<open>fresh\<close> is the key it comes up with.\<close>

definition generate_keypair ::
  "bool \<Rightarrow> token \<Rightarrow> string \<Rightarrow> string \<Rightarrow> string \<Rightarrow> p11_error + string \<times> token" where
  "generate_keypair read_write t label curve fresh =
     (if \<not> read_write then Inl Session_read_only
      else Inr (fresh, t\<lparr>tk_objects := tk_objects t @
             [\<lparr>o_label = label, o_private = False, o_curve = curve, o_key = fresh\<rparr>,
              \<lparr>o_label = label, o_private = True, o_curve = curve, o_key = fresh\<rparr>]\<rparr>))"

text \<open>Adopt or generate.\<close>

definition token_ca_key ::
  "bool \<Rightarrow> token \<Rightarrow> string \<Rightarrow> string \<Rightarrow> string \<Rightarrow> p11_error + string \<times> token" where
  "token_ca_key read_write t label curve fresh =
     (case find_keypair t label curve of
        Inl e \<Rightarrow> Inl e
      | Inr (Some key) \<Rightarrow> Inr (key, t)
      | Inr None \<Rightarrow> generate_keypair read_write t label curve fresh)"

text \<open>A CA key is generated on its token at most once: when the token holds nothing under the label,
  the first run generates a keypair and every later run with the same label and curve adopts that very
  key and leaves the token alone; a token that holds half a pair, several pairs or a key on another
  curve is refused unchanged.\<close>

theorem token_ca_key_adopts:
  "token_ca_key rw t label curve fresh = Inr (key, t') \<Longrightarrow>
   find_keypair t' label curve = Inr (Some key) \<and>
   token_ca_key rw' t' label curve fresh' = Inr (key, t') \<and>
   (t' = t \<longleftrightarrow> find_keypair t label curve \<noteq> Inr None) \<and>
   (\<forall>l c. l \<noteq> label \<longrightarrow> find_keypair t' l c = find_keypair t l c)"
proof -
  assume run: "token_ca_key rw t label curve fresh = Inr (key, t')"
  show ?thesis
  proof (cases "find_keypair t label curve = Inr None")
    case True
    with run have t': "t' = t\<lparr>tk_objects := tk_objects t @
             [\<lparr>o_label = label, o_private = False, o_curve = curve, o_key = fresh\<rparr>,
              \<lparr>o_label = label, o_private = True, o_curve = curve, o_key = fresh\<rparr>]\<rparr>" and key: "key = fresh"
      by (auto simp: token_ca_key_def generate_keypair_def split: if_splits)
    from True have "filter (\<lambda>ob. o_private ob \<and> o_label ob = label) (tk_objects t) = []"
        "filter (\<lambda>ob. \<not> o_private ob \<and> o_label ob = label) (tk_objects t) = []"
      by (auto simp: find_keypair_def Let_def split: if_splits)
    then have found: "find_keypair t' label curve = Inr (Some key)"
      by (simp add: find_keypair_def t' key Let_def)
    moreover have "tk_objects t' \<noteq> tk_objects t" by (simp add: t')
    then have "t' \<noteq> t" by auto
    moreover have "find_keypair t' l c = find_keypair t l c" if "l \<noteq> label" for l c
      using that by (simp add: find_keypair_def t' Let_def)
    ultimately show ?thesis using True by (simp add: token_ca_key_def)
  next
    case False
    with run have "find_keypair t label curve = Inr (Some key)" "t' = t"
      by (auto simp: token_ca_key_def split: sum.splits option.splits)
    then show ?thesis by (simp add: token_ca_key_def)
  qed
qed

definition sample_token :: token where
  "sample_token = \<lparr>tk_info_label = pad_label ''hsm'', tk_pin = ''1234'', tk_objects = []\<rparr>"

theorem token_ca_key_adopts_witness:
  "\<exists>t. token_ca_key True sample_token ''ca-e1'' ''secp384r1'' ''k1'' = Inr (''k1'', t) \<and>
     token_ca_key False t ''ca-e1'' ''secp384r1'' ''k2'' = Inr (''k1'', t)"
proof -
  have "find_keypair sample_token ''ca-e1'' ''secp384r1'' = Inr None" by code_simp
  then obtain t where "token_ca_key True sample_token ''ca-e1'' ''secp384r1'' ''k1'' = Inr (''k1'', t)"
    by (simp add: token_ca_key_def generate_keypair_def)
  from token_ca_key_adopts [OF this, of False "''k2''"] this show ?thesis by blast
qed

lemma token_label_pad:
  "length s \<le> p11_token_label_max \<Longrightarrow> token_label (pad_label s) = token_label s"
proof -
  assume len: "length s \<le> p11_token_label_max"
  have "dropWhile (\<lambda>c. c = CHR '' '') (replicate n CHR '' '' @ xs) = dropWhile (\<lambda>c. c = CHR '' '') xs"
    for n xs by (induction n) auto
  moreover have "pad_label s = s @ replicate (p11_token_label_max - length s) CHR '' ''"
    using len by (simp add: pad_label_def)
  ultimately show ?thesis by (simp add: token_label_def)
qed

lemma token_label_id: "token_label s = s \<longleftrightarrow> s = [] \<or> last s \<noteq> CHR '' ''"
proof (cases s rule: rev_cases)
  case Nil
  then show ?thesis by (simp add: token_label_def)
next
  case (snoc cs c)
  have "length (dropWhile P xs) \<le> length xs" for P and xs :: string by (rule length_dropWhile_le)
  then have "dropWhile (\<lambda>c. c = CHR '' '') (rev cs) \<noteq> c # rev cs"
    by (metis impossible_Cons)
  with snoc show ?thesis by (auto simp: token_label_def rev_swap)
qed

text \<open>A token carries the label a configuration accepts for it, and is found under it, exactly when that
  label does not end in a blank: the configuration checks the length only, and a label with a trailing
  blank is padded into one that reads back differently.\<close>

theorem configured_label_matches:
  "label_ok ca \<Longrightarrow> ca_key_backend ca = ''pkcs11'' \<Longrightarrow>
   find_slot 0 [\<lparr>tk_info_label = pad_label (ca_token_label ca), tk_pin = pin, tk_objects = obs\<rparr>]
       (ca_token_label ca) = Some 0 \<longleftrightarrow> last (ca_token_label ca) \<noteq> CHR '' ''"
  using token_label_pad [of "ca_token_label ca"] token_label_id [of "ca_token_label ca"]
  by (auto simp: label_ok_def)

theorem configured_label_matches_witness:
  "find_slot 0 [\<lparr>tk_info_label = pad_label ''hsm'', tk_pin = ''1234'', tk_objects = []\<rparr>] ''hsm'' = Some 0 \<and>
   find_slot 0 [\<lparr>tk_info_label = pad_label ''hsm '', tk_pin = ''1234'', tk_objects = []\<rparr>] ''hsm '' \<noteq> Some 0"
  using configured_label_matches [of "empty_ca_fields\<lparr>ca_key_backend := ''pkcs11'', ca_token_label := ''hsm''\<rparr>" "''1234''" "[]"]
    configured_label_matches [of "empty_ca_fields\<lparr>ca_key_backend := ''pkcs11'', ca_token_label := ''hsm ''\<rparr>" "''1234''" "[]"]
  by (simp add: label_ok_def p11_token_label_max_def)

section \<open>Botan's certificate and key tables\<close>

text \<open>\<^verbatim>\<open>Certificate_Store_In_SQL\<close> as it is documented: a row per certificate with the
  fingerprint of its private key if one was inserted, and the encrypted keys. Inserting a certificate
  replaces its row and with it the reference to the key; revoking a certificate inserts it
  first.\<close>

record cert_store =
  cs_certs :: "string \<rightharpoonup> certificate \<times> string option"
  cs_keys :: "string \<rightharpoonup> string"
  cs_revoked :: "string \<rightharpoonup> nat"

datatype key_result = Key string | No_key | Key_refused

definition insert_cert :: "certificate \<Rightarrow> cert_store \<Rightarrow> cert_store" where
  "insert_cert c s = s\<lparr>cs_certs := (cs_certs s)(x_fp c \<mapsto> (c, None))\<rparr>"

definition insert_key :: "string \<Rightarrow> certificate \<Rightarrow> string \<Rightarrow> cert_store \<Rightarrow> cert_store" where
  "insert_key passphrase c key s =
     s\<lparr>cs_certs := (cs_certs s)(x_fp c \<mapsto> (c, Some key)), cs_keys := (cs_keys s)(key \<mapsto> passphrase)\<rparr>"

definition store_revoke_cert :: "certificate \<Rightarrow> nat \<Rightarrow> cert_store \<Rightarrow> cert_store" where
  "store_revoke_cert c code s =
     (insert_cert c s)\<lparr>cs_revoked := (cs_revoked s)(x_fp c \<mapsto> code)\<rparr>"

definition find_key :: "string \<Rightarrow> certificate \<Rightarrow> cert_store \<Rightarrow> key_result" where
  "find_key passphrase c s =
     (case cs_certs s (x_fp c) of
        Some (_, Some key) \<Rightarrow>
          (case cs_keys s key of
             None \<Rightarrow> No_key
           | Some p \<Rightarrow> if p = passphrase then Key key else Key_refused)
      | _ \<Rightarrow> No_key)"

definition load_cert :: "cert_store \<Rightarrow> string \<Rightarrow> certificate option" where
  "load_cert s fp = map_option fst (cs_certs s fp)"

text \<open>The interface the operations rely on.\<close>

locale key_store =
  fixes put_cert :: "certificate \<Rightarrow> 's \<Rightarrow> 's"
    and put_key :: "string \<Rightarrow> certificate \<Rightarrow> string \<Rightarrow> 's \<Rightarrow> 's"
    and get_cert :: "'s \<Rightarrow> string \<Rightarrow> certificate option"
    and get_key :: "string \<Rightarrow> certificate \<Rightarrow> 's \<Rightarrow> key_result"
  assumes get_put_cert: "get_cert (put_cert c s) fp = (if fp = x_fp c then Some c else get_cert s fp)"
    and get_put_key: "get_cert (put_key p c k s) fp = (if fp = x_fp c then Some c else get_cert s fp)"
    and key_put_cert: "get_key p d (put_cert c s) = (if x_fp d = x_fp c then No_key else get_key p d s)"
    and key_put_key_same: "x_fp d = x_fp c \<Longrightarrow>
      get_key p' d (put_key p c k s) = (if p' = p then Key k else Key_refused)"
    and key_put_key_other: "x_fp d \<noteq> x_fp c \<Longrightarrow> get_key p d s = Key k' \<Longrightarrow> k' \<noteq> k \<Longrightarrow>
      get_key p d (put_key p' c k s) = Key k'"
begin

text \<open>A ceremony stores the certificate and then its key; the key is found with the passphrase it was
  stored under and with no other, and storing further certificates does not disturb it.\<close>

lemma ceremony_key:
  "get_key p' c (put_key p c k (put_cert c s)) = (if p' = p then Key k else Key_refused)"
  by (rule key_put_key_same) simp

lemma later_certs:
  "x_fp c \<notin> x_fp ` set ds \<Longrightarrow> get_key p c (foldl (\<lambda>s d. put_cert d s) s ds) = get_key p c s"
proof (induction ds arbitrary: s)
  case Nil
  then show ?case by simp
next
  case (Cons d ds)
  then show ?case by (simp add: key_put_cert)
qed

lemma certs_kept:
  "get_cert s fp = Some c \<Longrightarrow> \<forall>d \<in> set ds. x_fp d = fp \<longrightarrow> d = c \<Longrightarrow>
   get_cert (foldl (\<lambda>s d. put_cert d s) s ds) fp = Some c"
  by (induction ds arbitrary: s) (auto simp: get_put_cert)

text \<open>Storing a certificate again loses the key, whoever stored it.\<close>

lemma stored_again: "get_key p c (put_cert c (put_key p c k s)) = No_key"
  by (simp add: key_put_cert)

end

interpretation ks: key_store insert_cert insert_key load_cert find_key
  by unfold_locales
    (auto simp: insert_cert_def insert_key_def load_cert_def find_key_def split: option.splits if_splits)

lemma load_cert_revoke:
  "load_cert (store_revoke_cert c code s) fp = (if fp = x_fp c then Some c else load_cert s fp)"
  using ks.get_put_cert [of c s fp] by (simp add: store_revoke_cert_def load_cert_def)

lemma find_key_revoke:
  "find_key p d (store_revoke_cert c code s) = (if x_fp d = x_fp c then No_key else find_key p d s)"
  by (auto simp: store_revoke_cert_def find_key_def insert_cert_def split: option.splits)

section \<open>The CAs and their secrets\<close>

record secrets =
  sec_passphrase :: string
  sec_pin :: string
  sec_root_pin :: string

record ca_spec =
  sp_purpose :: string
  sp_curve :: string
  sp_digest :: string
  sp_backend :: string
  sp_label :: string
  sp_root :: bool

definition root_spec :: "config \<Rightarrow> ca_spec" where
  "root_spec c = \<lparr>sp_purpose = ''root'', sp_curve = ca_curve (cfg_root c), sp_digest = ca_digest (cfg_root c),
     sp_backend = ca_key_backend (cfg_root c), sp_label = ca_token_label (cfg_root c), sp_root = True\<rparr>"

definition spec_of :: "signing_ca \<Rightarrow> ca_spec" where
  "spec_of ca = \<lparr>sp_purpose = ca_purpose ca, sp_curve = ca_curve ca, sp_digest = ca_digest ca,
     sp_backend = ca_key_backend ca, sp_label = ca_token_label ca, sp_root = False\<rparr>"

definition ca_secret :: "ca_spec \<Rightarrow> secrets \<Rightarrow> string" where
  "ca_secret ca s =
     (if sp_backend ca = ''pkcs11'' then (if sp_root ca then sec_root_pin s else sec_pin s)
      else sec_passphrase s)"

definition secret_env :: "ca_spec \<Rightarrow> string" where
  "secret_env ca =
     (if sp_backend ca \<noteq> ''pkcs11'' then passphrase_env
      else if sp_root ca then root_pin_env @ '' (or '' @ pin_env @ '')'' else pin_env)"

definition secret_word :: "ca_spec \<Rightarrow> string" where
  "secret_word ca = (if sp_backend ca = ''pkcs11'' then ''user PIN'' else ''passphrase'')"

definition secret_word_both :: "ca_spec \<Rightarrow> ca_spec \<Rightarrow> string" where
  "secret_word_both a b =
     (if sp_backend a = sp_backend b then secret_word a else ''passphrase or user PIN'')"

section \<open>Sessions and keys\<close>

text \<open>\<^verbatim>\<open>TokenSessions\<close>: one session per label, opened by whoever needs it
  first.\<close>

type_synonym sessions = "(string \<times> session) list"

definition open_token ::
  "config \<Rightarrow> secrets \<Rightarrow> token list \<Rightarrow> sessions \<Rightarrow> ca_spec \<Rightarrow> bool \<Rightarrow> p11_error + session \<times> sessions" where
  "open_token c secrets slots tokens ca read_write =
     (case map_of tokens (sp_label ca) of
        Some s \<Rightarrow> Inr (s, tokens)
      | None \<Rightarrow>
          rbind (shared_module (if tokens = [] then None else Some (p11_module (cfg_pkcs11 c)))
                   (p11_module (cfg_pkcs11 c))) (\<lambda>_.
          rbind (open_session slots (sp_label ca) (ca_secret ca secrets) read_write) (\<lambda>s.
            Inr (s, omap_emplace (sp_label ca) s tokens))))"

datatype key_error =
    Token_error p11_error
  | Key_not_on_token string
  | Wrong_passphrase

fun p11_res :: "p11_error + 'a \<Rightarrow> key_error + 'a" where
  "p11_res (Inl e) = Inl (Token_error e)"
| "p11_res (Inr x) = Inr x"

lemma p11_res_Inr [simp]: "p11_res r = Inr x \<longleftrightarrow> r = Inr x"
  by (cases r) simp_all

text \<open>The key of an existing CA; \<^term>\<open>None\<close> is the null pointer of a store that holds no key
  for the certificate.\<close>

definition ca_key ::
  "config \<Rightarrow> secrets \<Rightarrow> token list \<Rightarrow> cert_store \<Rightarrow> certificate \<Rightarrow> ca_spec \<Rightarrow> string \<Rightarrow> sessions
    \<Rightarrow> key_error + string option \<times> sessions" where
  "ca_key c secrets slots store cert ca sl tokens =
     (if sp_backend ca = ''pkcs11'' then
        rbind (p11_res (open_token c secrets slots tokens ca False)) (\<lambda>(s, tokens').
        rbind (p11_res (find_keypair (slots ! se_slot s) sl (sp_curve ca))) (\<lambda>k.
          case k of None \<Rightarrow> Inl (Key_not_on_token sl) | Some key \<Rightarrow> Inr (Some key, tokens')))
      else
        (case find_key (sec_passphrase secrets) cert store of
           Key k \<Rightarrow> Inr (Some k, tokens)
         | No_key \<Rightarrow> Inr (None, tokens)
         | Key_refused \<Rightarrow> Inl Wrong_passphrase))"

text \<open>The key of a CA being created. \<open>fresh\<close> is the key the generator or the token makes.\<close>

definition adopt_or_generate ::
  "config \<Rightarrow> secrets \<Rightarrow> token list \<Rightarrow> sessions \<Rightarrow> ca_spec \<Rightarrow> string \<Rightarrow> string
    \<Rightarrow> key_error + string \<times> token list \<times> sessions" where
  "adopt_or_generate c secrets slots tokens spec sl fresh =
     rbind (p11_res (open_token c secrets slots tokens spec True)) (\<lambda>(s, tokens').
     rbind (p11_res (token_ca_key (se_read_write s) (slots ! se_slot s) sl (sp_curve spec) fresh)) (\<lambda>(key, t).
       Inr (key, slots[se_slot s := t], tokens')))"

definition make_ca_key ::
  "config \<Rightarrow> secrets \<Rightarrow> token list \<Rightarrow> sessions \<Rightarrow> ca_spec \<Rightarrow> string \<Rightarrow> string
    \<Rightarrow> key_error + string \<times> token list \<times> sessions" where
  "make_ca_key c secrets slots tokens spec sl fresh =
     (if sp_backend spec = ''pkcs11'' then adopt_or_generate c secrets slots tokens spec sl fresh
      else Inr (fresh, slots, tokens))"

lemma find_slot_bound: "find_slot i ts label = Some j \<Longrightarrow> i \<le> j \<and> j < i + length ts \<and>
   token_label (tk_info_label (ts ! (j - i))) = label"
proof (induction i ts label rule: find_slot.induct)
  case (1 i label)
  then show ?case by simp
next
  case (2 i t ts label)
  then show ?case by (auto split: if_splits simp: nth_Cons' Suc_diff_Suc le_Suc_eq)
qed

text \<open>Where the key of a CA is held: on a token with the CA's label, as the one pair under the slug; or in
  the store, under the CA's certificate. Every session of an operation is on a token with the label it was
  opened for, so the key an operation gets is the one held for the CA.\<close>

definition key_held ::
  "secrets \<Rightarrow> token list \<Rightarrow> cert_store \<Rightarrow> certificate \<Rightarrow> ca_spec \<Rightarrow> string \<Rightarrow> string \<Rightarrow> bool" where
  "key_held s slots store cert spec sl key \<longleftrightarrow>
     (if sp_backend spec = ''pkcs11''
      then \<exists>t \<in> set slots. token_label (tk_info_label t) = sp_label spec \<and> find_keypair t sl (sp_curve spec) = Inr (Some key)
      else find_key (sec_passphrase s) cert store = Key key)"

definition sessions_ok :: "token list \<Rightarrow> sessions \<Rightarrow> bool" where
  "sessions_ok slots tokens \<longleftrightarrow>
     (\<forall>(l, s) \<in> set tokens. se_slot s < length slots \<and> token_label (tk_info_label (slots ! se_slot s)) = l)"

lemma sessions_ok_Nil [simp]: "sessions_ok slots []"
  by (simp add: sessions_ok_def)

lemma open_session_slot:
  "open_session slots label pin rw = Inr s \<Longrightarrow>
   se_slot s < length slots \<and> token_label (tk_info_label (slots ! se_slot s)) = label"
  using find_slot_bound [of 0 slots label "se_slot s"] by (auto simp: open_session_def split: option.splits if_splits)

lemma open_token_slot:
  assumes "open_token c secrets slots tokens ca rw = Inr (s, tokens')" and "sessions_ok slots tokens"
  shows "sessions_ok slots tokens' \<and> se_slot s < length slots \<and>
    token_label (tk_info_label (slots ! se_slot s)) = sp_label ca"
proof (cases "map_of tokens (sp_label ca)")
  case None
  with assms(1) have "open_session slots (sp_label ca) (ca_secret ca secrets) rw = Inr s"
    and tokens': "tokens' = omap_emplace (sp_label ca) s tokens"
    by (auto simp: open_token_def rbind_Inr)
  note slot = open_session_slot [OF this(1)]
  have "sessions_ok slots tokens'"
    using assms(2) slot unfolding sessions_ok_def tokens' by (auto dest!: emplace_origin)
  with slot show ?thesis by simp
next
  case (Some s')
  with assms show ?thesis by (auto simp: open_token_def sessions_ok_def dest!: map_of_SomeD)
qed

lemma ca_key_held:
  assumes "ca_key c secrets slots store cert ca sl tokens = Inr (Some key, tokens')" and "sessions_ok slots tokens"
  shows "sessions_ok slots tokens' \<and> key_held secrets slots store cert ca sl key"
proof (cases "sp_backend ca = ''pkcs11''")
  case True
  with assms(1) obtain s where s: "open_token c secrets slots tokens ca False = Inr (s, tokens')"
      "find_keypair (slots ! se_slot s) sl (sp_curve ca) = Inr (Some key)"
    by (auto simp: ca_key_def rbind_Inr split: option.split_asm)
  from open_token_slot [OF s(1) assms(2)] s(2) True show ?thesis by (auto simp: key_held_def)
next
  case False
  with assms show ?thesis by (auto simp: ca_key_def key_held_def split: key_result.splits)
qed

lemma ca_key_sessions:
  assumes "ca_key c secrets slots store cert ca sl tokens = Inr (k, tokens')" and "sessions_ok slots tokens"
  shows "sessions_ok slots tokens'"
  using assms open_token_slot [of c secrets slots tokens ca False]
  by (auto simp: ca_key_def rbind_Inr split: option.split_asm key_result.split_asm if_split_asm)

end
