(* ===== verification/Db.thy ===== *)
theory Db
  imports Keys "HOL-Library.Product_Lexorder"
begin

text \<open>
  The store's own tables and the queries of \<^verbatim>\<open>src/ca.cpp\<close> over them:
  \<^verbatim>\<open>cert_index\<close> (one row per certificate), \<^verbatim>\<open>ca_cert_index\<close> (one row
  per CA generation) and \<^verbatim>\<open>enrollment\<close>. A table is the list of its rows in the
  order SQLite visits them, so a query that leaves the order open returns the first match; nothing
  stated below depends on which one that is. A missing table is \<^term>\<open>None\<close>, and preparing a
  statement over it throws.
\<close>

section \<open>Tables\<close>

record cert_row =
  r_fp :: string
  r_cn :: string
  r_kind :: string
  r_serial :: string
  r_nb :: nat
  r_na :: nat
  r_status :: string
  r_revoked_at :: nat
  r_reason :: nat
  r_purpose :: string
  r_ski :: string
  r_aki :: string

record gen_row =
  g_kind :: string
  g_purpose :: string
  g_gen :: nat
  g_cn :: string
  g_slug :: string
  g_status :: string

record enroll_row =
  n_id :: string
  n_role :: string
  n_created :: nat
  n_nonce :: "string option"
  n_issued :: nat
  n_validity :: nat
  n_consumed :: nat

record db =
  db_cert_index :: "cert_row list option"
  db_ca_index :: "gen_row list option"
  db_enrollment :: "enroll_row list option"
  db_snapshot :: snapshot
  db_store :: cert_store

definition rows :: "'a list option \<Rightarrow> store_error + 'a list" where
  "rows t = (case t of None \<Rightarrow> Inl Prepare_failed | Some rs \<Rightarrow> Inr rs)"

lemma rows_Inr [simp]: "rows t = Inr rs \<longleftrightarrow> t = Some rs"
  by (auto simp: rows_def split: option.splits)

lemma rows_Some [simp]: "rows (Some rs) = Inr rs"
  by simp

section \<open>CA generations\<close>

record ca_gen =
  gn_purpose :: string
  gn_gen :: nat
  gn_cn :: string
  gn_slug :: string

definition config_gen :: "config \<Rightarrow> string \<Rightarrow> ca_gen" where
  "config_gen c purpose =
     (if purpose = ''root'' then
        \<lparr>gn_purpose = ''root'', gn_gen = 1, gn_cn = ca_cn (cfg_root c), gn_slug = ca_slug (cfg_root c)\<rparr>
      else case config_ca c purpose of
          Some ca \<Rightarrow> \<lparr>gn_purpose = purpose, gn_gen = 1, gn_cn = ca_cn ca, gn_slug = ca_slug ca\<rparr>
        | None \<Rightarrow> \<lparr>gn_purpose = purpose, gn_gen = 1, gn_cn = [], gn_slug = []\<rparr>)"

definition kind_of :: "string \<Rightarrow> string" where
  "kind_of purpose = (if purpose = ''root'' then ''root'' else ''signing'')"

definition gen_of_row :: "gen_row \<Rightarrow> ca_gen" where
  "gen_of_row r = \<lparr>gn_purpose = c_str (g_purpose r), gn_gen = g_gen r, gn_cn = c_str (g_cn r),
     gn_slug = c_str (g_slug r)\<rparr>"

definition row_of_gen :: "ca_gen \<Rightarrow> gen_row" where
  "row_of_gen g = \<lparr>g_kind = kind_of (gn_purpose g), g_purpose = gn_purpose g, g_gen = gn_gen g,
     g_cn = gn_cn g, g_slug = gn_slug g, g_status = ''active''\<rparr>"

definition cert_indexed :: "cert_row list \<Rightarrow> string \<Rightarrow> bool" where
  "cert_indexed rs cn \<longleftrightarrow> list_ex (\<lambda>r. r_cn r = cn \<and> (r_kind r = ''root'' \<or> r_kind r = ''signing'')) rs"

text \<open>\<^verbatim>\<open>ensure_ca_index\<close>: the table, and generation 1 of every CA whose certificate the
  store holds.\<close>

definition backfill :: "config \<Rightarrow> cert_row list option \<Rightarrow> gen_row list \<Rightarrow> string \<Rightarrow> gen_row list" where
  "backfill c certs gens purpose =
     (if list_ex (\<lambda>g. g_purpose g = purpose) gens then gens
      else case certs of
          None \<Rightarrow> gens
        | Some rs \<Rightarrow>
            if \<not> cert_indexed rs (gn_cn (config_gen c purpose)) then gens
            else gens @ [row_of_gen (config_gen c purpose)])"

definition ensure_ca_index :: "config \<Rightarrow> db \<Rightarrow> db" where
  "ensure_ca_index c d =
     d\<lparr>db_ca_index := Some (foldl (backfill c (db_cert_index d))
         (case db_ca_index d of None \<Rightarrow> [] | Some gs \<Rightarrow> gs) (''root'' # map fst (cfg_cas c)))\<rparr>"

definition gen_by_cn :: "db \<Rightarrow> string \<Rightarrow> string \<Rightarrow> ca_gen option" where
  "gen_by_cn d kind cn =
     (case db_ca_index d of None \<Rightarrow> None
      | Some gs \<Rightarrow> map_option gen_of_row (find (\<lambda>g. g_kind g = kind \<and> g_cn g = cn) gs))"

definition live_cas :: "db \<Rightarrow> config \<Rightarrow> string \<Rightarrow> ca_gen list" where
  "live_cas d c kind =
     (let out = (case db_ca_index d of None \<Rightarrow> []
          | Some gs \<Rightarrow> map gen_of_row (sort_key (\<lambda>g. (g_purpose g, g_gen g))
              (filter (\<lambda>g. g_kind g = kind \<and> (g_status g = ''active'' \<or> g_status g = ''retiring'')) gs)))
      in if out \<noteq> [] then out
         else if kind = ''root'' then [config_gen c ''root'']
         else map (\<lambda>(purpose, _). config_gen c purpose) (cfg_cas c))"

text \<open>\<^verbatim>\<open>ORDER BY \<dots> DESC LIMIT 1\<close>: a row no other row exceeds.\<close>

definition top_by :: "('a \<Rightarrow> nat) \<Rightarrow> 'a list \<Rightarrow> 'a option" where
  "top_by f xs =
     foldl (\<lambda>best x. case best of None \<Rightarrow> Some x | Some b \<Rightarrow> if f x > f b then Some x else best) None xs"

definition active_ca :: "db \<Rightarrow> config \<Rightarrow> string \<Rightarrow> ca_gen" where
  "active_ca d c purpose =
     (case db_ca_index d of None \<Rightarrow> config_gen c purpose
      | Some gs \<Rightarrow>
          (case top_by g_gen (filter (\<lambda>g. g_purpose g = purpose \<and> g_status g = ''active'') gs) of
             None \<Rightarrow> config_gen c purpose
           | Some g \<Rightarrow> gen_of_row g))"

lemma top_by_fold:
  fixes f :: "'a \<Rightarrow> nat"
  shows "foldl (\<lambda>best x. case best of None \<Rightarrow> Some x | Some b \<Rightarrow> if f x > f b then Some x else best) (Some b) xs = Some y \<Longrightarrow>
   (y = b \<or> y \<in> set xs) \<and> f b \<le> f y \<and> (\<forall>x \<in> set xs. f x \<le> f y)"
proof (induction xs arbitrary: b)
  case Nil
  then show ?case by simp
next
  case (Cons x xs)
  then show ?case by (cases "f x > f b") fastforce+
qed

lemma top_by_fold_Some:
  fixes f :: "'a \<Rightarrow> nat"
  shows "\<exists>y. foldl (\<lambda>best x. case best of None \<Rightarrow> Some x | Some b \<Rightarrow> if f x > f b then Some x else best) (Some b) xs = Some y"
  by (induction xs arbitrary: b) auto

lemma top_by_Some: "top_by f xs = Some y \<Longrightarrow> y \<in> set xs \<and> (\<forall>x \<in> set xs. f x \<le> f y)"
  using top_by_fold [of f] by (cases xs) (fastforce simp: top_by_def)+

lemma top_by_None [simp]: "top_by f xs = None \<longleftrightarrow> xs = []"
proof (cases xs)
  case (Cons x xs')
  then show ?thesis using top_by_fold_Some [of f x xs'] by (auto simp: top_by_def)
qed (simp add: top_by_def)

section \<open>The certificate index\<close>

definition ensure_cert_index :: "db \<Rightarrow> db" where
  "ensure_cert_index d = d\<lparr>db_cert_index := Some (case db_cert_index d of None \<Rightarrow> [] | Some rs \<Rightarrow> rs)\<rparr>"

definition cert_row_of :: "certificate \<Rightarrow> string \<Rightarrow> string \<Rightarrow> string \<Rightarrow> nat \<Rightarrow> cert_row" where
  "cert_row_of c kind purpose status revoked_at =
     \<lparr>r_fp = x_fp c, r_cn = cert_cn c, r_kind = kind, r_serial = x_serial c, r_nb = x_not_before c,
      r_na = x_not_after c, r_status = status, r_revoked_at = revoked_at, r_reason = 0,
      r_purpose = purpose, r_ski = ski_of c, r_aki = aki_of c\<rparr>"

text \<open>\<^verbatim>\<open>INSERT OR REPLACE\<close> on the fingerprint.\<close>

definition index_cert :: "certificate \<Rightarrow> string \<Rightarrow> string \<Rightarrow> string \<Rightarrow> nat \<Rightarrow> cert_row list \<Rightarrow> cert_row list" where
  "index_cert c kind purpose status revoked_at rs =
     filter (\<lambda>r. r_fp r \<noteq> x_fp c) rs @ [cert_row_of c kind purpose status revoked_at]"

definition active_rows :: "cert_row list \<Rightarrow> string \<Rightarrow> string \<Rightarrow> nat \<Rightarrow> cert_row list" where
  "active_rows rs cn kind now =
     filter (\<lambda>r. r_cn r = cn \<and> r_kind r = kind \<and> r_status r = ''active'' \<and> r_na r > now) rs"

definition active_fp :: "cert_row list \<Rightarrow> string \<Rightarrow> string \<Rightarrow> nat \<Rightarrow> string option" where
  "active_fp rs cn kind now = map_option (\<lambda>r. c_str (r_fp r)) (top_by r_nb (active_rows rs cn kind now))"

definition active_fp_by_serial :: "cert_row list \<Rightarrow> string \<Rightarrow> string \<Rightarrow> nat \<Rightarrow> string option" where
  "active_fp_by_serial rs serial kind now =
     map_option (\<lambda>r. c_str (r_fp r))
       (find (\<lambda>r. r_serial r = serial \<and> r_kind r = kind \<and> r_status r = ''active'' \<and> r_na r > now) rs)"

text \<open>Outside its renewal window an active certificate blocks another for the same name and profile.
  The arithmetic is SQLite's on signed integers.\<close>

definition blocks :: "nat \<Rightarrow> cert_row \<Rightarrow> bool" where
  "blocks now r \<longleftrightarrow>
     (int (r_na r) - int now) * 100 > (int (r_na r) - int (r_nb r)) * int renew_window_pct"

definition blocking_duplicate :: "cert_row list \<Rightarrow> string \<Rightarrow> string \<Rightarrow> nat \<Rightarrow> bool" where
  "blocking_duplicate rs cn kind now \<longleftrightarrow>
     length (filter (blocks now) (active_rows rs cn kind now)) \<noteq> 0"

lemma blocking_duplicate_iff:
  "blocking_duplicate rs cn kind now \<longleftrightarrow>
   (\<exists>r \<in> set rs. r_cn r = cn \<and> r_kind r = kind \<and> r_status r = ''active'' \<and> now < r_na r \<and> blocks now r)"
  by (auto simp: blocking_duplicate_def active_rows_def filter_empty_conv)

text \<open>The UPDATE of a revocation.\<close>

definition mark_revoked :: "string \<Rightarrow> nat \<Rightarrow> nat \<Rightarrow> cert_row list \<Rightarrow> cert_row list" where
  "mark_revoked fp now reason rs =
     map (\<lambda>r. if r_fp r = fp then r\<lparr>r_status := ''revoked'', r_revoked_at := now, r_reason := reason\<rparr> else r) rs"

section \<open>Clocks\<close>

definition days_to_seconds :: "int \<Rightarrow> u32" where
  "days_to_seconds days = word_of_int days * 24 * 60 * 60"

definition outlives_issuer :: "certificate \<Rightarrow> nat \<Rightarrow> int \<Rightarrow> bool" where
  "outlives_issuer issuer now validity =
     (if of_nat now + word_of_int validity \<le> (of_nat (x_not_after issuer) :: u64) then False else True)"

definition crl_next_update :: "certificate \<Rightarrow> nat \<Rightarrow> int \<Rightarrow> u32" where
  "crl_next_update issuer now horizon_days =
     (let want = unat (days_to_seconds horizon_days); na = x_not_after issuer
      in of_nat (max (min want (if na > now then na - now else 0)) crl_next_update_floor_secs))"

text \<open>What a look-up for revocation finds.\<close>

lemma active_fp_row:
  "active_fp rs cn kind now = Some fp \<Longrightarrow>
   \<exists>r \<in> set rs. c_str (r_fp r) = fp \<and> r_cn r = cn \<and> r_kind r = kind \<and> r_status r = ''active'' \<and> now < r_na r \<and>
     (\<forall>q \<in> set rs. r_cn q = cn \<and> r_kind q = kind \<and> r_status q = ''active'' \<and> now < r_na q \<longrightarrow> r_nb q \<le> r_nb r)"
  by (auto simp: active_fp_def active_rows_def dest!: top_by_Some)

lemma active_fp_by_serial_row:
  "active_fp_by_serial rs serial kind now = Some fp \<Longrightarrow>
   \<exists>r \<in> set rs. c_str (r_fp r) = fp \<and> r_serial r = serial \<and> r_kind r = kind \<and> r_status r = ''active'' \<and> now < r_na r"
  by (auto simp: active_fp_by_serial_def find_Some_iff)

lemma outlives_issuer_iff:
  assumes "now < 2 ^ 62" and "0 \<le> validity" and "validity < 2 ^ 62" and "x_not_after issuer < 2 ^ 63"
  shows "outlives_issuer issuer now validity \<longleftrightarrow> x_not_after issuer < now + nat validity"
proof -
  have v: "word_of_int validity = (of_nat (nat validity) :: u64)" using assms(2) by simp
  have un: "unat (of_nat n :: u64) = n" if "n < 2 ^ 64" for n
    using that by (simp add: unat_of_nat)
  have sums: "now + nat validity < 2 ^ 64" "x_not_after issuer < 2 ^ 64" using assms by simp_all
  have "of_nat now + word_of_int validity \<le> (of_nat (x_not_after issuer) :: u64) \<longleftrightarrow>
      unat (of_nat (now + nat validity) :: u64) \<le> unat (of_nat (x_not_after issuer) :: u64)"
    unfolding v by (simp add: word_le_nat_alt)
  then show ?thesis unfolding un [OF sums(1)] un [OF sums(2)] by (auto simp: outlives_issuer_def)
qed

section \<open>Revocation lists\<close>

record crl_entry =
  ce_serial :: string
  ce_reason :: nat

record crl =
  crl_issuer :: dn
  crl_number :: nat
  crl_this_update :: nat
  crl_until :: nat
  crl_revoked :: "crl_entry list"
  crl_signer :: string

definition crl_entry_prunable :: "nat \<Rightarrow> nat option \<Rightarrow> bool" where
  "crl_entry_prunable prev_this_update not_after \<longleftrightarrow>
     (case not_after of None \<Rightarrow> False | Some na \<Rightarrow> na < prev_this_update)"

definition prune_crl_entries :: "cert_row list \<Rightarrow> crl \<Rightarrow> crl_entry list" where
  "prune_crl_entries rs prev =
     (let prunable = map (\<lambda>r. c_str (r_serial r))
            (filter (\<lambda>r. r_status r = ''revoked'' \<and> r_na r < crl_this_update prev) rs)
      in filter (\<lambda>e. \<not> list_ex (\<lambda>s. s = ce_serial e) prunable) (crl_revoked prev))"

text \<open>The rule it follows: an entry leaves the list when the index has a certificate of its serial number
  that is revoked and had expired when the list came out.\<close>

definition entry_due :: "cert_row list \<Rightarrow> crl \<Rightarrow> crl_entry \<Rightarrow> bool" where
  "entry_due rs prev en \<longleftrightarrow>
     (\<exists>r \<in> set rs. c_str (r_serial r) = ce_serial en \<and> r_status r = ''revoked'' \<and> r_na r < crl_this_update prev)"

lemma prune_entries_due: "prune_crl_entries rs prev = filter (\<lambda>en. \<not> entry_due rs prev en) (crl_revoked prev)"
proof -
  have "list_ex (\<lambda>s. s = ce_serial en) (map (\<lambda>r. c_str (r_serial r))
      (filter (\<lambda>r. r_status r = ''revoked'' \<and> r_na r < crl_this_update prev) rs)) \<longleftrightarrow> entry_due rs prev en" for en
    by (auto simp: entry_due_def list_ex_iff intro: rev_image_eqI)
  then show ?thesis by (simp only: prune_crl_entries_def Let_def)
qed

text \<open>\<^verbatim>\<open>X509_CA::make_crl\<close>.\<close>

definition make_crl :: "certificate \<Rightarrow> string \<Rightarrow> crl_entry list \<Rightarrow> nat \<Rightarrow> nat \<Rightarrow> u32 \<Rightarrow> crl" where
  "make_crl issuer key entries number now next_update =
     \<lparr>crl_issuer = x_subject issuer, crl_number = number, crl_this_update = now,
      crl_until = now + unat next_update, crl_revoked = entries, crl_signer = key\<rparr>"

section \<open>Serial numbers\<close>

definition normalize_serial :: "string \<Rightarrow> string" where
  "normalize_serial s =
     (let out = map to_upper (filter (\<lambda>c. c \<noteq> CHR '':'') s);
          nz = dropWhile (\<lambda>c. c = CHR ''0'') out
      in if nz = [] then (if out = [] then out else ''0'') else nz)"

text \<open>The value a hex string denotes and the canonical upper-case rendering of a value.\<close>

definition hex_val :: "char \<Rightarrow> nat" where
  "hex_val c = (if is_digit c then of_char c - 48 else if is_upper c then of_char c - 55 else of_char c - 87)"

definition is_hex :: "char \<Rightarrow> bool" where
  "is_hex c \<longleftrightarrow> is_digit c \<or> (CHR ''A'' \<le> c \<and> c \<le> CHR ''F'') \<or> (CHR ''a'' \<le> c \<and> c \<le> CHR ''f'')"

definition hex_char :: "nat \<Rightarrow> char" where
  "hex_char n = (if n < 10 then char_of (n + 48) else char_of (n + 55))"

fun show_hex :: "nat \<Rightarrow> string" where
  "show_hex n = (if n < 16 then [hex_char n] else show_hex (n div 16) @ [hex_char (n mod 16)])"

declare show_hex.simps [simp del]

definition hex_value :: "string \<Rightarrow> nat" where
  "hex_value s = foldl (\<lambda>v c. v * 16 + hex_val c) 0 s"

lemma hex_value_snoc [simp]: "hex_value (s @ [c]) = hex_value s * 16 + hex_val c"
  by (simp add: hex_value_def)

lemma hex_char_cases: "is_hex c \<Longrightarrow> c \<in> set ''0123456789ABCDEFabcdef''"
proof -
  assume "is_hex c"
  define n where "n = (of_char c :: nat)"
  have c: "c = char_of n" by (simp add: n_def)
  have "(48 \<le> n \<and> n \<le> 57) \<or> (65 \<le> n \<and> n \<le> 70) \<or> (97 \<le> n \<and> n \<le> 102)"
    using \<open>is_hex c\<close> by (auto simp: is_hex_def is_digit_def less_eq_char_def n_def)
  then have "n \<in> set [48..<58] \<union> set [65..<71] \<union> set [97..<103]"
    unfolding set_upt by (simp only: Un_iff atLeastLessThan_iff) arith
  then have "char_of n \<in> char_of ` (set [48..<58] \<union> set [65..<71] \<union> set [97..<103])" by blast
  also have "\<dots> = set (map char_of ([48..<58] @ [65..<71] @ [97..<103]))" by auto
  also have "map char_of ([48..<58] @ [65..<71] @ [97..<103]) = ''0123456789ABCDEFabcdef''" by code_simp
  finally show ?thesis unfolding c .
qed

definition upper_ok :: "char \<Rightarrow> bool" where
  "upper_ok c \<longleftrightarrow> hex_char (hex_val c) = to_upper c \<and> hex_val (to_upper c) = hex_val c \<and> hex_val c < 16 \<and>
     (to_upper c = CHR ''0'' \<longleftrightarrow> hex_val c = 0) \<and> is_hex (to_upper c) \<and> to_upper (to_upper c) = to_upper c"

lemma hex_upper:
  "is_hex c \<Longrightarrow> hex_char (hex_val c) = to_upper c \<and> hex_val (to_upper c) = hex_val c \<and> hex_val c < 16 \<and>
     (to_upper c = CHR ''0'' \<longleftrightarrow> hex_val c = 0) \<and> is_hex (to_upper c) \<and> to_upper (to_upper c) = to_upper c"
proof -
  assume "is_hex c"
  moreover have "list_all upper_ok ''0123456789ABCDEFabcdef''" by code_simp
  ultimately have "upper_ok c" using hex_char_cases unfolding list_all_iff by blast
  then show ?thesis by (simp only: upper_ok_def)
qed

lemma hex_char_0 [simp]: "hex_char 0 = CHR ''0''"
  by code_simp

lemma show_hex_value:
  "list_all is_hex s \<Longrightarrow> map to_upper s = s \<Longrightarrow> s \<noteq> [] \<Longrightarrow> (length s > 1 \<Longrightarrow> hd s \<noteq> CHR ''0'') \<Longrightarrow>
   show_hex (hex_value s) = s"
proof (induction s rule: rev_induct)
  case Nil
  then show ?case by simp
next
  case (snoc c cs)
  then have c: "is_hex c" "to_upper c = c" and cs: "list_all is_hex cs" "map to_upper cs = cs" by auto
  note hc = hex_upper [OF c(1)]
  show ?case
  proof (cases "cs = []")
    case True
    with hc c show ?thesis by (subst show_hex.simps) (simp add: hex_value_def)
  next
    case False
    then have hd: "hd cs \<noteq> CHR ''0''" using snoc.prems(4) by (cases cs) auto
    then have IH: "show_hex (hex_value cs) = cs" using snoc.IH cs False by blast
    have "hex_value cs \<noteq> 0"
    proof
      assume "hex_value cs = 0"
      with IH have "cs = [hex_char 0]" by (simp add: show_hex.simps)
      with hd show False by simp
    qed
    with hc c IH show ?thesis by (subst show_hex.simps) simp
  qed
qed

lemma hex_value_zeros: "hex_value (dropWhile (\<lambda>c. c = CHR ''0'') s) = hex_value s"
proof -
  have "hex_val CHR ''0'' = 0" by code_simp
  then have "foldl (\<lambda>v c. v * 16 + hex_val c) 0 (dropWhile (\<lambda>c. c = CHR ''0'') s) = foldl (\<lambda>v c. v * 16 + hex_val c) 0 s"
    by (induction s) auto
  then show ?thesis by (simp add: hex_value_def)
qed

lemma hex_value_upper: "list_all is_hex s \<Longrightarrow> hex_value (map to_upper s) = hex_value s"
  by (induction s rule: rev_induct) (auto simp: hex_upper hex_value_def)

text \<open>C31. The serial a user types selects by value: for hex digits in any case, with colons and leading
  zeros, the normalised text is the canonical upper-case hex of the number they denote, so two spellings
  select the same certificate exactly when they denote the same number.\<close>

theorem normalize_serial_value:
  "filter (\<lambda>c. c \<noteq> CHR '':'') s \<noteq> [] \<Longrightarrow> list_all is_hex (filter (\<lambda>c. c \<noteq> CHR '':'') s) \<Longrightarrow>
   normalize_serial s = show_hex (hex_value (filter (\<lambda>c. c \<noteq> CHR '':'') s))"
proof -
  let ?t = "filter (\<lambda>c. c \<noteq> CHR '':'') s"
  let ?out = "map to_upper ?t"
  let ?nz = "dropWhile (\<lambda>c. c = CHR ''0'') ?out"
  assume ne: "?t \<noteq> []" and hex: "list_all is_hex ?t"
  have up: "list_all is_hex ?out" "map to_upper ?out = ?out"
    using hex hex_upper by (auto simp: list_all_iff)
  have val: "hex_value ?nz = hex_value ?t"
    by (simp only: hex_value_zeros hex_value_upper [OF hex])
  show ?thesis
  proof (cases "?nz = []")
    case True
    with val have "hex_value ?t = 0" by (simp add: hex_value_def)
    then have "show_hex (hex_value ?t) = ''0''" by (simp add: show_hex.simps)
    with True ne show ?thesis by (simp add: normalize_serial_def Let_def)
  next
    case False
    have "show_hex (hex_value ?nz) = ?nz"
    proof (rule show_hex_value)
      have "set ?nz \<subseteq> set ?out" by (rule subsetI) (rule set_dropWhileD)
      then show "list_all is_hex ?nz" using up(1) unfolding list_all_iff by blast
      have "to_upper c = c" if "c \<in> set ?nz" for c
        using set_dropWhileD [OF that] hex hex_upper by (auto simp: list_all_iff)
      then show "map to_upper ?nz = ?nz" by (simp add: map_idI)
      show "hd ?nz \<noteq> CHR ''0''" using hd_dropWhile [OF False] by simp
    qed (rule False)
    moreover have "normalize_serial s = ?nz"
      unfolding normalize_serial_def Let_def using False by (rule if_not_P)
    ultimately show ?thesis using val by simp
  qed
qed

theorem normalize_serial_value_witness:
  "normalize_serial ''00:4a:F0'' = ''4AF0'' \<and> show_hex (hex_value ''004aF0'') = ''4AF0''"
proof -
  have "filter (\<lambda>c. c \<noteq> CHR '':'') ''00:4a:F0'' = ''004aF0''" "list_all is_hex ''004aF0''"
      "show_hex (hex_value ''004aF0'') = ''4AF0''" by code_simp+
  with normalize_serial_value [of "''00:4a:F0''"] show ?thesis by simp
qed

section \<open>Windows and horizons\<close>

text \<open>The renewal window: an active certificate blocks another issuance for its name exactly while more
  than 33 percent of its life is left, so it blocks at the moment it is issued, and once it has stopped
  blocking it never blocks again.\<close>

theorem renewal_window:
  "r_nb r < r_na r \<Longrightarrow>
   (now \<le> r_na r \<longrightarrow> (blocks now r \<longleftrightarrow> 33 * (r_na r - r_nb r) < 100 * (r_na r - now))) \<and>
   blocks (r_nb r) r \<and> (\<not> blocks now r \<longrightarrow> now \<le> later \<longrightarrow> \<not> blocks later r)"
  by (auto simp: blocks_def renew_window_pct_def of_nat_diff algebra_simps)

theorem renewal_window_witness:
  "blocks 100 (cert_row_of (make_cert [] [] [] [] 100 200 [] [] []) [] [] [] 0) \<and>
   \<not> blocks 170 (cert_row_of (make_cert [] [] [] [] 100 200 [] [] []) [] [] [] 0)"
  using renewal_window [of "cert_row_of (make_cert [] [] [] [] 100 200 [] [] []) [] [] [] 0" 170 170]
  by (simp add: cert_row_of_def make_cert_def)

text \<open>C32. The nextUpdate of a CRL: for both horizons the offset fits 32 bits, is at least the floor of one
  hour and at most the horizon, and points past the issuer's own expiry only when the floor forces
  it.\<close>

theorem crl_next_update_bounds:
  "days \<in> {crl_next_update_days, root_crl_next_update_days} \<Longrightarrow>
   crl_next_update_floor_secs \<le> unat (crl_next_update issuer now days) \<and>
   unat (crl_next_update issuer now days) \<le> nat days * 86400 \<and>
   (now + unat (crl_next_update issuer now days) \<le> x_not_after issuer \<or>
    unat (crl_next_update issuer now days) = crl_next_update_floor_secs)"
proof -
  assume days: "days \<in> {crl_next_update_days, root_crl_next_update_days}"
  let ?want = "nat days * 86400"
  have want: "unat (days_to_seconds days) = ?want" "crl_next_update_floor_secs \<le> ?want" "?want < 2 ^ 32"
    using days by (auto simp: days_to_seconds_def crl_next_update_days_def root_crl_next_update_days_def
        crl_next_update_floor_secs_def)
  let ?m = "max (min ?want (if x_not_after issuer > now then x_not_after issuer - now else 0)) crl_next_update_floor_secs"
  have un: "unat (of_nat n :: u32) = n" if "n < 2 ^ 32" for n
    using that by (simp add: unat_of_nat)
  have "?m < 2 ^ 32" using want by auto
  then have "unat (crl_next_update issuer now days) = ?m"
    unfolding crl_next_update_def Let_def want(1) by (rule un)
  with want(2) show ?thesis by (auto simp: max_def min_def split: if_splits)
qed

theorem crl_next_update_bounds_witness:
  "unat (crl_next_update (make_cert [] [] [] [] 0 1000000 [] [] []) 500000 crl_next_update_days) \<le> 604800"
  using crl_next_update_bounds [of crl_next_update_days "make_cert [] [] [] [] 0 1000000 [] [] []" 500000]
  by (simp add: crl_next_update_days_def)

text \<open>Pruning a CRL follows the published rule entry by entry: with the serials of the index distinct
  and free of NUL, an entry leaves the list exactly when the index holds the certificate as revoked and
  its expiry lies before the previous CRL; an entry of an unknown serial, one still active in the index and
  one expiring at the very moment of that CRL all stay, and the order is kept.\<close>

theorem prune_follows_rule:
  "distinct (map r_serial rs) \<Longrightarrow> \<forall>r \<in> set rs. nul_free (r_serial r) \<Longrightarrow>
   prune_crl_entries rs prev =
     filter (\<lambda>e. \<not> crl_entry_prunable (crl_this_update prev)
         (map_option r_na (find (\<lambda>r. r_serial r = ce_serial e \<and> r_status r = ''revoked'') rs)))
       (crl_revoked prev)"
proof -
  assume uniq: "distinct (map r_serial rs)" and nul: "\<forall>r \<in> set rs. nul_free (r_serial r)"
  have "list_ex (\<lambda>s. s = ser) (map (\<lambda>r. c_str (r_serial r))
          (filter (\<lambda>r. r_status r = ''revoked'' \<and> r_na r < tu) rs)) \<longleftrightarrow>
      crl_entry_prunable tu (map_option r_na (find (\<lambda>r. r_serial r = ser \<and> r_status r = ''revoked'') rs))"
    for ser tu
    using uniq nul
  proof (induction rs)
    case Nil
    then show ?case by (simp add: crl_entry_prunable_def)
  next
    case (Cons r rs)
    show ?case
    proof (cases "r_serial r = ser \<and> r_status r = ''revoked''")
      case True
      have fresh: "\<forall>r' \<in> set rs. r_serial r' \<noteq> r_serial r" using Cons.prems(1) by (metis distinct.simps(2) image_eqI list.set_map list.simps(9))
      with True have "\<forall>r' \<in> set rs. r_serial r' \<noteq> ser" by simp
      moreover have "\<forall>r' \<in> set rs. c_str (r_serial r') = r_serial r'" using Cons.prems(2) by simp
      ultimately have "\<not> list_ex (\<lambda>s. s = ser) (map (\<lambda>r. c_str (r_serial r))
          (filter (\<lambda>r. r_status r = ''revoked'' \<and> r_na r < tu) rs))"
        by (auto simp: list_ex_iff)
      with True Cons.prems(2) show ?thesis by (simp add: crl_entry_prunable_def)
    next
      case False
      with Cons show ?thesis by auto
    qed
  qed
  then show ?thesis by (simp add: prune_crl_entries_def Let_def)
qed

definition sample_revoked :: cert_row where
  "sample_revoked = \<lparr>r_fp = ''f'', r_cn = ''a'', r_kind = ''server'', r_serial = ''4A'', r_nb = 0, r_na = 100,
     r_status = ''revoked'', r_revoked_at = 5, r_reason = 1, r_purpose = ''tls'', r_ski = [], r_aki = []\<rparr>"

definition sample_crl :: "nat \<Rightarrow> crl" where
  "sample_crl tu = \<lparr>crl_issuer = [], crl_number = 3, crl_this_update = tu, crl_until = tu + 604800,
     crl_revoked = [\<lparr>ce_serial = ''4A'', ce_reason = 1\<rparr>, \<lparr>ce_serial = ''4B'', ce_reason = 0\<rparr>], crl_signer = ''k''\<rparr>"

theorem prune_follows_rule_witness:
  "map ce_serial (prune_crl_entries [sample_revoked] (sample_crl 101)) = [''4B''] \<and>
   map ce_serial (prune_crl_entries [sample_revoked] (sample_crl 100)) = [''4A'', ''4B'']"
  using prune_follows_rule [of "[sample_revoked]" "sample_crl 101"]
    prune_follows_rule [of "[sample_revoked]" "sample_crl 100"]
  by (simp add: sample_revoked_def sample_crl_def crl_entry_prunable_def nul_free_def)

section \<open>The issuers above a certificate\<close>

text \<open>The certificate the index names for a key identifier: the least fingerprint.\<close>

definition issuer_fp :: "cert_row list \<Rightarrow> string \<Rightarrow> string option" where
  "issuer_fp rs aki =
     (case sort_key r_fp (filter (\<lambda>r. r_ski r = aki) rs) of [] \<Rightarrow> None | r # _ \<Rightarrow> Some (c_str (r_fp r)))"

definition unseen :: "cert_row list \<Rightarrow> string list \<Rightarrow> string list" where
  "unseen rs seen = filter (\<lambda>fp. fp \<notin> set seen) (map (\<lambda>r. c_str (r_fp r)) rs)"

lemma issuer_fp_member: "issuer_fp rs aki = Some fp \<Longrightarrow> \<exists>r \<in> set rs. c_str (r_fp r) = fp \<and> r_ski r = aki"
proof -
  assume "issuer_fp rs aki = Some fp"
  then obtain r rest where "sort_key r_fp (filter (\<lambda>r. r_ski r = aki) rs) = r # rest" "c_str (r_fp r) = fp"
    by (auto simp: issuer_fp_def split: list.splits)
  moreover from this have "r \<in> set (filter (\<lambda>r. r_ski r = aki) rs)"
    by (metis list.set_intros(1) set_sort)
  ultimately show ?thesis by auto
qed

lemma unseen_shrinks:
  "issuer_fp rs aki = Some fp \<Longrightarrow> fp \<notin> set seen \<Longrightarrow> length (unseen rs (fp # seen)) < length (unseen rs seen)"
proof -
  assume "issuer_fp rs aki = Some fp" and new: "fp \<notin> set seen"
  then obtain r where "r \<in> set rs" "c_str (r_fp r) = fp" using issuer_fp_member by blast
  then have mem: "fp \<in> set (unseen rs seen)" using new by (auto simp: unseen_def)
  have "unseen rs (fp # seen) = filter (\<lambda>x. x \<noteq> fp) (unseen rs seen)"
    by (auto simp: unseen_def intro: filter_cong)
  then show ?thesis using length_filter_less [OF mem, of "\<lambda>x. x \<noteq> fp"] by simp
qed

text \<open>The walk: it stops at a certificate without an authority identifier, at a self-signed one, at an
  unknown issuer and at a fingerprint it has seen.\<close>

function issuers_loop :: "cert_row list \<Rightarrow> cert_store \<Rightarrow> string list \<Rightarrow> certificate \<Rightarrow> certificate list" where
  "issuers_loop rs cs seen cert =
     (let aki = aki_of cert in
      if aki = [] \<or> aki = ski_of cert then []
      else case issuer_fp rs aki of
          None \<Rightarrow> []
        | Some fp \<Rightarrow>
            if fp \<in> set seen then []
            else case load_cert cs fp of
                None \<Rightarrow> []
              | Some issuer \<Rightarrow>
                  if ski_of issuer = aki_of issuer then []
                  else issuer # issuers_loop rs cs (fp # seen) issuer)"
  by pat_completeness auto
termination
  by (relation "measure (\<lambda>(rs, cs, seen, cert). length (unseen rs seen))") (auto intro: unseen_shrinks)

declare issuers_loop.simps [simp del]

definition issuers_above :: "cert_row list \<Rightarrow> cert_store \<Rightarrow> certificate \<Rightarrow> certificate list" where
  "issuers_above rs cs cert = issuers_loop rs cs [x_fp cert] cert"

text \<open>A chain: every certificate names the key identifier of the next, which is not self-signed.\<close>

definition index_matches :: "cert_row list \<Rightarrow> cert_store \<Rightarrow> bool" where
  "index_matches rs cs \<longleftrightarrow> (\<forall>r \<in> set rs. nul_free (r_fp r) \<and>
     (\<forall>c. load_cert cs (r_fp r) = Some c \<longrightarrow> x_fp c = r_fp r \<and> ski_of c = r_ski r))"

fun chained :: "certificate \<Rightarrow> certificate list \<Rightarrow> bool" where
  "chained c [] = True"
| "chained c (i # cs2) \<longleftrightarrow> ski_of i = aki_of c \<and> aki_of c \<noteq> [] \<and> aki_of i \<noteq> ski_of i \<and> chained i cs2"

lemma issuers_loop_props:
  "index_matches rs cs \<Longrightarrow>
   chained cert (issuers_loop rs cs seen cert) \<and>
   distinct (map x_fp (issuers_loop rs cs seen cert)) \<and>
   set (map x_fp (issuers_loop rs cs seen cert)) \<inter> set seen = {} \<and>
   length (issuers_loop rs cs seen cert) \<le> length (unseen rs seen)"
proof (induction rs cs seen cert rule: issuers_loop.induct)
  case (1 rs cs seen cert)
  show ?case
  proof (cases "issuers_loop rs cs seen cert")
    case Nil
    then show ?thesis by simp
  next
    case (Cons i cs2)
    then obtain fp where fp: "aki_of cert \<noteq> []" "aki_of cert \<noteq> ski_of cert" "issuer_fp rs (aki_of cert) = Some fp"
        "fp \<notin> set seen" "load_cert cs fp = Some i" "ski_of i \<noteq> aki_of i"
        and cs2: "cs2 = issuers_loop rs cs (fp # seen) i"
      by (subst (asm) issuers_loop.simps) (auto simp: Let_def split: if_splits option.splits)
    obtain r where r: "r \<in> set rs" "c_str (r_fp r) = fp" "r_ski r = aki_of cert"
      using issuer_fp_member [OF fp(3)] by blast
    with "1.prems" have i: "x_fp i = fp" "ski_of i = aki_of cert"
      using fp(5) by (auto simp: index_matches_def)
    have IH: "chained i cs2 \<and> distinct (map x_fp cs2) \<and> set (map x_fp cs2) \<inter> set (fp # seen) = {} \<and>
        length cs2 \<le> length (unseen rs (fp # seen))"
      unfolding cs2 using fp "1.prems" by (intro "1.IH") auto
    have "length (unseen rs (fp # seen)) < length (unseen rs seen)"
      using fp by (intro unseen_shrinks)
    with IH i fp show ?thesis by (auto simp: Cons)
  qed
qed

text \<open>C33. Building the chain of a served certificate ends after at most one step per indexed certificate,
  whatever loops cross-signing puts into the index: the issuers come nearest first, each carries the key
  identifier the one below names as its authority, none is self-signed (the anchor is left out), none is
  the certificate itself and none appears twice.\<close>

theorem issuers_above_chain:
  "index_matches rs cs \<Longrightarrow>
   chained cert (issuers_above rs cs cert) \<and>
   distinct (x_fp cert # map x_fp (issuers_above rs cs cert)) \<and>
   length (issuers_above rs cs cert) \<le> length rs"
proof -
  assume ok: "index_matches rs cs"
  have "length (unseen rs seen) \<le> length rs" for seen
    using length_filter_le [of _ "map (\<lambda>r. c_str (r_fp r)) rs"] by (simp add: unseen_def)
  with issuers_loop_props [OF ok, of cert "[x_fp cert]"] show ?thesis
    unfolding issuers_above_def by (auto intro: le_trans)
qed

definition sample_cert :: "string \<Rightarrow> string \<Rightarrow> string \<Rightarrow> certificate" where
  "sample_cert fp ski aki = make_cert ''4A'' fp ''k'' ''p'' 0 1000 [(Common_name, ''Root E1'')]
     [(Common_name, fp)] [(False, Authority_Key_ID aki), (False, Subject_Key_ID ski)]"

lemma sample_cert_simps [simp]:
  "x_fp (sample_cert fp ski aki) = fp" "ski_of (sample_cert fp ski aki) = ski" "aki_of (sample_cert fp ski aki) = aki"
  "x_not_after (sample_cert fp ski aki) = 1000"
  by (simp_all add: sample_cert_def make_cert_def ski_of_def aki_of_def map_filter_simps)

definition sample_store :: cert_store where
  "sample_store = insert_cert (sample_cert ''f2'' ''R'' ''R'') (insert_cert (sample_cert ''f1'' ''C'' ''R'')
     \<lparr>cs_certs = Map.empty, cs_keys = Map.empty, cs_revoked = Map.empty\<rparr>)"

theorem issuers_above_chain_witness:
  "\<exists>rs. chained (sample_cert ''f0'' ''L'' ''C'') (issuers_above rs sample_store (sample_cert ''f0'' ''L'' ''C'')) \<and>
     issuers_above rs sample_store (sample_cert ''f0'' ''L'' ''C'') = [sample_cert ''f1'' ''C'' ''R'']"
proof -
  let ?rs = "[cert_row_of (sample_cert ''f2'' ''R'' ''R'') ''root'' ''root'' ''active'' 0,
    cert_row_of (sample_cert ''f1'' ''C'' ''R'') ''signing'' ''tls'' ''active'' 0]"
  have "index_matches ?rs sample_store"
    by (simp add: index_matches_def cert_row_of_def sample_store_def load_cert_def insert_cert_def)
  note chain = issuers_above_chain [OF this, of "sample_cert ''f0'' ''L'' ''C''"]
  have "load_cert sample_store ''f1'' = Some (sample_cert ''f1'' ''C'' ''R'')"
      "load_cert sample_store ''f2'' = Some (sample_cert ''f2'' ''R'' ''R'')"
    by (simp_all add: sample_store_def load_cert_def insert_cert_def)
  then have "issuers_above ?rs sample_store (sample_cert ''f0'' ''L'' ''C'') = [sample_cert ''f1'' ''C'' ''R'']"
    by (simp add: issuers_above_def issuers_loop.simps issuer_fp_def cert_row_of_def Let_def c_str_def)
  with chain show ?thesis by blast
qed

end
