(* ===== verification/World.thy ===== *)
theory World
  imports Db
begin

text \<open>
  What an operation of \<^verbatim>\<open>src/ca.cpp\<close> works on: the store file, the artifact files
  beside it and the tokens, and what it gets from outside (clock, secrets, locks, the success of a
  write). Also \<^verbatim>\<open>write_file\<close>, which replaces every artifact, and Botan's test that a
  certificate may sign.
\<close>

section \<open>Replacing a file\<close>

text \<open>The file system as a map from path to bytes. \<open>io_good\<close> is the state of the stream after
  the write; \<open>io_flushed\<close> counts the bytes that are in the file once the stream is closed, which
  happens after that state was looked at.\<close>

record io =
  io_open :: bool
  io_good :: bool
  io_flushed :: nat
  io_rename :: bool

type_synonym disk = "string \<rightharpoonup> string"

definition tmp_of :: "string \<Rightarrow> string" where
  "tmp_of path = path @ ''.tmp''"

text \<open>The states a concurrent reader may see, and the result.\<close>

definition write_file :: "io \<Rightarrow> disk \<Rightarrow> string \<Rightarrow> string \<Rightarrow> disk list \<times> bool" where
  "write_file io disk path bytes =
     (if \<not> io_open io then ([disk], False)
      else let opened = disk(tmp_of path \<mapsto> []) in
        if \<not> io_good io then ([opened, opened(tmp_of path := None)], False)
        else let closed = disk(tmp_of path \<mapsto> take (io_flushed io) bytes) in
          if \<not> io_rename io then ([opened, closed, closed(tmp_of path := None)], False)
          else ([opened, closed, closed(path \<mapsto> take (io_flushed io) bytes, tmp_of path := None)], True))"

lemma tmp_of_neq [simp]: "tmp_of path \<noteq> path" "path \<noteq> tmp_of path"
  by (simp_all add: tmp_of_def)

text \<open>C35. Replacing an artifact is atomic for its readers: in every state on the way the path holds its
  old content or the final one, a failure leaves the old content, no other file but the temporary sibling
  is ever touched and the sibling is gone after the rename. The final content is the whole of the bytes
  exactly when the close flushed them all, which the function does not look at: it reports success for
  a truncated file as well.\<close>

theorem write_file_atomic:
  "write_file io disk path bytes = (states, ok) \<Longrightarrow>
   (\<forall>d \<in> set states. d path = disk path \<or> d path = Some (take (io_flushed io) bytes)) \<and>
   (\<forall>d \<in> set states. \<forall>p. p \<noteq> path \<longrightarrow> p \<noteq> tmp_of path \<longrightarrow> d p = disk p) \<and>
   (\<not> ok \<longrightarrow> (\<forall>d \<in> set states. d path = disk path)) \<and>
   (ok \<longrightarrow> last states path = Some (take (io_flushed io) bytes) \<and> last states (tmp_of path) = None) \<and>
   (ok \<longrightarrow> (last states path = Some bytes \<longleftrightarrow> length bytes \<le> io_flushed io)) \<and>
   (ok \<longleftrightarrow> io_open io \<and> io_good io \<and> io_rename io)"
proof -
  have short: "take n xs = xs \<longleftrightarrow> length xs \<le> n" for n and xs :: string
    by (metis length_take min.absorb_iff2 min.cobounded2 take_all)
  show "write_file io disk path bytes = (states, ok) \<Longrightarrow> ?thesis"
    by (auto simp: write_file_def Let_def short split: if_splits)
qed

theorem write_file_atomic_witness:
  "last (fst (write_file \<lparr>io_open = True, io_good = True, io_flushed = 2, io_rename = True\<rparr>
      Map.empty ''ca.crl'' ''CRL'')) ''ca.crl'' = Some ''CR'' \<and>
   snd (write_file \<lparr>io_open = True, io_good = True, io_flushed = 2, io_rename = True\<rparr> Map.empty ''ca.crl'' ''CRL'')"
  using write_file_atomic [OF prod.collapse [symmetric],
      of "\<lparr>io_open = True, io_good = True, io_flushed = 2, io_rename = True\<rparr>" Map.empty "''ca.crl''" "''CRL''"]
  by simp

section \<open>Locations\<close>

text \<open>A file is named by its components below the store directory, or lies elsewhere.\<close>

datatype location = In_store "string list" | Elsewhere string

fun resolve :: "string list \<Rightarrow> string list \<Rightarrow> string list option" where
  "resolve base [] = Some base"
| "resolve base (c # cs) =
     (if c = [] \<or> c = ''.'' then resolve base cs
      else if c = ''..'' then (if base = [] then None else resolve (butlast base) cs)
      else resolve (base @ [c]) cs)"

definition ca_file :: "string \<Rightarrow> string \<Rightarrow> location" where
  "ca_file sl ext = In_store [''ca'', sl @ ext]"

text \<open>\<^verbatim>\<open>ee_dir / (name + ext)\<close>: a leading slash replaces the directory, and the
  parent component leads out of it.\<close>

definition ee_file :: "string \<Rightarrow> string \<Rightarrow> location" where
  "ee_file name ext =
     (if starts_with name ''/'' then Elsewhere (name @ ext)
      else case resolve [''ee''] (split_on CHR ''/'' (name @ ext)) of
          None \<Rightarrow> Elsewhere (name @ ext)
        | Some cs \<Rightarrow> In_store cs)"

lemma ext_neq [simp]:
  "s @ ''.pem'' \<noteq> t @ ''.crt''" "s @ ''.pem'' \<noteq> t @ ''.crl''" "s @ ''.crt'' \<noteq> t @ ''.crl''"
  "s @ ''.crt'' \<noteq> t @ ''.pem''" "s @ ''.crl'' \<noteq> t @ ''.pem''" "s @ ''.crl'' \<noteq> t @ ''.crt''"
  by (auto dest: arg_cong [where f = last])

lemma ca_file_inject [simp]: "ca_file s e = ca_file t e' \<longleftrightarrow> s @ e = t @ e'"
  by (simp add: ca_file_def)

text \<open>A name without a slash stays in the directory of the leaves.\<close>

lemma ee_file_plain:
  assumes "CHR ''/'' \<notin> set name" and "CHR ''/'' \<notin> set ext" and "length ext = 4"
  shows "ee_file name ext = In_store [''ee'', name @ ext]"
proof -
  have "\<not> starts_with name ''/''" using assms(1) by (cases name) (auto simp: starts_with_def)
  moreover have "split_on CHR ''/'' (name @ ext) = [name @ ext]"
    using assms by (intro split_on_no_sep) simp
  moreover have "length (name @ ext) \<ge> 4" using assms(3) by simp
  then have "name @ ext \<noteq> []" "name @ ext \<noteq> ''.''" "name @ ext \<noteq> ''..''"
    by (auto simp del: length_append)
  ultimately show ?thesis by (simp add: ee_file_def)
qed

lemma ca_file_not_ee [simp]: "ca_file s e \<noteq> In_store [''ee'', x]" "In_store [''ee'', x] \<noteq> ca_file s e"
  by (simp_all add: ca_file_def)

section \<open>The world\<close>

datatype artifact =
    Cert_pem certificate
  | Cert_der certificate
  | Crl_der crl
  | Key_pem string

datatype dir_state = Dir_absent | Not_a_dir | Dir_empty | Dir_used

record world =
  w_dir :: dir_state
  w_db :: "db option"
  w_files :: "location \<rightharpoonup> artifact"
  w_tokens :: "token list"

text \<open>What comes from outside: the successive readings of the clock, whether the write lock is
  obtained, whether the statements of the transaction succeed and which files can be written.\<close>

record env =
  e_secrets :: secrets
  e_clock :: "nat \<Rightarrow> nat"
  e_lock :: bool
  e_commit :: bool
  e_write :: "location \<Rightarrow> bool"

text \<open>What the random generator and the hash functions make of a new certificate: its serial
  number, its fingerprint, its public key and the identifier of that key.\<close>

record fresh =
  f_serial :: string
  f_fp :: string
  f_pub :: string
  f_kid :: string

definition put_file :: "env \<Rightarrow> location \<Rightarrow> artifact \<Rightarrow> world \<Rightarrow> world \<times> bool" where
  "put_file e loc a w =
     (if e_write e loc then (w\<lparr>w_files := (w_files w)(loc \<mapsto> a)\<rparr>, True) else (w, False))"

text \<open>A certificate is parsed from PEM and from DER; anything else throws.\<close>

datatype load_error = Not_a_certificate | Not_a_crl

definition load_ca_cert :: "world \<Rightarrow> string \<Rightarrow> load_error + certificate option" where
  "load_ca_cert w sl =
     (case w_files w (ca_file sl ''.pem'') of
        None \<Rightarrow> Inr None
      | Some (Cert_pem c) \<Rightarrow> Inr (Some c)
      | Some (Cert_der c) \<Rightarrow> Inr (Some c)
      | _ \<Rightarrow> Inl Not_a_certificate)"

definition load_crl :: "world \<Rightarrow> string \<Rightarrow> load_error + crl" where
  "load_crl w sl =
     (case w_files w (ca_file sl ''.crl'') of Some (Crl_der crl) \<Rightarrow> Inr crl | _ \<Rightarrow> Inl Not_a_crl)"

section \<open>What Botan accepts as a CA\<close>

definition key_usage_of :: "certificate \<Rightarrow> u32" where
  "key_usage_of c =
     (case List.map_filter (\<lambda>(_, x). case x of Key_Usage u \<Rightarrow> Some u | _ \<Rightarrow> None) (x_exts c) of
        u # _ \<Rightarrow> u | [] \<Rightarrow> 0)"

definition ext_key_usage_of :: "certificate \<Rightarrow> string list" where
  "ext_key_usage_of c =
     (case List.map_filter (\<lambda>(_, x). case x of Ext_Key_Usage os \<Rightarrow> Some os | _ \<Rightarrow> None) (x_exts c) of
        os # _ \<Rightarrow> os | [] \<Rightarrow> [])"

definition marked_ca :: "certificate \<Rightarrow> bool" where
  "marked_ca c =
     (case List.map_filter (\<lambda>(_, x). case x of Basic_Constraints b _ \<Rightarrow> Some b | _ \<Rightarrow> None) (x_exts c) of
        b # _ \<Rightarrow> b | [] \<Rightarrow> False)"

definition allowed_by_ext_ku :: "string list \<Rightarrow> bool" where
  "allowed_by_ext_ku oids \<longleftrightarrow> oids = [] \<or>
     list_ex (\<lambda>oid. oid \<in> {''2.5.29.37.0'', ''1.3.6.1.5.5.7.3.1'', ''1.3.6.1.5.5.7.3.2'', ''1.3.6.1.5.5.7.3.9''}) oids"

definition is_CA_cert :: "certificate \<Rightarrow> bool" where
  "is_CA_cert c \<longleftrightarrow> marked_ca c \<and>
     (key_usage_of c AND kKeyCertSign = kKeyCertSign \<or> key_usage_of c = 0) \<and>
     allowed_by_ext_ku (ext_key_usage_of c)"

lemma kinds_of_signing_ca:
  "x_exts cert = signing_ca_extensions c ca root sl kid \<Longrightarrow>
   marked_ca cert \<and> key_usage_of cert = kKeyCertSign OR kCrlSign \<and> ext_key_usage_of cert = signing_ca_ekus ca"
  by (simp add: marked_ca_def key_usage_of_def ext_key_usage_of_def signing_ca_extensions_list map_filter_simps)

lemma kinds_of_leaf:
  "x_exts cert = ee_extensions c ca prof issuer sl kid san \<Longrightarrow> \<not> marked_ca cert"
  by (simp add: marked_ca_def ee_extensions_list map_filter_simps)

lemma kinds_of_root: "x_exts cert = ca_extensions kid None None \<Longrightarrow> is_CA_cert cert"
  by (simp add: is_CA_cert_def marked_ca_def key_usage_of_def ext_key_usage_of_def ca_extensions_def Let_def
      add_new_def ext_oid_def map_filter_simps allowed_by_ext_ku_def kKeyCertSign_def kCrlSign_def)

lemma profile_ekus_allowed:
  "profile_find nm = Some p \<Longrightarrow> allowed_by_ext_ku [pd_eku p] \<or> allowed_by_ext_ku [pd_ca_companion_eku p]"
  by (drule profile_find_Some) (auto simp: kDefs_def allowed_by_ext_ku_def)

lemma signing_ca_may_sign:
  "nm \<in> set (ca_profiles ca) \<Longrightarrow> profile_find nm = Some p \<Longrightarrow> allowed_by_ext_ku (signing_ca_ekus ca)"
proof -
  assume nm: "nm \<in> set (ca_profiles ca)" "profile_find nm = Some p"
  have mono: "allowed_by_ext_ku [x] \<Longrightarrow> x \<in> set xs \<Longrightarrow> allowed_by_ext_ku xs" for x xs
    unfolding allowed_by_ext_ku_def list_ex_iff by auto
  have "pd_eku p \<in> set (signing_ca_ekus ca)"
    using nm by (force simp: signing_ca_ekus_def)
  moreover have "pd_ca_companion_eku p \<in> set (signing_ca_ekus ca)" if "pd_ca_companion_eku p \<noteq> []"
    using nm that by (force simp: signing_ca_ekus_def)
  moreover have "\<not> allowed_by_ext_ku [[]]" by (simp add: allowed_by_ext_ku_def)
  ultimately show ?thesis using profile_ekus_allowed [OF nm(2)] mono by metis
qed

lemma config_ok_ca:
  "config_ok c \<Longrightarrow> (purpose, ca) \<in> set (cfg_cas c) \<Longrightarrow>
   issuing_ok (ca_valid_days (cfg_root c)) purpose ca \<and> label_ok ca"
  unfolding config_ok_def by blast

text \<open>C34. What this program certifies as a CA, Botan lets sign, and nothing else: the root and the
  certificate of every issuing CA of an accepted configuration pass the test the signer makes before it
  issues a leaf or a CRL, whatever profiles the CA lists (the companion usage of the email profile is
  what makes this true of a CA that lists it alone), and no leaf of any profile passes it.\<close>

theorem only_cas_may_sign:
  "config_ok c \<Longrightarrow> (purpose, ca) \<in> set (cfg_cas c) \<Longrightarrow>
   (\<forall>cert :: certificate. x_exts cert = signing_ca_extensions c ca root sl kid \<longrightarrow> is_CA_cert cert) \<and>
   (\<forall>cert :: certificate. x_exts cert = ca_extensions kid None None \<longrightarrow> is_CA_cert cert) \<and>
   (\<forall>(cert :: certificate) prof san. x_exts cert = ee_extensions c ca prof issuer sl kid san \<longrightarrow> \<not> is_CA_cert cert) \<and>
   \<not> allowed_by_ext_ku [''1.3.6.1.5.5.7.3.4'']"
proof (intro conjI allI impI)
  assume ok: "config_ok c" and ca: "(purpose, ca) \<in> set (cfg_cas c)"
  fix cert :: certificate
  {
    assume exts: "x_exts cert = signing_ca_extensions c ca root sl kid"
    from config_ok_ca [OF ok ca] obtain nm p where "nm \<in> set (ca_profiles ca)" "profile_find nm = Some p"
      by (cases "ca_profiles ca") (auto simp: issuing_ok_def)
    then have "allowed_by_ext_ku (signing_ca_ekus ca)" by (rule signing_ca_may_sign)
    with kinds_of_signing_ca [OF exts] show "is_CA_cert cert"
      by (simp add: is_CA_cert_def kKeyCertSign_def kCrlSign_def)
  }
  show "x_exts cert = ca_extensions kid None None \<Longrightarrow> is_CA_cert cert" by (rule kinds_of_root)
  show "x_exts cert = ee_extensions c ca prof issuer sl kid san \<Longrightarrow> \<not> is_CA_cert cert" for prof san
    using kinds_of_leaf by (auto simp: is_CA_cert_def)
  show "\<not> allowed_by_ext_ku [''1.3.6.1.5.5.7.3.4'']" by (simp add: allowed_by_ext_ku_def)
qed

lemma sample_config_ok: "config_ok sample_config"
  unfolding sample_config_def by (rule load_config_ok [OF sample_loads])

lemma sample_config_ca: "\<exists>ca. cfg_cas sample_config = [(''tls'', ca)]"
  using sample_cas unfolding sample_config_def by auto

theorem only_cas_may_sign_witness:
  "\<exists>ca. cfg_cas sample_config = [(''tls'', ca)] \<and>
     is_CA_cert (make_cert ''1'' ''f'' ''k'' ''p'' 0 1 [] []
       (signing_ca_extensions sample_config ca (sample_cert ''r'' ''R'' ''R'') ''root-e1'' ''K''))"
proof -
  obtain ca where ca: "cfg_cas sample_config = [(''tls'', ca)]" using sample_config_ca by blast
  then have "(''tls'', ca) \<in> set (cfg_cas sample_config)" by simp
  from only_cas_may_sign [OF sample_config_ok this] ca show ?thesis by (simp add: make_cert_def)
qed

section \<open>A sample store\<close>

text \<open>Values the evaluator should not compute again.\<close>

lemma key_usage_values [code]: "kKeyCertSign = 1024" "kCrlSign = 512"
  by (simp_all add: kKeyCertSign_def kCrlSign_def)

definition sample_tls_ca :: signing_ca where
  "sample_tls_ca =
     \<lparr>ca_cn = ''CA E1'', ca_curve = ''secp384r1'', ca_digest = ''SHA-384'', ca_valid_days = 1825,
      ca_slug_prefix = ''ca-e'', ca_slug = ''ca-e1'', ca_key_backend = ''internal'', ca_token_label = [],
      ca_purpose = ''tls'', ca_profiles = [''server'', ''client''], ca_ee_curve = ''secp256r1'',
      ca_ee_digest = ''SHA-256'', ca_ee_valid_days = 90, ca_simple_dn = False, ca_permitted_dns = [],
      ca_permitted_email = [], ca_policies_map = [(''server'', [''1.3.6.1.4.1.1.1''])]\<rparr>"

text \<open>The value of the sample configuration, computed once.\<close>

lemma sample_config_value [code]:
  "sample_config =
     \<lparr>cfg_pki = \<lparr>pki_org_name = ''Org'', pki_country_code = ''RO'', pki_repository_host = ''pki.example.ca''\<rparr>,
      cfg_pkcs11 = \<lparr>p11_module = [], p11_token_label = []\<rparr>,
      cfg_root = \<lparr>ca_cn = ''Root E1'', ca_curve = ''secp384r1'', ca_digest = ''SHA-384'', ca_valid_days = 7300,
        ca_slug_prefix = ''root-e'', ca_slug = ''root-e1'', ca_key_backend = ''internal'', ca_token_label = []\<rparr>,
      cfg_cas = [(''tls'', sample_tls_ca)], cfg_unknown = []\<rparr>"
  by code_simp

definition sample_issuer :: certificate where
  "sample_issuer = make_cert ''0A'' ''fp-ca'' ''key-root'' ''key-ca'' 0 10000000000
     [(Common_name, ''Root E1'')] [(Common_name, ''CA E1'')]
     (signing_ca_extensions sample_config sample_tls_ca (sample_cert ''r'' ''R'' ''R'') ''root-e1'' ''KID'')"

lemma sample_issuer_value [code]:
  "sample_issuer =
     \<lparr>x_serial = ''0A'', x_fp = ''fp-ca'', x_pub = ''key-ca'', x_issuer = [(Common_name, ''Root E1'')],
      x_subject = [(Common_name, ''CA E1'')], x_not_before = 0, x_not_after = 10000000000,
      x_exts = [(True, Basic_Constraints True (Some 0)), (True, Key_Usage 1536),
        (False, Authority_Key_ID ''R''), (False, Subject_Key_ID ''KID''),
        (False, Ext_Key_Usage [''1.3.6.1.5.5.7.3.1'', ''1.3.6.1.5.5.7.3.2'']),
        (False, Authority_Info [''http://pki.example.ca/root-e1.crt'']),
        (False, CRL_Points [''http://pki.example.ca/root-e1.crl'']),
        (False, Cert_Policies [''1.3.6.1.4.1.1.1''])],
      x_signer = ''key-root''\<rparr>"
  by code_simp

definition sample_db :: db where
  "sample_db = \<lparr>db_cert_index = Some [cert_row_of sample_issuer ''signing'' ''tls'' ''active'' 0],
     db_ca_index = None, db_enrollment = None, db_snapshot = \<lparr>snap_config = None, snap_purposes = None\<rparr>,
     db_store = insert_key ''pw'' sample_issuer ''key-ca''
       \<lparr>cs_certs = Map.empty, cs_keys = Map.empty, cs_revoked = Map.empty\<rparr>\<rparr>"

definition sample_world :: world where
  "sample_world = \<lparr>w_dir = Dir_used, w_db = Some sample_db,
     w_files = [ca_file ''ca-e1'' ''.pem'' \<mapsto> Cert_pem sample_issuer], w_tokens = []\<rparr>"

definition sample_env :: "nat \<Rightarrow> env" where
  "sample_env t = \<lparr>e_secrets = \<lparr>sec_passphrase = ''pw'', sec_pin = [], sec_root_pin = []\<rparr>,
     e_clock = (\<lambda>i. t + i), e_lock = True, e_commit = True, e_write = (\<lambda>_. True)\<rparr>"

definition sample_fresh :: fresh where
  "sample_fresh = \<lparr>f_serial = ''0B'', f_fp = ''fp-1'', f_pub = ''key-1'', f_kid = ''KID1''\<rparr>"

end
