(* ===== verification/Issue.thy ===== *)
theory Issue
  imports World
begin

text \<open>
  Issuing leaves: \<^verbatim>\<open>issue_ee\<close> (the key is generated here) and \<^verbatim>\<open>sign_csr\<close>
  (the key comes in a request), with the enrollment and nonce operations that guard the second. Each
  is split where the code takes the write lock: the checks before it, made on the store as it is then,
  yield a plan; the part under the lock repeats what must hold and records the certificate.
\<close>

section \<open>Errors\<close>

datatype request_error =
    Unknown_profile string
  | Csr_only string
  | No_issuer string
  | Valid_out_of_range
  | Cn_not_dns string
  | San_required
  | Email_san_required
  | Dns_san_invalid string
  | Email_san_invalid string
  | Uri_san_invalid string
  | Many_uri_sans
  | Csr_unreadable
  | Csr_invalid
  | Csr_key_policy
  | Csr_many_cns
  | Csr_no_name

text \<open>The constructors from \<open>Lock_failed\<close> on are exceptions, which roll the transaction back
  like an early return.\<close>

datatype ca_error =
    Request request_error
  | Ip_san_invalid string
  | Not_initialized
  | Secret_missing string
  | Ca_cert_missing
  | Outlives_ca
  | Duplicate_active
  | Cannot_load_key key_error
  | Key_missing
  | Bad_id
  | Already_enrolled
  | Not_enrolled
  | Nonce_refused
  | Lock_failed
  | Commit_failed
  | Throws_store store_error
  | Throws_load load_error
  | Throws_not_ca
  | Throws_san

section \<open>What may be requested\<close>

datatype san_kind = K_dns | K_email | K_ip | K_uri

type_synonym request_san = "san_kind \<times> string"

definition check_valid_override :: "signing_ca \<Rightarrow> int \<Rightarrow> bool" where
  "check_valid_override ca v \<longleftrightarrow>
     min_valid_override_minutes * 60 \<le> v \<and> v \<le> ca_ee_valid_days ca * 86400"

definition valid_uri_san :: "string \<Rightarrow> bool" where
  "valid_uri_san v \<longleftrightarrow>
     (if \<not> uri_safe v then False
      else if starts_with v ''spiffe:'' \<and> \<not> spiffe_id_safe v then False
      else True)"

definition subject_sans :: "profile_def \<Rightarrow> string \<Rightarrow> request_san list \<Rightarrow> request_error + request_san list" where
  "subject_sans prof cn extra =
     (case pd_subject prof of
        DnsCn \<Rightarrow> if \<not> dns_safe cn then Inl (Cn_not_dns cn) else Inr ((K_dns, cn) # extra)
      | RequireSan \<Rightarrow> if extra = [] then Inl San_required else Inr extra
      | EmailMatchingCn \<Rightarrow>
          if \<not> list_ex (\<lambda>s. s = (K_email, cn)) extra then Inl Email_san_required else Inr extra)"

fun check_sans :: "request_san list \<Rightarrow> request_error + unit" where
  "check_sans [] = Inr ()"
| "check_sans ((k, v) # sans) =
     (if k = K_dns \<and> \<not> dns_safe v then Inl (Dns_san_invalid v)
      else if k = K_email \<and> \<not> ascii_graphic v then Inl (Email_san_invalid v)
      else if k = K_uri \<and> \<not> valid_uri_san v then Inl (Uri_san_invalid v)
      else check_sans sans)"

definition validity_of :: "signing_ca \<Rightarrow> int option \<Rightarrow> int" where
  "validity_of ca valid_override =
     (case valid_override of Some v \<Rightarrow> v | None \<Rightarrow> ca_ee_valid_days ca * 86400)"

definition override_refused :: "signing_ca \<Rightarrow> int option \<Rightarrow> bool" where
  "override_refused ca valid_override =
     (case valid_override of Some v \<Rightarrow> \<not> check_valid_override ca v | None \<Rightarrow> False)"

definition issue_request ::
  "config \<Rightarrow> string \<Rightarrow> string \<Rightarrow> request_san list \<Rightarrow> int option
    \<Rightarrow> request_error + profile_def \<times> signing_ca \<times> request_san list" where
  "issue_request c profile cn extra valid_override =
     (case profile_find profile of
        None \<Rightarrow> Inl (Unknown_profile profile)
      | Some prof \<Rightarrow>
          if pd_csr_only prof then Inl (Csr_only profile)
          else case ca_for_profile c profile of
              None \<Rightarrow> Inl (No_issuer profile)
            | Some ca \<Rightarrow>
                if override_refused ca valid_override then Inl Valid_out_of_range
                else rbind (subject_sans prof cn extra) (\<lambda>sans.
                     rbind (check_sans sans) (\<lambda>_.
                       if length (filter (\<lambda>(k, _). k = K_uri) sans) > 1 then Inl Many_uri_sans
                       else Inr (prof, ca, sans))))"

text \<open>\<^verbatim>\<open>AlternativeName\<close> holds a set of each kind; \<open>canon\<close> is the value Botan
  stores for one given, or \<^term>\<open>None\<close> when it throws.\<close>

definition add_name :: "(san \<Rightarrow> san option) \<Rightarrow> san \<Rightarrow> san list \<Rightarrow> ca_error + san list" where
  "add_name canon s an =
     (case canon s of None \<Rightarrow> Inl Throws_san
      | Some v \<Rightarrow> Inr (if v \<in> set an then an else an @ [v]))"

fun add_names :: "(san \<Rightarrow> san option) \<Rightarrow> san list \<Rightarrow> san list \<Rightarrow> ca_error + san list" where
  "add_names canon [] an = Inr an"
| "add_names canon (s # ss) an = rbind (add_name canon s an) (add_names canon ss)"

fun alt_names :: "(san \<Rightarrow> san option) \<Rightarrow> request_san list \<Rightarrow> san list \<Rightarrow> ca_error + san list" where
  "alt_names canon [] an = Inr an"
| "alt_names canon ((k, v) # sans) an =
     (case k of
        K_dns \<Rightarrow> rbind (add_name canon (Dns v) an) (alt_names canon sans)
      | K_email \<Rightarrow> rbind (add_name canon (Email v) an) (alt_names canon sans)
      | K_ip \<Rightarrow>
          (case parse_ipv4 v of None \<Rightarrow> Inl (Ip_san_invalid v)
           | Some a \<Rightarrow> rbind (add_name canon (Ip a) an) (alt_names canon sans))
      | K_uri \<Rightarrow> rbind (add_name canon (Uri v) an) (alt_names canon sans))"

section \<open>The signer\<close>

fun lift_request :: "request_error + 'a \<Rightarrow> ca_error + 'a" where
  "lift_request (Inl e) = Inl (Request e)"
| "lift_request (Inr x) = Inr x"

definition find_signer ::
  "env \<Rightarrow> config \<Rightarrow> world \<Rightarrow> signing_ca \<Rightarrow> nat \<Rightarrow> int \<Rightarrow> ca_error + ca_gen \<times> certificate" where
  "find_signer e c w ca now validity =
     (case w_db w of None \<Rightarrow> Inl Not_initialized
      | Some d \<Rightarrow>
          if ca_secret (spec_of ca) (e_secrets e) = [] then Inl (Secret_missing (secret_env (spec_of ca)))
          else let sign = active_ca d c (ca_purpose ca) in
            case load_ca_cert w (gn_slug sign) of
              Inl x \<Rightarrow> Inl (Throws_load x)
            | Inr None \<Rightarrow> Inl Ca_cert_missing
            | Inr (Some cert) \<Rightarrow>
                if outlives_issuer cert now validity then Inl Outlives_ca else Inr (sign, cert))"

definition signing_key ::
  "env \<Rightarrow> config \<Rightarrow> world \<Rightarrow> db \<Rightarrow> certificate \<Rightarrow> ca_spec \<Rightarrow> string \<Rightarrow> sessions \<Rightarrow> ca_error + string \<times> sessions" where
  "signing_key e c w d cert spec sl tokens =
     (case ca_key c (e_secrets e) (w_tokens w) (db_store d) cert spec sl tokens of
        Inl err \<Rightarrow> Inl (Cannot_load_key err)
      | Inr (None, _) \<Rightarrow> Inl Key_missing
      | Inr (Some key, tokens') \<Rightarrow> Inr (key, tokens'))"

definition check_duplicate :: "db \<Rightarrow> string \<Rightarrow> string \<Rightarrow> nat \<Rightarrow> ca_error + unit" where
  "check_duplicate d cn kind now =
     (case rows (db_cert_index d) of
        Inl x \<Rightarrow> Inl (Throws_store x)
      | Inr rs \<Rightarrow> if blocking_duplicate rs cn kind now then Inl Duplicate_active else Inr ())"

text \<open>What the checks before the lock settle.\<close>

record plan =
  pl_prof :: profile_def
  pl_ca :: signing_ca
  pl_validity :: int
  pl_gen :: ca_gen
  pl_cert :: certificate
  pl_key :: string

definition leaf_cert ::
  "config \<Rightarrow> plan \<Rightarrow> string \<Rightarrow> fresh \<Rightarrow> string \<Rightarrow> san list \<Rightarrow> nat \<Rightarrow> certificate" where
  "leaf_cert c p cn fr pub san tp =
     make_cert (f_serial fr) (f_fp fr) (pl_key p) pub tp (nat (int tp + pl_validity p))
       (x_subject (pl_cert p)) (subject_dn (cfg_pki c) cn (ca_simple_dn (pl_ca p)))
       (ee_extensions c (pl_ca p) (pl_prof p) (pl_cert p) (gn_slug (pl_gen p)) (f_kid fr) san)"

definition record_cert :: "certificate \<Rightarrow> string \<Rightarrow> string \<Rightarrow> db \<Rightarrow> db" where
  "record_cert cert kind purpose d =
     d\<lparr>db_store := insert_cert cert (db_store d),
       db_cert_index := map_option (index_cert cert kind purpose ''active'' 0) (db_cert_index d)\<rparr>"

section \<open>create\<close>

definition issue_precheck ::
  "env \<Rightarrow> config \<Rightarrow> world \<Rightarrow> string \<Rightarrow> string \<Rightarrow> request_san list \<Rightarrow> int option
    \<Rightarrow> ca_error + plan \<times> request_san list" where
  "issue_precheck e c w profile cn extra valid_override =
     rbind (lift_request (issue_request c profile cn extra valid_override)) (\<lambda>(prof, ca, sans).
     rbind (find_signer e c w ca (e_clock e 0) (validity_of ca valid_override)) (\<lambda>(sign, cert).
     case w_db w of None \<Rightarrow> Inl Not_initialized
     | Some d \<Rightarrow>
     rbind (check_duplicate d cn profile (e_clock e 1)) (\<lambda>_.
     rbind (signing_key e c w d cert (spec_of ca) (gn_slug sign) []) (\<lambda>(key, _).
       Inr (\<lparr>pl_prof = prof, pl_ca = ca, pl_validity = validity_of ca valid_override, pl_gen = sign,
              pl_cert = cert, pl_key = key\<rparr>, sans)))))"

definition write_leaf :: "env \<Rightarrow> string \<Rightarrow> certificate \<Rightarrow> string \<Rightarrow> world \<Rightarrow> world \<times> bool" where
  "write_leaf e cn cert key w =
     (let (w1, ok1) = put_file e (ee_file (slug cn) ''.crt'') (Cert_pem cert) w;
          (w2, ok2) = put_file e (ee_file (slug cn) ''.key'') (Key_pem key) w1
      in (w2, ok1 \<and> ok2))"

definition issue_locked ::
  "env \<Rightarrow> config \<Rightarrow> (san \<Rightarrow> san option) \<Rightarrow> fresh \<Rightarrow> string \<Rightarrow> string \<Rightarrow> plan \<Rightarrow> request_san list \<Rightarrow> world
    \<Rightarrow> ca_error + world \<times> certificate \<times> bool" where
  "issue_locked e c canon fr profile cn p sans w =
     (case w_db w of None \<Rightarrow> Inl Not_initialized
      | Some d0 \<Rightarrow>
          if \<not> e_lock e then Inl Lock_failed
          else let d = ensure_cert_index d0 in
            rbind (check_duplicate d cn profile (e_clock e 2)) (\<lambda>_.
            rbind (alt_names canon sans []) (\<lambda>an.
              if \<not> is_CA_cert (pl_cert p) then Inl Throws_not_ca
              else let cert = leaf_cert c p cn fr (f_pub fr) an (e_clock e 3) in
                if \<not> e_commit e then Inl Commit_failed
                else case write_leaf e cn cert (f_pub fr)
                       (w\<lparr>w_db := Some (record_cert cert profile (gn_purpose (pl_gen p)) d)\<rparr>) of
                  (w', ok) \<Rightarrow> Inr (w', cert, ok))))"

definition issue_ee ::
  "env \<Rightarrow> config \<Rightarrow> (san \<Rightarrow> san option) \<Rightarrow> fresh \<Rightarrow> string \<Rightarrow> string \<Rightarrow> request_san list \<Rightarrow> int option \<Rightarrow> world
    \<Rightarrow> ca_error + world \<times> certificate \<times> bool" where
  "issue_ee e c canon fr profile cn extra valid_override w =
     rbind (issue_precheck e c w profile cn extra valid_override) (\<lambda>(p, sans).
       issue_locked e c canon fr profile cn p sans w)"

section \<open>Enrollment\<close>

definition ensure_enrollment :: "db \<Rightarrow> db" where
  "ensure_enrollment d = d\<lparr>db_enrollment := Some (case db_enrollment d of None \<Rightarrow> [] | Some rs \<Rightarrow> rs)\<rparr>"

definition control_char :: "char \<Rightarrow> bool" where
  "control_char ch \<longleftrightarrow> (of_char ch :: nat) < 0x20 \<or> (of_char ch :: nat) = 0x7f"

definition enrolled :: "string \<Rightarrow> db \<Rightarrow> enroll_row option" where
  "enrolled who d = (case db_enrollment d of None \<Rightarrow> None | Some rs \<Rightarrow> find (\<lambda>r. n_id r = who) rs)"

definition enroll :: "env \<Rightarrow> string \<Rightarrow> world \<Rightarrow> ca_error + world" where
  "enroll e who w =
     (if who = [] \<or> length who > 256 then Inl Bad_id
      else if list_ex control_char who then Inl Bad_id
      else case w_db w of None \<Rightarrow> Inl Not_initialized
        | Some d0 \<Rightarrow>
            if \<not> e_lock e then Inl Lock_failed
            else let d = ensure_enrollment d0 in
              if enrolled who d \<noteq> None then Inl Already_enrolled
              else if \<not> e_commit e then Inl Commit_failed
              else Inr (w\<lparr>w_db := Some (d\<lparr>db_enrollment := map_option (\<lambda>rs. rs @
                   [\<lparr>n_id = who, n_role = ''ee'', n_created = e_clock e 0, n_nonce = None, n_issued = 0,
                     n_validity = 0, n_consumed = 1\<rparr>]) (db_enrollment d)\<rparr>)\<rparr>))"

text \<open>\<^verbatim>\<open>IFNULL(nonce,'')\<close>.\<close>

definition row_nonce :: "enroll_row \<Rightarrow> string" where
  "row_nonce r = (case n_nonce r of None \<Rightarrow> [] | Some s \<Rightarrow> c_str s)"

definition set_enrollment :: "string \<Rightarrow> (enroll_row \<Rightarrow> enroll_row) \<Rightarrow> db \<Rightarrow> db" where
  "set_enrollment who f d =
     d\<lparr>db_enrollment := map_option (map (\<lambda>r. if n_id r = who then f r else r)) (db_enrollment d)\<rparr>"

definition reusable :: "enroll_row \<Rightarrow> nat \<Rightarrow> bool" where
  "reusable r now \<longleftrightarrow>
     (let expiry = n_issued r + n_validity r * 60;
          min_left = max nonce_rotate_floor_secs (n_validity r * 60 * nonce_rotate_pct div 100)
      in row_nonce r \<noteq> [] \<and> n_consumed r = 0 \<and> now < expiry \<and> expiry - now \<ge> min_left)"

text \<open>\<open>raw\<close> is the hex of the random bytes.\<close>

definition get_nonce :: "env \<Rightarrow> string \<Rightarrow> string \<Rightarrow> world \<Rightarrow> ca_error + world \<times> string" where
  "get_nonce e raw who w =
     (case w_db w of None \<Rightarrow> Inl Not_initialized
      | Some d0 \<Rightarrow>
          if \<not> e_lock e then Inl Lock_failed
          else let d = ensure_enrollment d0 in
            case enrolled who d of None \<Rightarrow> Inl Not_enrolled
            | Some r \<Rightarrow>
                if \<not> e_commit e then Inl Commit_failed
                else if reusable r (e_clock e 0) then Inr (w\<lparr>w_db := Some d\<rparr>, row_nonce r)
                else Inr (w\<lparr>w_db := Some (set_enrollment who (\<lambda>r. r\<lparr>n_nonce := Some raw,
                       n_issued := e_clock e 0, n_validity := max_nonce_validity, n_consumed := 0\<rparr>) d)\<rparr>, raw))"

definition nonce_valid :: "enroll_row \<Rightarrow> string \<Rightarrow> nat \<Rightarrow> bool" where
  "nonce_valid r nonce now \<longleftrightarrow>
     \<not> (row_nonce r = [] \<or> n_consumed r \<noteq> 0 \<or> n_issued r + n_validity r * 60 \<le> now \<or> nonce \<noteq> row_nonce r)"

definition check_nonce :: "db \<Rightarrow> string \<Rightarrow> string \<Rightarrow> nat \<Rightarrow> ca_error + unit" where
  "check_nonce d who nonce now =
     (case enrolled who d of
        None \<Rightarrow> Inl Not_enrolled
      | Some r \<Rightarrow> if nonce_valid r nonce now then Inr () else Inl Nonce_refused)"

section \<open>sign\<close>

definition read_csr_bytes :: "string \<Rightarrow> (string \<Rightarrow> string option) \<Rightarrow> string \<Rightarrow> request_error + string" where
  "read_csr_bytes stdin files src =
     (if starts_with src ''-----BEGIN'' then Inr src
      else case (if src = ''-'' then Some stdin else files src) of
          None \<Rightarrow> Inl Csr_unreadable
        | Some bytes \<Rightarrow> if bytes = [] then Inl Csr_unreadable else Inr bytes)"

text \<open>What Botan's parser reports of a request whose signature verifies. The curve is
  \<^term>\<open>None\<close> for a key that is not ECDSA; the names are sets, listed in order.\<close>

record csr =
  q_curve :: "string option"
  q_pub :: string
  q_cns :: "string list"
  q_dns :: "string list"
  q_email :: "string list"
  q_ipv4 :: "u32 list"
  q_uris :: "string list"

definition csr_cn :: "csr \<Rightarrow> request_error + string" where
  "csr_cn q =
     (if length (q_cns q) > 1 then Inl Csr_many_cns
      else case q_cns q of
          cn # _ \<Rightarrow> Inr cn
        | [] \<Rightarrow> (case q_dns q of d # _ \<Rightarrow> Inr d | [] \<Rightarrow> Inl Csr_no_name))"

definition csr_sans_ok :: "csr \<Rightarrow> request_error + unit" where
  "csr_sans_ok q =
     (case find (\<lambda>d. \<not> dns_safe d) (q_dns q) of Some d \<Rightarrow> Inl (Dns_san_invalid d)
      | None \<Rightarrow>
     (case find (\<lambda>m. \<not> ascii_graphic m) (q_email q) of Some m \<Rightarrow> Inl (Email_san_invalid m)
      | None \<Rightarrow>
          if length (q_uris q) > 1 then Inl Many_uri_sans
          else case find (\<lambda>u. \<not> valid_uri_san u) (q_uris q) of Some u \<Rightarrow> Inl (Uri_san_invalid u)
            | None \<Rightarrow> Inr ()))"

definition csr_sans :: "csr \<Rightarrow> san list" where
  "csr_sans q = map Dns (q_dns q) @ map Email (q_email q) @ map Ip (q_ipv4 q) @ map Uri (q_uris q)"

definition csr_subject :: "profile_def \<Rightarrow> string \<Rightarrow> csr \<Rightarrow> request_error + san list" where
  "csr_subject prof cn q =
     (case pd_subject prof of
        DnsCn \<Rightarrow> if \<not> dns_safe cn then Inl (Cn_not_dns cn) else Inr (Dns cn # csr_sans q)
      | RequireSan \<Rightarrow>
          if length (q_dns q) + length (q_email q) + length (q_ipv4 q) + length (q_uris q) = 0
          then Inl San_required else Inr (csr_sans q)
      | EmailMatchingCn \<Rightarrow> if cn \<notin> set (q_email q) then Inl Email_san_required else Inr (csr_sans q))"

definition csr_request ::
  "config \<Rightarrow> (string \<Rightarrow> csr option) \<Rightarrow> string \<Rightarrow> request_error + string \<Rightarrow> int option
    \<Rightarrow> request_error + profile_def \<times> signing_ca \<times> csr \<times> string \<times> san list" where
  "csr_request c parse profile bytes valid_override =
     (case profile_find profile of
        None \<Rightarrow> Inl (Unknown_profile profile)
      | Some prof \<Rightarrow>
          (case ca_for_profile c profile of
             None \<Rightarrow> Inl (No_issuer profile)
           | Some ca \<Rightarrow>
               if override_refused ca valid_override then Inl Valid_out_of_range
               else rbind bytes (\<lambda>bs.
                 case parse bs of
                   None \<Rightarrow> Inl Csr_invalid
                 | Some q \<Rightarrow>
                     if q_curve q \<noteq> Some (ca_ee_curve ca) then Inl Csr_key_policy
                     else rbind (csr_cn q) (\<lambda>cn.
                          rbind (csr_sans_ok q) (\<lambda>_.
                          rbind (csr_subject prof cn q) (\<lambda>sans. Inr (prof, ca, q, cn, sans)))))))"

text \<open>The tables are made sure of outside any transaction, so they stay when the request is then
  refused.\<close>

definition ensure_sign_tables :: "world \<Rightarrow> world" where
  "ensure_sign_tables w = w\<lparr>w_db := map_option (\<lambda>d. ensure_enrollment (ensure_cert_index d)) (w_db w)\<rparr>"

definition sign_checks ::
  "env \<Rightarrow> config \<Rightarrow> world \<Rightarrow> string \<Rightarrow> string \<Rightarrow> string \<Rightarrow> string \<Rightarrow> signing_ca \<Rightarrow> ca_gen \<Rightarrow> certificate
    \<Rightarrow> ca_error + string" where
  "sign_checks e c w profile who nonce cn ca sign cert =
     (case w_db w of None \<Rightarrow> Inl Not_initialized
      | Some d \<Rightarrow>
          rbind (check_nonce d who nonce (e_clock e 1)) (\<lambda>_.
          rbind (check_duplicate d cn profile (e_clock e 2)) (\<lambda>_.
          rbind (signing_key e c w d cert (spec_of ca) (gn_slug sign) []) (\<lambda>(key, _). Inr key))))"

definition sign_precheck ::
  "env \<Rightarrow> config \<Rightarrow> (san \<Rightarrow> san option) \<Rightarrow> world \<Rightarrow> string \<Rightarrow> string \<Rightarrow> string
    \<Rightarrow> request_error + profile_def \<times> signing_ca \<times> csr \<times> string \<times> san list \<Rightarrow> int option
    \<Rightarrow> world \<times> (ca_error + plan \<times> csr \<times> string \<times> san list)" where
  "sign_precheck e c canon w profile who nonce req valid_override =
     (case rbind (lift_request req) (\<lambda>(prof, ca, q, cn, sans).
             rbind (add_names canon sans []) (\<lambda>an.
             rbind (find_signer e c w ca (e_clock e 0) (validity_of ca valid_override)) (\<lambda>(sign, cert).
               Inr (prof, ca, q, cn, an, sign, cert)))) of
        Inl x \<Rightarrow> (w, Inl x)
      | Inr (prof, ca, q, cn, an, sign, cert) \<Rightarrow>
          (ensure_sign_tables w,
           rbind (sign_checks e c (ensure_sign_tables w) profile who nonce cn ca sign cert) (\<lambda>key.
             Inr (\<lparr>pl_prof = prof, pl_ca = ca, pl_validity = validity_of ca valid_override, pl_gen = sign,
                    pl_cert = cert, pl_key = key\<rparr>, q, cn, an))))"

definition consume :: "string \<Rightarrow> db \<Rightarrow> db" where
  "consume who d = set_enrollment who (\<lambda>r. r\<lparr>n_consumed := 1\<rparr>) d"

definition sign_locked ::
  "env \<Rightarrow> config \<Rightarrow> fresh \<Rightarrow> string \<Rightarrow> string \<Rightarrow> string \<Rightarrow> plan \<Rightarrow> csr \<Rightarrow> string \<Rightarrow> san list \<Rightarrow> world
    \<Rightarrow> ca_error + world \<times> certificate" where
  "sign_locked e c fr profile who nonce p q cn an w =
     (case w_db w of None \<Rightarrow> Inl Not_initialized
      | Some d0 \<Rightarrow>
          if \<not> e_lock e then Inl Lock_failed
          else let d = ensure_enrollment (ensure_cert_index d0) in
            rbind (check_nonce d who nonce (e_clock e 3)) (\<lambda>_.
            rbind (check_duplicate d cn profile (e_clock e 4)) (\<lambda>_.
              if \<not> is_CA_cert (pl_cert p) then Inl Throws_not_ca
              else let cert = leaf_cert c p cn fr (q_pub q) an (e_clock e 5) in
                if \<not> e_commit e then Inl Commit_failed
                else Inr (w\<lparr>w_db := Some (consume who (record_cert cert profile (gn_purpose (pl_gen p)) d))\<rparr>,
                       cert))))"

definition sign_csr ::
  "env \<Rightarrow> config \<Rightarrow> (san \<Rightarrow> san option) \<Rightarrow> (string \<Rightarrow> csr option) \<Rightarrow> fresh \<Rightarrow> string \<Rightarrow> string \<Rightarrow> string
    \<Rightarrow> request_error + string \<Rightarrow> int option \<Rightarrow> world \<Rightarrow> world \<times> (ca_error + certificate)" where
  "sign_csr e c canon parse fr profile who nonce bytes valid_override w =
     (case sign_precheck e c canon w profile who nonce (csr_request c parse profile bytes valid_override)
             valid_override of
        (w1, Inl x) \<Rightarrow> (w1, Inl x)
      | (w1, Inr (p, q, cn, an)) \<Rightarrow>
          (case sign_locked e c fr profile who nonce p q cn an w1 of
             Inl x \<Rightarrow> (w1, Inl x)
           | Inr (w2, cert) \<Rightarrow> (w2, Inr cert)))"

section \<open>Facts the properties share\<close>

lemma cert_cn_leaf [simp]: "cert_cn (leaf_cert c p cn fr pub san tp) = cn"
  by (simp add: cert_cn_def leaf_cert_def make_cert_def subject_dn_def Let_def add_attribute_def first_attribute_def)

lemma leaf_cert_fields [simp]:
  "x_fp (leaf_cert c p cn fr pub san tp) = f_fp fr" "x_serial (leaf_cert c p cn fr pub san tp) = f_serial fr"
  "x_not_before (leaf_cert c p cn fr pub san tp) = tp"
  "x_not_after (leaf_cert c p cn fr pub san tp) = nat (int tp + pl_validity p)"
  "x_signer (leaf_cert c p cn fr pub san tp) = pl_key p"
  "x_pub (leaf_cert c p cn fr pub san tp) = pub"
  by (simp_all add: leaf_cert_def make_cert_def)

lemma active_ca_purpose:
  "nul_free purpose \<Longrightarrow> gn_purpose (active_ca d c purpose) = purpose"
  by (auto simp: active_ca_def config_gen_def gen_of_row_def split: option.splits dest!: top_by_Some)

lemma record_cert_index:
  "db_cert_index d = Some rs \<Longrightarrow>
   db_cert_index (record_cert cert kind purpose d) = Some (index_cert cert kind purpose ''active'' 0 rs)"
  by (simp add: record_cert_def)

lemma record_cert_store [simp]: "load_cert (db_store (record_cert cert kind purpose d)) (x_fp cert) = Some cert"
  by (simp add: record_cert_def ks.get_put_cert)

lemma ensure_cert_index_Some: "\<exists>rs. db_cert_index (ensure_cert_index d) = Some rs"
  by (simp add: ensure_cert_index_def)

text \<open>A certificate just recorded blocks the next one for its name and profile.\<close>

lemma recorded_blocks:
  "x_not_before cert < x_not_after cert \<Longrightarrow> x_not_before cert \<le> now \<Longrightarrow>
   100 * (now - x_not_before cert) < 67 * (x_not_after cert - x_not_before cert) \<Longrightarrow>
   check_duplicate (record_cert cert kind purpose (ensure_cert_index d)) (cert_cn cert) kind now = Inl Duplicate_active"
proof -
  assume le: "x_not_before cert < x_not_after cert" "x_not_before cert \<le> now"
    and left: "100 * (now - x_not_before cert) < 67 * (x_not_after cert - x_not_before cert)"
  obtain rs where rs: "db_cert_index (ensure_cert_index d) = Some rs" using ensure_cert_index_Some by blast
  let ?r = "cert_row_of cert kind purpose ''active'' 0"
  have "now < x_not_after cert" "blocks now ?r"
    using le left by (auto simp: blocks_def cert_row_of_def renew_window_pct_def of_nat_diff)
  then have "blocking_duplicate (index_cert cert kind purpose ''active'' 0 rs) (cert_cn cert) kind now"
    unfolding blocking_duplicate_iff by (intro bexI [of _ ?r]) (simp_all add: index_cert_def cert_row_of_def)
  then show ?thesis by (simp add: check_duplicate_def record_cert_index [OF rs])
qed

lemma ca_for_profile_ok:
  "config_ok c \<Longrightarrow> ca_for_profile c profile = Some ca \<Longrightarrow>
   (ca_purpose ca, ca) \<in> set (cfg_cas c) \<and> profile \<in> set (ca_profiles ca) \<and> nul_free (ca_purpose ca) \<and>
   0 < ca_ee_valid_days ca \<and> ca_ee_valid_days ca \<le> 825"
proof -
  assume ok: "config_ok c" and ca: "ca_for_profile c profile = Some ca"
  then obtain purpose where p: "(purpose, ca) \<in> set (cfg_cas c)" "profile \<in> set (ca_profiles ca)"
    by (auto simp: ca_for_profile_def find_Some_iff list_ex_iff) (metis nth_mem)
  from config_ok_ca [OF ok p(1)] have iss: "issuing_ok (ca_valid_days (cfg_root c)) purpose ca" by blast
  then obtain d where d: "profile_find profile = Some d" "ca_ee_valid_days ca \<le> pd_max_valid_days d"
    using p(2) by (auto simp: issuing_ok_def)
  from iss p show ?thesis
    using profile_cap_le_max [of d] profile_find_Some [OF d(1)] d(2)
    by (auto simp: issuing_ok_def max_valid_days_eq intro: plain_nul_free plain_slug)
qed

lemma validity_bounds:
  "0 < ca_ee_valid_days ca \<Longrightarrow> \<not> override_refused ca ov \<Longrightarrow>
   0 < validity_of ca ov \<and> validity_of ca ov \<le> ca_ee_valid_days ca * 86400"
  by (auto simp: override_refused_def validity_of_def check_valid_override_def min_valid_override_minutes_def
      split: option.splits)

lemma lift_request_Inr [simp]: "lift_request r = Inr x \<longleftrightarrow> r = Inr x"
  by (cases r) auto

lemma check_duplicate_Inr:
  "check_duplicate d cn kind now = Inr u \<longleftrightarrow>
   (\<exists>rs. db_cert_index d = Some rs \<and> \<not> blocking_duplicate rs cn kind now)"
  by (auto simp: check_duplicate_def split: sum.splits)

lemma find_signer_Inr:
  "find_signer e c w ca now validity = Inr (sign, cert) \<longleftrightarrow>
   (\<exists>d. w_db w = Some d \<and> ca_secret (spec_of ca) (e_secrets e) \<noteq> [] \<and> sign = active_ca d c (ca_purpose ca) \<and>
      load_ca_cert w (gn_slug sign) = Inr (Some cert) \<and> \<not> outlives_issuer cert now validity)"
  by (auto simp: find_signer_def Let_def split: option.splits sum.splits)

lemma signing_key_Inr:
  "signing_key e c w d cert spec sl tokens = Inr (key, tokens') \<longleftrightarrow>
   ca_key c (e_secrets e) (w_tokens w) (db_store d) cert spec sl tokens = Inr (Some key, tokens')"
  by (auto simp: signing_key_def split: sum.splits option.splits prod.splits)

lemma issue_request_Inr:
  "issue_request c profile cn extra ov = Inr (prof, ca, sans) \<Longrightarrow>
   profile_find profile = Some prof \<and> \<not> pd_csr_only prof \<and> ca_for_profile c profile = Some ca \<and>
   \<not> override_refused ca ov \<and> subject_sans prof cn extra = Inr sans \<and> check_sans sans = Inr () \<and>
   length (filter (\<lambda>(k, _). k = K_uri) sans) \<le> 1"
  by (auto simp: issue_request_def rbind_Inr split: option.splits if_splits)

lemma issue_precheck_Inr:
  "issue_precheck e c w profile cn extra ov = Inr (p, sans) \<Longrightarrow>
   issue_request c profile cn extra ov = Inr (pl_prof p, pl_ca p, sans) \<and>
   find_signer e c w (pl_ca p) (e_clock e 0) (pl_validity p) = Inr (pl_gen p, pl_cert p) \<and>
   pl_validity p = validity_of (pl_ca p) ov \<and>
   (\<exists>d tokens. w_db w = Some d \<and> check_duplicate d cn profile (e_clock e 1) = Inr () \<and>
      signing_key e c w d (pl_cert p) (spec_of (pl_ca p)) (gn_slug (pl_gen p)) [] = Inr (pl_key p, tokens))"
  unfolding issue_precheck_def by (auto simp: rbind_Inr split: option.splits)

lemma put_file_db [simp]: "w_db (fst (put_file e loc a w)) = w_db w" "w_tokens (fst (put_file e loc a w)) = w_tokens w"
  by (simp_all add: put_file_def)

lemma put_file_other: "l \<noteq> loc \<Longrightarrow> w_files (fst (put_file e loc a w)) l = w_files w l"
  by (simp add: put_file_def)

lemma write_leaf_db [simp]: "w_db (fst (write_leaf e cn cert key w)) = w_db w"
  by (simp add: write_leaf_def split_beta)

lemma write_leaf_other:
  "l \<noteq> ee_file (slug cn) ''.crt'' \<Longrightarrow> l \<noteq> ee_file (slug cn) ''.key'' \<Longrightarrow>
   w_files (fst (write_leaf e cn cert key w)) l = w_files w l"
  by (simp add: write_leaf_def split_beta put_file_other)

lemma issue_locked_Inr:
  "issue_locked e c canon fr profile cn p sans w = Inr (w', cert, ok) \<Longrightarrow>
   \<exists>d an. w_db w = Some d \<and> e_lock e \<and> e_commit e \<and> is_CA_cert (pl_cert p) \<and>
     check_duplicate (ensure_cert_index d) cn profile (e_clock e 2) = Inr () \<and>
     alt_names canon sans [] = Inr an \<and> cert = leaf_cert c p cn fr (f_pub fr) an (e_clock e 3) \<and>
     (w', ok) = write_leaf e cn cert (f_pub fr)
       (w\<lparr>w_db := Some (record_cert cert profile (gn_purpose (pl_gen p)) (ensure_cert_index d))\<rparr>)"
  by (auto simp: issue_locked_def rbind_Inr Let_def split: option.splits if_splits prod.splits)

section \<open>What issuing guarantees\<close>

text \<open>C7. A leaf that is issued is on record: the configuration has a CA for the profile, the
  certificate is in the store under its fingerprint and in the index as an active certificate of its
  name, profile and issuing CA, it names the CA's active generation as its issuer, and from the moment it
  is valid until a third of its life is left a second request for the name and profile is refused.\<close>

theorem issue_records:
  "config_ok c \<Longrightarrow> issue_ee e c canon fr profile cn extra ov w = Inr (w', cert, ok) \<Longrightarrow>
   \<exists>ca d rs gen issuer. ca_for_profile c profile = Some ca \<and> w_db w' = Some d \<and> db_cert_index d = Some rs \<and>
     cert_row_of cert profile (ca_purpose ca) ''active'' 0 \<in> set rs \<and> cert_cn cert = cn \<and>
     load_cert (db_store d) (x_fp cert) = Some cert \<and>
     gen = active_ca (the (w_db w)) c (ca_purpose ca) \<and> load_ca_cert w (gn_slug gen) = Inr (Some issuer) \<and>
     is_CA_cert issuer \<and> x_issuer cert = x_subject issuer \<and>
     (\<forall>now. x_not_before cert \<le> now \<longrightarrow>
        100 * (now - x_not_before cert) < 67 * (x_not_after cert - x_not_before cert) \<longrightarrow>
        check_duplicate d cn profile now = Inl Duplicate_active)"
proof -
  assume ok: "config_ok c" and run: "issue_ee e c canon fr profile cn extra ov w = Inr (w', cert, ok)"
  then obtain p sans where pre: "issue_precheck e c w profile cn extra ov = Inr (p, sans)"
      and lock: "issue_locked e c canon fr profile cn p sans w = Inr (w', cert, ok)"
    by (auto simp: issue_ee_def rbind_Inr)
  note pre = issue_precheck_Inr [OF pre]
  obtain d an where l: "w_db w = Some d" "is_CA_cert (pl_cert p)"
      "cert = leaf_cert c p cn fr (f_pub fr) an (e_clock e 3)"
      "(w', ok) = write_leaf e cn cert (f_pub fr)
         (w\<lparr>w_db := Some (record_cert cert profile (gn_purpose (pl_gen p)) (ensure_cert_index d))\<rparr>)"
    using issue_locked_Inr [OF lock] by blast
  from pre have ca: "ca_for_profile c profile = Some (pl_ca p)" and ov: "\<not> override_refused (pl_ca p) ov"
    by (auto dest: issue_request_Inr)
  note ca_ok = ca_for_profile_ok [OF ok ca]
  have val: "0 < pl_validity p" using validity_bounds [OF _ ov] ca_ok pre by simp
  obtain rs where rs: "db_cert_index (ensure_cert_index d) = Some rs" using ensure_cert_index_Some by blast
  have gen: "pl_gen p = active_ca d c (ca_purpose (pl_ca p))" "load_ca_cert w (gn_slug (pl_gen p)) = Inr (Some (pl_cert p))"
    using pre l(1) by (auto simp: find_signer_Inr)
  then have purpose: "gn_purpose (pl_gen p) = ca_purpose (pl_ca p)" using active_ca_purpose ca_ok by simp
  let ?d = "record_cert cert profile (ca_purpose (pl_ca p)) (ensure_cert_index d)"
  have db: "w_db w' = Some ?d"
    using arg_cong [OF l(4), of fst] purpose by simp
  have "x_not_before cert < x_not_after cert" using val by (simp add: l(3))
  then have dup: "\<forall>now. x_not_before cert \<le> now \<longrightarrow>
        100 * (now - x_not_before cert) < 67 * (x_not_after cert - x_not_before cert) \<longrightarrow>
        check_duplicate ?d cn profile now = Inl Duplicate_active"
    using recorded_blocks [of cert _ profile] by (metis cert_cn_leaf l(3))
  have "cert_row_of cert profile (ca_purpose (pl_ca p)) ''active'' 0 \<in>
      set (index_cert cert profile (ca_purpose (pl_ca p)) ''active'' 0 rs)" by (simp add: index_cert_def)
  moreover have "x_issuer cert = x_subject (pl_cert p)" by (simp add: l(3) leaf_cert_def make_cert_def)
  moreover have "cert_cn cert = cn" by (simp add: l(3))
  ultimately show ?thesis using ca db record_cert_index [OF rs] dup gen l(1,2) record_cert_store by fastforce
qed

definition sample_issue :: "ca_error + world \<times> certificate \<times> bool" where
  "sample_issue = issue_ee (sample_env 1000) sample_config Some sample_fresh ''server'' ''www.example.org''
     [(K_ip, ''10.0.0.1'')] None sample_world"

lemma sample_issue_ok: "\<exists>w' cert ok. sample_issue = Inr (w', cert, ok)"
proof -
  have "case sample_issue of Inr _ \<Rightarrow> True | Inl _ \<Rightarrow> False" by code_simp
  then show ?thesis by (auto split: sum.splits)
qed

theorem issue_records_witness:
  "\<exists>w' cert ok d. sample_issue = Inr (w', cert, ok) \<and> w_db w' = Some d \<and> cert_cn cert = ''www.example.org'' \<and>
     load_cert (db_store d) (x_fp cert) = Some cert"
proof -
  obtain w' cert ok where run: "sample_issue = Inr (w', cert, ok)" using sample_issue_ok by blast
  from issue_records [OF sample_config_ok run [unfolded sample_issue_def]] run show ?thesis by blast
qed

section \<open>Validity\<close>

lemma leaf_window:
  assumes ok: "config_ok c" and ca: "ca_for_profile c profile = Some (pl_ca p)"
    and ov: "\<not> override_refused (pl_ca p) ov" "pl_validity p = validity_of (pl_ca p) ov"
    and signer: "find_signer e c w (pl_ca p) t0 (pl_validity p) = Inr (pl_gen p, pl_cert p)"
    and clock: "t0 \<le> tp" "tp < 2 ^ 62" "x_not_after (pl_cert p) < 2 ^ 63"
  shows "x_not_before (leaf_cert c p cn fr pub san tp) < x_not_after (leaf_cert c p cn fr pub san tp)"
    and "x_not_after (leaf_cert c p cn fr pub san tp) \<le>
           x_not_before (leaf_cert c p cn fr pub san tp) + nat (ca_ee_valid_days (pl_ca p)) * 86400"
    and "x_not_after (leaf_cert c p cn fr pub san tp) \<le> x_not_after (pl_cert p) + (tp - t0)"
proof -
  note ca_ok = ca_for_profile_ok [OF ok ca]
  have val: "0 < pl_validity p" "pl_validity p \<le> ca_ee_valid_days (pl_ca p) * 86400"
    using validity_bounds [OF _ ov(1)] ca_ok ov(2) by simp_all
  have small: "pl_validity p < 2 ^ 62" using val(2) ca_ok by simp
  from signer have "\<not> outlives_issuer (pl_cert p) t0 (pl_validity p)" by (auto simp: find_signer_Inr)
  then have "t0 + nat (pl_validity p) \<le> x_not_after (pl_cert p)"
    using outlives_issuer_iff [of t0 "pl_validity p" "pl_cert p"] clock val small by simp
  then show "x_not_after (leaf_cert c p cn fr pub san tp) \<le> x_not_after (pl_cert p) + (tp - t0)"
    using clock(1) val(1) by (simp add: nat_add_distrib)
  show "x_not_before (leaf_cert c p cn fr pub san tp) < x_not_after (leaf_cert c p cn fr pub san tp)"
    using val(1) by simp
  show "x_not_after (leaf_cert c p cn fr pub san tp) \<le>
      x_not_before (leaf_cert c p cn fr pub san tp) + nat (ca_ee_valid_days (pl_ca p)) * 86400"
    using val by (simp add: nat_add_distrib nat_mult_distrib)
qed

text \<open>C36. The validity of an issued leaf: it begins when the certificate is made, lasts for more than
  nothing and at most the configured days of its CA, which no profile allows beyond 825, and ends no later
  than the issuing certificate by more than the time that passed between the check against that
  certificate and the making of the leaf, because the two read the clock at different times.\<close>

theorem leaf_validity_bounds:
  "config_ok c \<Longrightarrow> issue_ee e c canon fr profile cn extra ov w = Inr (w', cert, ok) \<Longrightarrow>
   e_clock e 0 \<le> e_clock e 3 \<Longrightarrow> e_clock e 3 < 2 ^ 62 \<Longrightarrow> ca_for_profile c profile = Some ca \<Longrightarrow>
   load_ca_cert w (gn_slug (active_ca (the (w_db w)) c (ca_purpose ca))) = Inr (Some issuer) \<Longrightarrow>
   x_not_after issuer < 2 ^ 63 \<Longrightarrow>
   x_not_before cert = e_clock e 3 \<and> x_not_before cert < x_not_after cert \<and>
   x_not_after cert \<le> x_not_before cert + nat (ca_ee_valid_days ca) * 86400 \<and> ca_ee_valid_days ca \<le> 825 \<and>
   x_not_after cert \<le> x_not_after issuer + (e_clock e 3 - e_clock e 0)"
proof -
  assume ok: "config_ok c" and run: "issue_ee e c canon fr profile cn extra ov w = Inr (w', cert, ok)"
    and clock: "e_clock e 0 \<le> e_clock e 3" "e_clock e 3 < 2 ^ 62"
    and ca: "ca_for_profile c profile = Some ca" and na: "x_not_after issuer < 2 ^ 63"
    and issuer: "load_ca_cert w (gn_slug (active_ca (the (w_db w)) c (ca_purpose ca))) = Inr (Some issuer)"
  from run obtain p sans where pre: "issue_precheck e c w profile cn extra ov = Inr (p, sans)"
      and lock: "issue_locked e c canon fr profile cn p sans w = Inr (w', cert, ok)"
    by (auto simp: issue_ee_def rbind_Inr)
  note pre = issue_precheck_Inr [OF pre]
  obtain an where cert: "cert = leaf_cert c p cn fr (f_pub fr) an (e_clock e 3)"
    using issue_locked_Inr [OF lock] by blast
  from pre ca have p: "pl_ca p = ca" "\<not> override_refused (pl_ca p) ov"
    by (auto dest: issue_request_Inr)
  from pre issuer have "pl_cert p = issuer" by (auto simp: find_signer_Inr p(1))
  note win = leaf_window [OF ok ca [folded p(1)] p(2) _ _ clock na [folded this]]
  from pre have s: "pl_validity p = validity_of (pl_ca p) ov"
      "find_signer e c w (pl_ca p) (e_clock e 0) (pl_validity p) = Inr (pl_gen p, pl_cert p)" by blast+
  from win [OF s] ca_for_profile_ok [OF ok ca] show ?thesis
    by (simp add: cert \<open>pl_cert p = issuer\<close> p(1))
qed

theorem leaf_validity_bounds_witness:
  "\<exists>w' cert ok. sample_issue = Inr (w', cert, ok) \<and> x_not_before cert = 1003 \<and>
     x_not_after cert \<le> 1003 + 90 * 86400"
proof -
  obtain w' cert ok where run: "sample_issue = Inr (w', cert, ok)" using sample_issue_ok by blast
  have ca: "ca_for_profile sample_config ''server'' = Some sample_tls_ca" by code_simp
  have gen: "active_ca sample_db sample_config ''tls'' = \<lparr>gn_purpose = ''tls'', gn_gen = 1, gn_cn = ''CA E1'', gn_slug = ''ca-e1''\<rparr>"
    by code_simp
  have "load_ca_cert sample_world (gn_slug (active_ca (the (w_db sample_world)) sample_config (ca_purpose sample_tls_ca))) =
      Inr (Some sample_issuer)"
    by (simp add: load_ca_cert_def sample_world_def sample_tls_ca_def gen)
  from leaf_validity_bounds [OF sample_config_ok run [unfolded sample_issue_def] _ _ ca this]
  have "x_not_before cert = 1003" "x_not_after cert \<le> x_not_before cert + nat (ca_ee_valid_days sample_tls_ca) * 86400"
    by (simp_all add: sample_env_def sample_issuer_value)
  with run show ?thesis unfolding sample_tls_ca_def by (intro exI [of _ w'] exI [of _ cert] exI [of _ ok]) simp
qed

section \<open>Where the files of a leaf go\<close>

lemma slug_no_slash: "CHR ''/'' \<notin> set s \<Longrightarrow> CHR ''/'' \<notin> set (slug s)"
proof -
  assume s: "CHR ''/'' \<notin> set s"
  have "to_lower c \<noteq> CHR ''/''" if "c \<noteq> CHR ''/''" for c
  proof
    assume "to_lower c = CHR ''/''"
    then have "of_char (to_lower c) = (47 :: nat)" by simp
    moreover from \<open>to_lower c = CHR ''/''\<close> that have "is_upper c" by (auto simp: to_lower_def split: if_splits)
    ultimately show False by (simp add: to_lower_def is_upper_def less_eq_char_def)
  qed
  then have "(if c = CHR '' '' then CHR ''-'' else to_lower c) \<noteq> CHR ''/''" if "c \<in> set s" for c
    using s that by (cases "c = CHR ''/''") auto
  note no = this
  show ?thesis
  proof
    assume "CHR ''/'' \<in> set (slug s)"
    then show False unfolding slug_def set_map by (elim imageE) (drule no, erule notE, erule sym)
  qed
qed


lemma hostname_loop_no_slash: "hostname_loop n prev s \<Longrightarrow> CHR ''/'' \<notin> set s"
  by (induction n prev s rule: hostname_loop.induct)
    (auto simp: is_alnum_def is_upper_def is_lower_def is_digit_def less_eq_char_def split: if_splits)

lemma dns_safe_no_slash: "dns_safe s \<Longrightarrow> CHR ''/'' \<notin> set s"
proof -
  assume "dns_safe s"
  then have host: "valid_hostname (if starts_with s ''*.'' then drop 2 s else s)"
    by (auto simp: dns_safe_def Let_def split: if_splits)
  have valid: "valid_hostname t \<Longrightarrow> CHR ''/'' \<notin> set t" for t
    by (auto simp: valid_hostname_def dest!: hostname_loop_no_slash split: if_splits)
  show ?thesis
  proof (cases "starts_with s ''*.''")
    case True
    then obtain t where "s = ''*.'' @ t" by (auto simp: starts_with_iff)
    with True host show ?thesis using valid by simp
  next
    case False
    with host show ?thesis using valid by simp
  qed
qed

text \<open>C38. Where the files of a leaf go: for a profile whose common name is a host name they are written
  into the directory of the leaves, under the name of the leaf, so no CA file is ever touched. The client
  profile takes any common name, and one that climbs out of the directory is accepted and written where
  it leads: the certificate of a leaf named after a CA file replaces that file.\<close>

theorem leaf_files_location:
  "(profile_find profile = Some prof \<and> pd_subject prof = DnsCn \<and> issue_ee e c canon fr profile cn extra ov w = Inr (w', cert, ok) \<longrightarrow>
      (\<forall>loc. w_files w' loc \<noteq> w_files w loc \<longrightarrow>
         loc \<in> {In_store [''ee'', slug cn @ ''.crt''], In_store [''ee'', slug cn @ ''.key'']}) \<and>
      (\<forall>sl ext. w_files w' (ca_file sl ext) = w_files w (ca_file sl ext))) \<and>
   (CHR ''/'' \<notin> set sl \<longrightarrow> sl \<noteq> [] \<longrightarrow> slug sl = sl \<longrightarrow>
      ee_file (slug (''../ca/'' @ sl)) ''.crt'' = ca_file sl ''.crt'' \<and>
      issue_request sample_config ''client'' (''../ca/'' @ sl) [(K_dns, ''a.example'')] None \<noteq> Inl r)"
proof (intro conjI impI allI)
  {
    assume a: "profile_find profile = Some prof \<and> pd_subject prof = DnsCn \<and> issue_ee e c canon fr profile cn extra ov w = Inr (w', cert, ok)"
    then obtain p sans where pre: "issue_precheck e c w profile cn extra ov = Inr (p, sans)"
        and lock: "issue_locked e c canon fr profile cn p sans w = Inr (w', cert, ok)"
      by (auto simp: issue_ee_def rbind_Inr)
    from a issue_precheck_Inr [OF pre] have "subject_sans prof cn extra = Inr sans"
      by (auto dest: issue_request_Inr)
    with a have "dns_safe cn" by (auto simp: subject_sans_def split: if_splits)
    then have no: "CHR ''/'' \<notin> set (slug cn)" by (intro slug_no_slash dns_safe_no_slash)
    then have ee: "ee_file (slug cn) ''.crt'' = In_store [''ee'', slug cn @ ''.crt'']"
        "ee_file (slug cn) ''.key'' = In_store [''ee'', slug cn @ ''.key'']"
      by (simp_all add: ee_file_plain)
    obtain w1 k where "(w', ok) = write_leaf e cn cert k w1" "w_files w1 = w_files w"
      using issue_locked_Inr [OF lock] by fastforce
    then have same: "w_files w' loc = w_files w loc"
      if "loc \<noteq> In_store [''ee'', slug cn @ ''.crt'']" "loc \<noteq> In_store [''ee'', slug cn @ ''.key'']" for loc
      using that write_leaf_other [of loc cn e cert k w1, unfolded ee] by (metis fst_conv)
    show "loc \<in> {In_store [''ee'', slug cn @ ''.crt''], In_store [''ee'', slug cn @ ''.key'']}"
      if "w_files w' loc \<noteq> w_files w loc" for loc
      using that same by blast
    show "w_files w' (ca_file sl ext) = w_files w (ca_file sl ext)" for sl ext
      by (rule same) (simp_all add: ca_file_def)
  }
  {
    assume sl: "CHR ''/'' \<notin> set sl" "sl \<noteq> []" "slug sl = sl"
    have low: "slug (''../ca/'' @ sl) = ''../ca/'' @ sl"
      using sl(3) by (simp add: slug_def to_lower_def is_upper_def)
    have "split_on CHR ''/'' (''../ca/'' @ (sl @ ''.crt'')) = [''..'', ''ca'', sl @ ''.crt'']"
      using sl(1) by (simp add: split_on_no_sep)
    moreover have "sl @ ''.crt'' \<noteq> ''.''" "sl @ ''.crt'' \<noteq> ''..''"
      by (auto dest: arg_cong [where f = length])
    ultimately show "ee_file (slug (''../ca/'' @ sl)) ''.crt'' = ca_file sl ''.crt''"
      unfolding ee_file_def low append_assoc by (simp add: starts_with_def ca_file_def)
    show "issue_request sample_config ''client'' (''../ca/'' @ sl) [(K_dns, ''a.example'')] None \<noteq> Inl r"
    proof -
      have "dns_safe ''a.example''" by code_simp
      moreover have "ca_for_profile sample_config ''client'' = Some sample_tls_ca" by code_simp
      moreover have "profile_find ''client'' = Some (kDefs ! 1)" "pd_subject (kDefs ! 1) = RequireSan"
          "\<not> pd_csr_only (kDefs ! 1)"
        by code_simp+
      ultimately show ?thesis
        by (simp add: issue_request_def override_refused_def subject_sans_def)
    qed
  }
qed

theorem leaf_files_location_witness:
  "(\<exists>w' cert ok. sample_issue = Inr (w', cert, ok) \<and>
      w_files w' (ca_file ''ca-e1'' ''.pem'') = Some (Cert_pem sample_issuer)) \<and>
   ee_file (slug ''../ca/ca-e1'') ''.crt'' = ca_file ''ca-e1'' ''.crt''"
proof -
  obtain w' cert ok where run: "sample_issue = Inr (w', cert, ok)" using sample_issue_ok by blast
  have "profile_find ''server'' = Some (kDefs ! 0)" "pd_subject (kDefs ! 0) = DnsCn" "slug ''ca-e1'' = ''ca-e1''"
    by code_simp+
  with leaf_files_location [of "''server''" "kDefs ! 0" "sample_env 1000" sample_config Some sample_fresh
      "''www.example.org''" "[(K_ip, ''10.0.0.1'')]" None sample_world w' cert ok "''ca-e1''" Csr_invalid]
    run [unfolded sample_issue_def]
  have "w_files w' (ca_file ''ca-e1'' ''.pem'') = w_files sample_world (ca_file ''ca-e1'' ''.pem'')"
      "ee_file (slug (''../ca/'' @ ''ca-e1'')) ''.crt'' = ca_file ''ca-e1'' ''.crt''"
    by (blast, simp)
  moreover have "w_files sample_world (ca_file ''ca-e1'' ''.pem'') = Some (Cert_pem sample_issuer)"
    by (simp add: sample_world_def)
  ultimately show ?thesis using run by (intro conjI exI [of _ w'] exI [of _ cert] exI [of _ ok]) simp_all
qed

section \<open>Nonces\<close>

lemma enrolled_ensure [simp]: "enrolled who (ensure_enrollment d) = enrolled who d"
  "enrolled who (ensure_cert_index d) = enrolled who d"
  by (auto simp: enrolled_def ensure_enrollment_def ensure_cert_index_def split: option.splits)

lemma enrolled_set:
  assumes "\<And>r. n_id (f r) = n_id r"
  shows "enrolled who (set_enrollment who' f d) =
     (if who = who' then map_option f (enrolled who d) else enrolled who d)"
proof -
  have "find (\<lambda>r. n_id r = who) (map (\<lambda>r. if n_id r = who' then f r else r) rs) =
      (if who = who' then map_option f (find (\<lambda>r. n_id r = who) rs) else find (\<lambda>r. n_id r = who) rs)" for rs
    using assms by (induction rs) auto
  then show ?thesis by (auto simp: enrolled_def set_enrollment_def split: option.splits)
qed

lemma enrolled_record [simp]: "enrolled who (record_cert cert kind purpose d) = enrolled who d"
  by (simp add: enrolled_def record_cert_def)

lemma enrolled_id: "enrolled who d = Some r \<Longrightarrow> n_id r = who"
  by (auto simp: enrolled_def find_Some_iff split: option.splits)

lemma check_nonce_Inr:
  "check_nonce d who nonce now = Inr () \<longleftrightarrow> (\<exists>r. enrolled who d = Some r \<and> nonce_valid r nonce now)"
  by (auto simp: check_nonce_def split: option.splits)

lemma check_nonce_cong: "enrolled who d = enrolled who d' \<Longrightarrow> check_nonce d who = check_nonce d' who"
  by (simp add: check_nonce_def fun_eq_iff)

lemma nonce_refused_after_consume: "check_nonce (consume who d) who nonce now \<noteq> Inr ()"
proof -
  have "enrolled who (consume who d) = map_option (\<lambda>r. r\<lparr>n_consumed := 1\<rparr>) (enrolled who d)"
    unfolding consume_def by (subst enrolled_set) simp_all
  then show ?thesis by (auto simp: check_nonce_Inr nonce_valid_def)
qed

text \<open>C37. A nonce handed out can be used: \<^verbatim>\<open>get nonce\<close> returns the pending nonce while
  enough of its time is left and else the fresh one, and what it returns is accepted for that identity by
  every check in the next minute. A fresh nonce is the only one accepted, for five minutes. No other
  identity is affected.\<close>

theorem nonce_lease:
  "get_nonce e raw who w = Inr (w', n) \<Longrightarrow> raw \<noteq> [] \<Longrightarrow> nul_free raw \<Longrightarrow>
   \<exists>d0 d r. w_db w = Some d0 \<and> w_db w' = Some d \<and> enrolled who d0 = Some r \<and>
     n = (if reusable r (e_clock e 0) then row_nonce r else raw) \<and>
     (\<forall>t. t < e_clock e 0 + nonce_rotate_floor_secs \<longrightarrow> check_nonce d who n t = Inr ()) \<and>
     (\<not> reusable r (e_clock e 0) \<longrightarrow>
        (\<forall>m t. check_nonce d who m t = Inr () \<longleftrightarrow> m = raw \<and> t < e_clock e 0 + max_nonce_validity * 60)) \<and>
     (\<forall>who2. who2 \<noteq> who \<longrightarrow> check_nonce d who2 = check_nonce d0 who2)"
proof -
  assume run: "get_nonce e raw who w = Inr (w', n)" and raw: "raw \<noteq> []" "nul_free raw"
  let ?now = "e_clock e 0"
  let ?upd = "\<lambda>r. r\<lparr>n_nonce := Some raw, n_issued := ?now, n_validity := max_nonce_validity, n_consumed := 0\<rparr>"
  from run obtain d0 r where d0: "w_db w = Some d0" "enrolled who d0 = Some r"
    by (auto simp: get_nonce_def Let_def split: option.splits if_splits)
  show ?thesis
  proof (cases "reusable r ?now")
    case True
    with run d0 have w': "w_db w' = Some (ensure_enrollment d0)" "n = row_nonce r"
      by (auto simp: get_nonce_def Let_def split: if_splits)
    from True have "check_nonce (ensure_enrollment d0) who n t = Inr ()" if "t < ?now + nonce_rotate_floor_secs" for t
      using that d0(2) by (auto simp: check_nonce_Inr nonce_valid_def reusable_def Let_def w'(2))
    with d0 w' True show ?thesis by (fastforce intro: check_nonce_cong)
  next
    case False
    with run d0 have w': "w_db w' = Some (set_enrollment who ?upd (ensure_enrollment d0))" "n = raw"
      by (auto simp: get_nonce_def Let_def split: if_splits)
    have "enrolled who (set_enrollment who ?upd (ensure_enrollment d0)) = Some (?upd r)"
      by (subst enrolled_set) (simp_all add: d0(2))
    then have iff: "check_nonce (set_enrollment who ?upd (ensure_enrollment d0)) who m t = Inr () \<longleftrightarrow>
        m = raw \<and> t < ?now + max_nonce_validity * 60" for m t
      using raw by (auto simp: check_nonce_Inr nonce_valid_def row_nonce_def)
    have others: "check_nonce (set_enrollment who ?upd (ensure_enrollment d0)) who2 = check_nonce d0 who2"
      if "who2 \<noteq> who" for who2
      using that by (intro check_nonce_cong, subst enrolled_set) simp_all
    show ?thesis using d0 w' False iff others
      by (auto simp: nonce_rotate_floor_secs_def max_nonce_validity_def)
  qed
qed

definition sample_enrolled :: world where
  "sample_enrolled = (case enroll (sample_env 500) ''acme'' sample_world of Inr w \<Rightarrow> w | Inl _ \<Rightarrow> sample_world)"

definition sample_leased :: world where
  "sample_leased = (case get_nonce (sample_env 600) ''c0ffee'' ''acme'' sample_enrolled of
     Inr (w, _) \<Rightarrow> w | Inl _ \<Rightarrow> sample_world)"

lemma sample_lease: "get_nonce (sample_env 600) ''c0ffee'' ''acme'' sample_enrolled = Inr (sample_leased, ''c0ffee'')"
proof -
  have "case get_nonce (sample_env 600) ''c0ffee'' ''acme'' sample_enrolled of
      Inr (_, n) \<Rightarrow> n = ''c0ffee'' | Inl _ \<Rightarrow> False" by code_simp
  then show ?thesis by (auto simp: sample_leased_def split: sum.splits prod.splits)
qed

theorem nonce_lease_witness:
  "\<exists>d. w_db sample_leased = Some d \<and> check_nonce d ''acme'' ''c0ffee'' 659 = Inr ()"
proof -
  from nonce_lease [OF sample_lease] obtain d where d: "w_db sample_leased = Some d"
      "\<forall>t. t < e_clock (sample_env 600) 0 + nonce_rotate_floor_secs \<longrightarrow> check_nonce d ''acme'' ''c0ffee'' t = Inr ()"
    by auto
  then show ?thesis by (simp add: sample_env_def nonce_rotate_floor_secs_def)
qed

section \<open>Signing a request\<close>

lemma csr_request_Inr:
  "csr_request c parse profile bytes ov = Inr (prof, ca, q, cn, sans) \<Longrightarrow>
   profile_find profile = Some prof \<and> ca_for_profile c profile = Some ca \<and> \<not> override_refused ca ov \<and>
   (\<exists>bs. bytes = Inr bs \<and> parse bs = Some q) \<and> q_curve q = Some (ca_ee_curve ca) \<and> csr_cn q = Inr cn \<and>
   csr_sans_ok q = Inr () \<and> csr_subject prof cn q = Inr sans"
  by (auto simp: csr_request_def rbind_Inr split: option.splits if_splits)

lemma sign_precheck_Inr:
  "sign_precheck e c canon w profile who nonce req ov = (w1, Inr (p, q, cn, an)) \<Longrightarrow>
   w1 = ensure_sign_tables w \<and> (\<exists>sans. req = Inr (pl_prof p, pl_ca p, q, cn, sans) \<and> add_names canon sans [] = Inr an) \<and>
   pl_validity p = validity_of (pl_ca p) ov \<and>
   find_signer e c w (pl_ca p) (e_clock e 0) (pl_validity p) = Inr (pl_gen p, pl_cert p) \<and>
   sign_checks e c w1 profile who nonce cn (pl_ca p) (pl_gen p) (pl_cert p) = Inr (pl_key p)"
  unfolding sign_precheck_def by (auto simp: rbind_Inr split: sum.splits)

lemma sign_precheck_world:
  "sign_precheck e c canon w profile who nonce req ov = (w1, r) \<Longrightarrow> w1 = w \<or> w1 = ensure_sign_tables w"
  unfolding sign_precheck_def by (auto split: sum.splits)

lemma sign_locked_Inr:
  "sign_locked e c fr profile who nonce p q cn an w = Inr (w', cert) \<Longrightarrow>
   \<exists>d0 d. w_db w = Some d0 \<and> d = ensure_enrollment (ensure_cert_index d0) \<and> e_lock e \<and> e_commit e \<and>
     is_CA_cert (pl_cert p) \<and> check_nonce d who nonce (e_clock e 3) = Inr () \<and>
     check_duplicate d cn profile (e_clock e 4) = Inr () \<and>
     cert = leaf_cert c p cn fr (q_pub q) an (e_clock e 5) \<and>
     w' = w\<lparr>w_db := Some (consume who (record_cert cert profile (gn_purpose (pl_gen p)) d))\<rparr>"
  by (auto simp: sign_locked_def rbind_Inr Let_def split: option.splits if_splits)

lemma enrolled_consume: "who2 \<noteq> who \<Longrightarrow> enrolled who2 (consume who d) = enrolled who2 d"
  unfolding consume_def by (subst enrolled_set) simp_all

lemma leaf_not_ca [simp]: "\<not> is_CA_cert (leaf_cert c p cn fr pub san tp)"
  using kinds_of_leaf [of "leaf_cert c p cn fr pub san tp"] by (auto simp: is_CA_cert_def leaf_cert_def make_cert_def)

lemma consume_tables [simp]:
  "db_cert_index (consume who d) = db_cert_index d" "db_store (consume who d) = db_store d"
  by (simp_all add: consume_def set_enrollment_def)

lemma ensure_tables [simp]:
  "db_store (ensure_enrollment d) = db_store d" "db_store (ensure_cert_index d) = db_store d"
  "db_cert_index (ensure_enrollment d) = db_cert_index d"
  by (simp_all add: ensure_enrollment_def ensure_cert_index_def)

lemma sign_csr_Inl:
  assumes "sign_csr e c canon parse fr profile who nonce bytes ov w = (w', Inl x)"
  shows "w' = w \<or> w' = ensure_sign_tables w"
proof -
  obtain w1 r where pre: "sign_precheck e c canon w profile who nonce (csr_request c parse profile bytes ov) ov = (w1, r)"
    by fastforce
  with assms have "w' = w1" by (auto simp: sign_csr_def split: sum.splits)
  with sign_precheck_world [OF pre] show ?thesis by blast
qed

lemma sign_csr_Inr:
  assumes "sign_csr e c canon parse fr profile who nonce bytes ov w = (w', Inr cert)" and d0: "w_db w = Some d0"
  defines "d1 \<equiv> ensure_enrollment (ensure_cert_index d0)"
  shows "\<exists>p q cn an bs. check_nonce d1 who nonce (e_clock e 1) = Inr () \<and> check_nonce d1 who nonce (e_clock e 3) = Inr () \<and>
    bytes = Inr bs \<and> parse bs = Some q \<and> csr_cn q = Inr cn \<and> cert = leaf_cert c p cn fr (q_pub q) an (e_clock e 5) \<and>
    w' = w\<lparr>w_db := Some (consume who (record_cert cert profile (gn_purpose (pl_gen p)) d1))\<rparr>"
proof -
  obtain w1 r where pre: "sign_precheck e c canon w profile who nonce (csr_request c parse profile bytes ov) ov = (w1, r)"
    by fastforce
  then obtain p q cn an where r: "r = Inr (p, q, cn, an)"
      and lock: "sign_locked e c fr profile who nonce p q cn an w1 = Inr (w', cert)"
    using assms(1) by (auto simp: sign_csr_def split: sum.splits)
  note pre = sign_precheck_Inr [OF pre [unfolded r]]
  have w1: "w1 = w\<lparr>w_db := Some d1\<rparr>" using pre d0 by (simp add: ensure_sign_tables_def d1_def)
  have twice: "ensure_enrollment (ensure_cert_index d1) = d1"
    by (simp add: ensure_enrollment_def ensure_cert_index_def d1_def)
  have first: "check_nonce d1 who nonce (e_clock e 1) = Inr ()"
    using pre w1 by (auto simp: sign_checks_def rbind_Inr)
  from pre obtain sans where "csr_request c parse profile bytes ov = Inr (pl_prof p, pl_ca p, q, cn, sans)" by blast
  from csr_request_Inr [OF this] obtain bs where "bytes = Inr bs" "parse bs = Some q" "csr_cn q = Inr cn" by blast
  with first sign_locked_Inr [OF lock] twice show ?thesis by (auto simp: w1)
qed

text \<open>C1. A nonce buys one certificate. When signing succeeds the nonce was the pending, unexpired one of
  that identity both before the lock and under it, afterwards no nonce of the identity is accepted at any
  time, and the certificate carries the public key of the request, is on record under the requested name
  and is no CA. When it fails for whatever reason nothing is spent and nothing is recorded. Other
  identities and all files are left alone.\<close>

theorem sign_spends_nonce:
  "sign_csr e c canon parse fr profile who nonce bytes ov w = (w', res) \<Longrightarrow> w_db w = Some d0 \<Longrightarrow>
   \<exists>d. w_db w' = Some d \<and> w_files w' = w_files w \<and> (\<forall>who2. who2 \<noteq> who \<longrightarrow> check_nonce d who2 = check_nonce d0 who2) \<and>
   (case res of
      Inl x \<Rightarrow> check_nonce d who = check_nonce d0 who \<and> db_store d = db_store d0 \<and>
        (db_cert_index d0 \<noteq> None \<longrightarrow> db_cert_index d = db_cert_index d0)
    | Inr cert \<Rightarrow>
        check_nonce d0 who nonce (e_clock e 1) = Inr () \<and> check_nonce d0 who nonce (e_clock e 3) = Inr () \<and>
        (\<forall>m t. check_nonce d who m t \<noteq> Inr ()) \<and> \<not> is_CA_cert cert \<and>
        load_cert (db_store d) (x_fp cert) = Some cert \<and>
        (\<exists>bs q cn rs. bytes = Inr bs \<and> parse bs = Some q \<and> csr_cn q = Inr cn \<and> x_pub cert = q_pub q \<and>
           cert_cn cert = cn \<and> db_cert_index d = Some rs \<and> (\<exists>r \<in> set rs. r_fp r = x_fp cert \<and> r_kind r = profile)))"
proof -
  assume run: "sign_csr e c canon parse fr profile who nonce bytes ov w = (w', res)" and d0: "w_db w = Some d0"
  let ?d1 = "ensure_enrollment (ensure_cert_index d0)"
  have same: "check_nonce ?d1 = check_nonce d0" by (rule ext, rule check_nonce_cong) simp
  show ?thesis
  proof (cases res)
    case (Inl x)
    with sign_csr_Inl run consider "w' = w" | "w' = ensure_sign_tables w" by blast
    then show ?thesis
      by cases (use d0 Inl same in \<open>auto simp: ensure_sign_tables_def ensure_cert_index_def split: option.splits\<close>)
  next
    case (Inr cert)
    from sign_csr_Inr [OF run [unfolded Inr] d0] obtain p q cn an bs where
        nonce: "check_nonce ?d1 who nonce (e_clock e 1) = Inr ()" "check_nonce ?d1 who nonce (e_clock e 3) = Inr ()"
      and req: "bytes = Inr bs" "parse bs = Some q" "csr_cn q = Inr cn"
      and cert: "cert = leaf_cert c p cn fr (q_pub q) an (e_clock e 5)"
      and w': "w' = w\<lparr>w_db := Some (consume who (record_cert cert profile (gn_purpose (pl_gen p)) ?d1))\<rparr>"
      by blast
    obtain rs where rs: "db_cert_index ?d1 = Some rs" using ensure_cert_index_Some by auto
    have "\<exists>r \<in> set (index_cert cert profile (gn_purpose (pl_gen p)) ''active'' 0 rs). r_fp r = x_fp cert \<and> r_kind r = profile"
      by (simp add: index_cert_def cert_row_of_def)
    moreover have "check_nonce (consume who (record_cert cert profile (gn_purpose (pl_gen p)) ?d1)) who2 = check_nonce d0 who2"
      if "who2 \<noteq> who" for who2
      using that by (intro check_nonce_cong) (simp add: enrolled_consume)
    moreover have "x_pub cert = q_pub q" "cert_cn cert = cn" "\<not> is_CA_cert cert" by (simp_all add: cert)
    ultimately show ?thesis
      unfolding w' using nonce req same nonce_refused_after_consume record_cert_index [OF rs]
      by (auto simp: Inr)
  qed
qed

definition sample_csr :: csr where
  "sample_csr = \<lparr>q_curve = Some ''secp256r1'', q_pub = ''key-csr'', q_cns = [], q_dns = [''www.example.org''],
     q_email = [], q_ipv4 = [], q_uris = [''spiffe://example.org/web'']\<rparr>"

definition sample_sign :: "world \<times> (ca_error + certificate)" where
  "sample_sign = sign_csr (sample_env 610) sample_config Some (\<lambda>_. Some sample_csr) sample_fresh ''server''
     ''acme'' ''c0ffee'' (Inr ''-----BEGIN'') None sample_leased"

lemma sample_sign_ok: "\<exists>cert. snd sample_sign = Inr cert"
proof -
  have "case snd sample_sign of Inr _ \<Rightarrow> True | Inl _ \<Rightarrow> False" by code_simp
  then show ?thesis by (auto split: sum.splits)
qed

theorem sign_spends_nonce_witness:
  "\<exists>cert d. snd sample_sign = Inr cert \<and> w_db (fst sample_sign) = Some d \<and> x_pub cert = ''key-csr'' \<and>
     cert_cn cert = ''www.example.org'' \<and> check_nonce d ''acme'' ''c0ffee'' 620 \<noteq> Inr ()"
proof -
  obtain cert where cert: "snd sample_sign = Inr cert" using sample_sign_ok by blast
  obtain d0 where d0: "w_db sample_leased = Some d0"
    using nonce_lease [OF sample_lease] by auto
  have "sign_csr (sample_env 610) sample_config Some (\<lambda>_. Some sample_csr) sample_fresh ''server''
     ''acme'' ''c0ffee'' (Inr ''-----BEGIN'') None sample_leased = (fst sample_sign, Inr cert)"
    using cert by (metis prod.collapse sample_sign_def)
  from sign_spends_nonce [OF this d0] cert show ?thesis by (auto simp: sample_csr_def csr_cn_def)
qed

end
