(* ===== verification/Crl.thy ===== *)
theory Crl
  imports Issue
begin

text \<open>
  Revocation: \<^verbatim>\<open>revoke\<close>, \<^verbatim>\<open>revoke_ca\<close> and
  \<^verbatim>\<open>refresh_crl\<close>. An operation returns the world it leaves with its result, because
  the list is written to its file before the store is updated: a failure in between leaves the
  file.
\<close>

section \<open>Reasons and errors\<close>

definition parse_reason :: "string \<Rightarrow> nat option" where
  "parse_reason s =
     (let r = map to_lower s in
      if r = ''unspecified'' then Some 0
      else if r = ''keycompromise'' then Some 1
      else if r = ''cacompromise'' then Some 2
      else if r = ''affiliationchanged'' then Some 3
      else if r = ''superseded'' then Some 4
      else if r = ''cessationofoperation'' then Some 5
      else if r = ''certificatehold'' then Some 6
      else if r = ''removefromcrl'' then Some 8
      else if r = ''privilegewithdrawn'' then Some 9
      else if r = ''aacompromise'' then Some 10
      else None)"

datatype crl_error =
    Failed ca_error
  | Unknown_reason
  | No_active_cert
  | Indexed_but_missing
  | No_issuing_generation
  | No_section
  | Crl_missing
  | Crl_not_written
  | Selector_missing
  | Selector_ambiguous
  | Root_not_revocable
  | No_such_generation
  | Active_issuer
  | Already_revoked
  | Throws_crl

fun lift_ca :: "ca_error + 'a \<Rightarrow> crl_error + 'a" where
  "lift_ca (Inl x) = Inl (Failed x)"
| "lift_ca (Inr x) = Inr x"

text \<open>\<^verbatim>\<open>make_crl\<close> parses the list it has just encoded, and Botan's parser refuses an
  entry with the reason removeFromCRL.\<close>

definition sign_crl ::
  "certificate \<Rightarrow> string \<Rightarrow> crl_entry list \<Rightarrow> nat \<Rightarrow> nat \<Rightarrow> u32 \<Rightarrow> crl_error + crl" where
  "sign_crl issuer key entries number now next_update =
     (if \<not> is_CA_cert issuer then Inl (Failed Throws_not_ca)
      else if list_ex (\<lambda>en. ce_reason en = 8) entries then Inl Throws_crl
      else Inr (make_crl issuer key entries number now next_update))"

definition entry_of :: "certificate \<Rightarrow> nat \<Rightarrow> crl_entry" where
  "entry_of cert code = \<lparr>ce_serial = x_serial cert, ce_reason = code\<rparr>"

lemma lift_ca_Inr [simp]: "lift_ca r = Inr x \<longleftrightarrow> r = Inr x"
  by (cases r) simp_all

section \<open>revoke\<close>

definition revoke_lookup :: "cert_row list \<Rightarrow> string \<Rightarrow> string \<Rightarrow> string \<Rightarrow> nat \<Rightarrow> string option" where
  "revoke_lookup rs sel cn target now =
     (if sel = [] then active_fp rs cn target now else active_fp_by_serial rs sel target now)"

record crl_plan =
  cp_code :: nat
  cp_gen :: ca_gen
  cp_cert :: certificate
  cp_key :: string

text \<open>The certificate and the key of the generation that issued the certificate to revoke.\<close>

definition issuing_signer ::
  "env \<Rightarrow> config \<Rightarrow> world \<Rightarrow> db \<Rightarrow> certificate \<Rightarrow> crl_error + ca_gen \<times> certificate \<times> string" where
  "issuing_signer e c w d cert =
     (case gen_by_cn d ''signing'' (cert_issuer_cn cert) of None \<Rightarrow> Inl No_issuing_generation
      | Some sign \<Rightarrow>
     (case config_ca c (gn_purpose sign) of None \<Rightarrow> Inl No_section
      | Some ca \<Rightarrow>
          if ca_secret (spec_of ca) (e_secrets e) = []
          then Inl (Failed (Secret_missing (secret_env (spec_of ca))))
          else case load_ca_cert w (gn_slug sign) of
              Inl x \<Rightarrow> Inl (Failed (Throws_load x))
            | Inr None \<Rightarrow> Inl (Failed Ca_cert_missing)
            | Inr (Some sign_cert) \<Rightarrow>
                if w_files w (ca_file (gn_slug sign) ''.crl'') = None then Inl Crl_missing
                else rbind (lift_ca (signing_key e c w d sign_cert (spec_of ca) (gn_slug sign) []))
                       (\<lambda>(key, _). Inr (sign, sign_cert, key))))"

definition revoke_precheck ::
  "env \<Rightarrow> config \<Rightarrow> world \<Rightarrow> string \<Rightarrow> string \<Rightarrow> string \<Rightarrow> string \<Rightarrow> crl_error + crl_plan" where
  "revoke_precheck e c w target cn reason serial =
     (case parse_reason reason of None \<Rightarrow> Inl Unknown_reason
      | Some code \<Rightarrow>
     (case w_db w of None \<Rightarrow> Inl (Failed Not_initialized)
      | Some d \<Rightarrow>
     (case db_cert_index d of None \<Rightarrow> Inl (Failed (Throws_store Prepare_failed))
      | Some rs \<Rightarrow>
     (case revoke_lookup rs (normalize_serial serial) cn target (e_clock e 0) of
        None \<Rightarrow> Inl No_active_cert
      | Some fp \<Rightarrow>
     (case load_cert (db_store d) fp of
        None \<Rightarrow> Inl Indexed_but_missing
      | Some cert \<Rightarrow>
          rbind (issuing_signer e c w d cert) (\<lambda>(sign, sign_cert, key).
            Inr \<lparr>cp_code = code, cp_gen = sign, cp_cert = sign_cert, cp_key = key\<rparr>))))))"

definition index_rows :: "db \<Rightarrow> cert_row list" where
  "index_rows d = (case db_cert_index d of Some rs \<Rightarrow> rs | None \<Rightarrow> [])"

text \<open>Publishing the list of a generation with one entry more, the entries past their time
  dropped.\<close>

definition next_crl ::
  "env \<Rightarrow> cert_row list \<Rightarrow> crl \<Rightarrow> crl_plan \<Rightarrow> certificate \<Rightarrow> int \<Rightarrow> crl_error + crl" where
  "next_crl e rs prev p victim horizon =
     sign_crl (cp_cert p) (cp_key p) (prune_crl_entries rs prev @ [entry_of victim (cp_code p)])
       (crl_number prev + 1) (e_clock e 2) (crl_next_update (cp_cert p) (e_clock e 3) horizon)"

definition revoke_next ::
  "env \<Rightarrow> string \<Rightarrow> string \<Rightarrow> string \<Rightarrow> crl_plan \<Rightarrow> world \<Rightarrow> crl_error + db \<times> crl" where
  "revoke_next e target cn serial p w =
     (case w_db w of None \<Rightarrow> Inl (Failed Not_initialized)
      | Some d0 \<Rightarrow>
          if \<not> e_lock e then Inl (Failed Lock_failed)
          else let d = ensure_cert_index d0; rs = index_rows d in
            case load_crl w (gn_slug (cp_gen p)) of Inl x \<Rightarrow> Inl (Failed (Throws_load x))
            | Inr prev \<Rightarrow>
           (case revoke_lookup rs (normalize_serial serial) cn target (e_clock e 1) of
              None \<Rightarrow> Inl No_active_cert
            | Some fp \<Rightarrow>
           (case load_cert (db_store d) fp of
              None \<Rightarrow> Inl No_active_cert
            | Some victim \<Rightarrow>
                rbind (next_crl e rs prev p victim crl_next_update_days) (\<lambda>updated.
                  Inr (d\<lparr>db_store := store_revoke_cert victim (cp_code p) (db_store d),
                         db_cert_index := Some (mark_revoked fp (e_clock e 4) (cp_code p) rs)\<rparr>, updated)))))"

text \<open>The file first, then the commit.\<close>

definition publish :: "env \<Rightarrow> string \<Rightarrow> db \<times> crl \<Rightarrow> world \<Rightarrow> world \<times> (crl_error + crl)" where
  "publish e sl res w =
     (case put_file e (ca_file sl ''.crl'') (Crl_der (snd res)) w of
        (w1, False) \<Rightarrow> (w1, Inl Crl_not_written)
      | (w1, True) \<Rightarrow>
          if \<not> e_commit e then (w1, Inl (Failed Commit_failed))
          else (w1\<lparr>w_db := Some (fst res)\<rparr>, Inr (snd res)))"

definition revoke_locked ::
  "env \<Rightarrow> string \<Rightarrow> string \<Rightarrow> string \<Rightarrow> crl_plan \<Rightarrow> world \<Rightarrow> world \<times> (crl_error + crl)" where
  "revoke_locked e target cn serial p w =
     (case revoke_next e target cn serial p w of
        Inl x \<Rightarrow> (w, Inl x)
      | Inr res \<Rightarrow> publish e (gn_slug (cp_gen p)) res w)"

definition revoke ::
  "env \<Rightarrow> config \<Rightarrow> string \<Rightarrow> string \<Rightarrow> string \<Rightarrow> string \<Rightarrow> world \<Rightarrow> world \<times> (crl_error + crl)" where
  "revoke e c target cn reason serial w =
     (case revoke_precheck e c w target cn reason serial of
        Inl x \<Rightarrow> (w, Inl x)
      | Inr p \<Rightarrow> revoke_locked e target cn serial p w)"

section \<open>Naming a generation\<close>

text \<open>\<^verbatim>\<open>resolve_ca_cn\<close>; the empty string is the failure.\<close>

definition resolve_ca_cn :: "db \<Rightarrow> config \<Rightarrow> string \<Rightarrow> string" where
  "resolve_ca_cn d c selector =
     (if selector = ''root-ca'' then gn_cn (active_ca d c ''root'')
      else if ends_with selector ''-ca'' \<and> config_ca c (take (length selector - 3) selector) \<noteq> None
        then gn_cn (active_ca d c (take (length selector - 3) selector))
      else if selector = ''signing-ca'' then
        (case cfg_cas c of [(purpose, _)] \<Rightarrow> gn_cn (active_ca d c purpose) | _ \<Rightarrow> [])
      else selector)"

section \<open>revoke ca\<close>

definition revoke_ca_victim :: "db \<Rightarrow> config \<Rightarrow> string \<Rightarrow> crl_error + ca_gen" where
  "revoke_ca_victim d c selector =
     (let root = active_ca d c ''root'' in
      if selector = ''root-ca'' \<or> selector = gn_cn root then Inl Root_not_revocable
      else let cn = resolve_ca_cn d c selector in
        if cn = [] then Inl Selector_ambiguous
        else case gen_by_cn d ''signing'' cn of None \<Rightarrow> Inl No_such_generation
          | Some victim \<Rightarrow>
              if gn_gen victim = gn_gen (active_ca d c (gn_purpose victim)) then Inl Active_issuer
              else Inr victim)"

definition revoke_ca_checks ::
  "env \<Rightarrow> config \<Rightarrow> world \<Rightarrow> db \<Rightarrow> nat \<Rightarrow> string \<Rightarrow> crl_error + crl_plan \<times> ca_gen \<times> certificate" where
  "revoke_ca_checks e c w d code selector =
     (let root = active_ca d c ''root'' in
      rbind (revoke_ca_victim d c selector) (\<lambda>victim.
      case load_ca_cert w (gn_slug root) of Inl x \<Rightarrow> Inl (Failed (Throws_load x))
      | Inr root_cert \<Rightarrow>
     (case load_ca_cert w (gn_slug victim) of Inl x \<Rightarrow> Inl (Failed (Throws_load x))
      | Inr victim_cert \<Rightarrow>
     (case root_cert of None \<Rightarrow> Inl (Failed Ca_cert_missing) | Some rc \<Rightarrow>
     (case victim_cert of None \<Rightarrow> Inl (Failed Ca_cert_missing) | Some vc \<Rightarrow>
     (case db_cert_index d of None \<Rightarrow> Inl (Failed (Throws_store Prepare_failed))
      | Some rs \<Rightarrow>
          if list_ex (\<lambda>r. r_fp r = x_fp vc \<and> r_status r = ''revoked'') rs then Inl Already_revoked
          else if w_files w (ca_file (gn_slug root) ''.crl'') = None then Inl Crl_missing
          else rbind (lift_ca (signing_key e c w d rc (root_spec c) (gn_slug root) []))
                 (\<lambda>(key, _). Inr (\<lparr>cp_code = code, cp_gen = root, cp_cert = rc, cp_key = key\<rparr>, victim, vc))))))))"

definition revoke_ca_precheck ::
  "env \<Rightarrow> config \<Rightarrow> world \<Rightarrow> string \<Rightarrow> string \<Rightarrow> world \<times> (crl_error + crl_plan \<times> ca_gen \<times> certificate)" where
  "revoke_ca_precheck e c w selector reason =
     (case parse_reason reason of None \<Rightarrow> (w, Inl Unknown_reason)
      | Some code \<Rightarrow>
     (case w_db w of None \<Rightarrow> (w, Inl (Failed Not_initialized))
      | Some d0 \<Rightarrow>
          if ca_secret (root_spec c) (e_secrets e) = []
          then (w, Inl (Failed (Secret_missing (secret_env (root_spec c)))))
          else if selector = [] then (w, Inl Selector_missing)
          else (w\<lparr>w_db := Some (ensure_ca_index c d0)\<rparr>,
                revoke_ca_checks e c w (ensure_ca_index c d0) code selector)))"

definition mark_generation :: "string \<Rightarrow> nat \<Rightarrow> string \<Rightarrow> gen_row list \<Rightarrow> gen_row list" where
  "mark_generation purpose gen status =
     map (\<lambda>g. if g_kind g = ''signing'' \<and> g_purpose g = purpose \<and> g_gen g = gen then g\<lparr>g_status := status\<rparr> else g)"

definition revoke_ca_next ::
  "env \<Rightarrow> crl_plan \<Rightarrow> ca_gen \<Rightarrow> certificate \<Rightarrow> world \<Rightarrow> crl_error + db \<times> crl" where
  "revoke_ca_next e p victim victim_cert w =
     (case w_db w of None \<Rightarrow> Inl (Failed Not_initialized)
      | Some d0 \<Rightarrow>
          if \<not> e_lock e then Inl (Failed Lock_failed)
          else let d = ensure_cert_index d0; rs = index_rows d in
            case load_crl w (gn_slug (cp_gen p)) of Inl x \<Rightarrow> Inl (Failed (Throws_load x))
            | Inr prev \<Rightarrow>
                rbind (next_crl e rs prev p victim_cert root_crl_next_update_days) (\<lambda>updated.
                  Inr (d\<lparr>db_store := store_revoke_cert victim_cert (cp_code p) (db_store d),
                         db_cert_index := Some (mark_revoked (x_fp victim_cert) (e_clock e 4) (cp_code p) rs),
                         db_ca_index := map_option (mark_generation (gn_purpose victim) (gn_gen victim) ''revoked'')
                           (db_ca_index d)\<rparr>, updated)))"

definition revoke_ca_locked ::
  "env \<Rightarrow> crl_plan \<Rightarrow> ca_gen \<Rightarrow> certificate \<Rightarrow> world \<Rightarrow> world \<times> (crl_error + crl)" where
  "revoke_ca_locked e p victim victim_cert w =
     (case revoke_ca_next e p victim victim_cert w of
        Inl x \<Rightarrow> (w, Inl x)
      | Inr res \<Rightarrow> publish e (gn_slug (cp_gen p)) res w)"

definition revoke_ca ::
  "env \<Rightarrow> config \<Rightarrow> string \<Rightarrow> string \<Rightarrow> world \<Rightarrow> world \<times> (crl_error + crl)" where
  "revoke_ca e c selector reason w =
     (case revoke_ca_precheck e c w selector reason of
        (w1, Inl x) \<Rightarrow> (w1, Inl x)
      | (w1, Inr (p, victim, victim_cert)) \<Rightarrow> revoke_ca_locked e p victim victim_cert w1)"

section \<open>refresh crl\<close>

datatype crl_scope = Scope_all | Scope_root | Scope_signing

record job =
  jb_ca :: ca_gen
  jb_spec :: ca_spec
  jb_horizon :: int
  jb_cert :: certificate

text \<open>\<^verbatim>\<open>collect\<close>: one job per live generation of the kind that has not expired.\<close>

fun collect ::
  "config \<Rightarrow> world \<Rightarrow> nat \<Rightarrow> string \<Rightarrow> int \<Rightarrow> ca_gen list \<Rightarrow> crl_error + job list" where
  "collect c w now kind horizon [] = Inr []"
| "collect c w now kind horizon (g # gs) =
     rbind (if kind = ''root'' then Inr (root_spec c)
            else case config_ca c (gn_purpose g) of None \<Rightarrow> Inl No_section | Some ca \<Rightarrow> Inr (spec_of ca)) (\<lambda>spec.
     case load_ca_cert w (gn_slug g) of Inl x \<Rightarrow> Inl (Failed (Throws_load x))
     | Inr None \<Rightarrow> Inl Crl_missing
     | Inr (Some cert) \<Rightarrow>
         if w_files w (ca_file (gn_slug g) ''.crl'') = None then Inl Crl_missing
         else if x_not_after cert \<le> now then collect c w now kind horizon gs
         else rbind (collect c w now kind horizon gs) (\<lambda>jobs.
           Inr (\<lparr>jb_ca = g, jb_spec = spec, jb_horizon = horizon, jb_cert = cert\<rparr> # jobs)))"

definition refresh_specs :: "config \<Rightarrow> ca_spec list" where
  "refresh_specs c = root_spec c # map (\<lambda>(_, ca). spec_of ca) (cfg_cas c)"

definition refresh_jobs ::
  "env \<Rightarrow> config \<Rightarrow> crl_scope \<Rightarrow> world \<Rightarrow> crl_error + job list" where
  "refresh_jobs e c scope w =
     (let do_root = (scope \<noteq> Scope_signing); do_sign = (scope \<noteq> Scope_root) in
      case w_db w of None \<Rightarrow> Inl (Failed Not_initialized)
      | Some d \<Rightarrow>
          (case find (\<lambda>ca. (if sp_root ca then do_root else do_sign) \<and> ca_secret ca (e_secrets e) = [])
                  (refresh_specs c) of
             Some ca \<Rightarrow> Inl (Failed (Secret_missing (secret_env ca)))
           | None \<Rightarrow>
               rbind (if do_root then collect c w (e_clock e 0) ''root'' root_crl_next_update_days (live_cas d c ''root'')
                      else Inr []) (\<lambda>roots.
               rbind (if do_sign then collect c w (e_clock e 0) ''signing'' crl_next_update_days (live_cas d c ''signing'')
                      else Inr []) (\<lambda>signs. Inr (roots @ signs)))))"

text \<open>The keys are loaded one after the other over shared sessions; a key the store lacks is
  reported once all have been tried.\<close>

fun load_keys ::
  "env \<Rightarrow> config \<Rightarrow> world \<Rightarrow> db \<Rightarrow> sessions \<Rightarrow> job list \<Rightarrow> crl_error + string option list" where
  "load_keys e c w d tokens [] = Inr []"
| "load_keys e c w d tokens (j # js) =
     (case ca_key c (e_secrets e) (w_tokens w) (db_store d) (jb_cert j) (jb_spec j) (gn_slug (jb_ca j)) tokens of
        Inl err \<Rightarrow> Inl (Failed (Cannot_load_key err))
      | Inr (key, tokens') \<Rightarrow> rbind (load_keys e c w d tokens' js) (\<lambda>keys. Inr (key # keys)))"

definition refresh_precheck ::
  "env \<Rightarrow> config \<Rightarrow> crl_scope \<Rightarrow> world \<Rightarrow> crl_error + (job \<times> string) list" where
  "refresh_precheck e c scope w =
     rbind (refresh_jobs e c scope w) (\<lambda>jobs.
     case w_db w of None \<Rightarrow> Inl (Failed Not_initialized)
     | Some d \<Rightarrow>
         rbind (load_keys e c w d [] jobs) (\<lambda>keys.
           if None \<in> set keys then Inl (Failed Key_missing) else Inr (zip jobs (map the keys))))"

definition refreshed_crl :: "env \<Rightarrow> cert_row list \<Rightarrow> crl \<Rightarrow> job \<Rightarrow> string \<Rightarrow> crl_error + crl" where
  "refreshed_crl e rs prev j key =
     sign_crl (jb_cert j) key (prune_crl_entries rs prev) (crl_number prev + 1) (e_clock e 1)
       (crl_next_update (jb_cert j) (e_clock e 2) (jb_horizon j))"

text \<open>The loop under the lock. A failed write is remembered and the loop goes on.\<close>

fun refresh_loop ::
  "env \<Rightarrow> cert_row list option \<Rightarrow> bool \<Rightarrow> (job \<times> string) list \<Rightarrow> world \<Rightarrow> world \<times> (crl_error + bool)" where
  "refresh_loop e tab ok [] w = (w, Inr ok)"
| "refresh_loop e tab ok ((j, key) # js) w =
     (case load_crl w (gn_slug (jb_ca j)) of Inl x \<Rightarrow> (w, Inl (Failed (Throws_load x)))
      | Inr prev \<Rightarrow>
     (case tab of None \<Rightarrow> (w, Inl (Failed (Throws_store Prepare_failed)))
      | Some rs \<Rightarrow>
     (case refreshed_crl e rs prev j key of Inl x \<Rightarrow> (w, Inl x)
      | Inr crl \<Rightarrow>
     (case put_file e (ca_file (gn_slug (jb_ca j)) ''.crl'') (Crl_der crl) w of
        (w', written) \<Rightarrow> refresh_loop e tab (written \<and> ok) js w'))))"

definition refresh_locked ::
  "env \<Rightarrow> (job \<times> string) list \<Rightarrow> world \<Rightarrow> world \<times> (crl_error + unit)" where
  "refresh_locked e jobs w =
     (case w_db w of None \<Rightarrow> (w, Inl (Failed Not_initialized))
      | Some d \<Rightarrow>
          if \<not> e_lock e then (w, Inl (Failed Lock_failed))
          else (case refresh_loop e (db_cert_index d) True jobs w of
              (w', Inl x) \<Rightarrow> (w', Inl x)
            | (w', Inr ok) \<Rightarrow>
                if \<not> e_commit e then (w', Inl (Failed Commit_failed))
                else if \<not> ok then (w', Inl Crl_not_written)
                else (w', Inr ())))"

definition refresh_crl ::
  "env \<Rightarrow> config \<Rightarrow> crl_scope \<Rightarrow> world \<Rightarrow> world \<times> (crl_error + unit)" where
  "refresh_crl e c scope w =
     (case refresh_precheck e c scope w of
        Inl x \<Rightarrow> (w, Inl x)
      | Inr jobs \<Rightarrow> if jobs = [] then (w, Inr ()) else refresh_locked e jobs w)"

section \<open>What revoking does\<close>

lemma sign_crl_Inr:
  "sign_crl issuer key entries number now next_update = Inr crl \<longleftrightarrow>
   is_CA_cert issuer \<and> (\<forall>en \<in> set entries. ce_reason en \<noteq> 8) \<and>
   crl = make_crl issuer key entries number now next_update"
  by (auto simp: sign_crl_def list_ex_iff)

lemma make_crl_fields [simp]:
  "crl_revoked (make_crl issuer key entries number now next_update) = entries"
  "crl_number (make_crl issuer key entries number now next_update) = number"
  "crl_this_update (make_crl issuer key entries number now next_update) = now"
  "crl_signer (make_crl issuer key entries number now next_update) = key"
  "crl_issuer (make_crl issuer key entries number now next_update) = x_subject issuer"
  "crl_until (make_crl issuer key entries number now next_update) = now + unat next_update"
  by (simp_all add: make_crl_def)

lemma next_crl_Inr:
  "next_crl e rs prev p victim horizon = Inr crl \<Longrightarrow>
   crl_number crl = crl_number prev + 1 \<and> crl_this_update crl = e_clock e 2 \<and>
   crl_revoked crl = prune_crl_entries rs prev @ [entry_of victim (cp_code p)] \<and> crl_signer crl = cp_key p \<and>
   crl_issuer crl = x_subject (cp_cert p) \<and> cp_code p \<noteq> 8 \<and>
   crl_until crl = e_clock e 2 + unat (crl_next_update (cp_cert p) (e_clock e 3) horizon)"
  by (auto simp: next_crl_def sign_crl_Inr entry_of_def)

lemma put_file_cases:
  "put_file e loc a w = (w', ok) \<Longrightarrow>
   (ok \<and> w' = w\<lparr>w_files := (w_files w)(loc \<mapsto> a)\<rparr>) \<or> (\<not> ok \<and> w' = w)"
  by (auto simp: put_file_def split: if_splits)

lemma index_rows_ensure [simp]: "index_rows (ensure_cert_index d) = index_rows d"
  by (simp add: ensure_cert_index_def index_rows_def split: option.splits)

lemma publish_cases:
  "publish e sl res w = (w', r) \<Longrightarrow>
   (w' = w \<and> r = Inl Crl_not_written) \<or>
   (w_files w' = (w_files w)(ca_file sl ''.crl'' \<mapsto> Crl_der (snd res)) \<and>
    (r = Inl (Failed Commit_failed) \<and> w_db w' = w_db w \<or> r = Inr (snd res) \<and> w_db w' = Some (fst res)))"
  by (auto simp: publish_def put_file_def split: if_splits)

lemma revoke_next_Inr:
  "revoke_next e target cn serial p w = Inr (d, crl) \<Longrightarrow>
   \<exists>d0 prev fp victim. w_db w = Some d0 \<and> load_crl w (gn_slug (cp_gen p)) = Inr prev \<and>
      revoke_lookup (index_rows d0) (normalize_serial serial) cn target (e_clock e 1) = Some fp \<and>
      load_cert (db_store d0) fp = Some victim \<and>
      next_crl e (index_rows d0) prev p victim crl_next_update_days = Inr crl \<and>
      d = d0\<lparr>db_store := store_revoke_cert victim (cp_code p) (db_store d0),
             db_cert_index := Some (mark_revoked fp (e_clock e 4) (cp_code p) (index_rows d0))\<rparr>"
  unfolding revoke_next_def Let_def index_rows_ensure ensure_tables
  by (auto simp: ensure_cert_index_def rbind_Inr split: option.splits sum.splits if_splits)

lemma issuing_signer_Inr:
  assumes "issuing_signer e c w d cert = Inr (sign, sign_cert, key)"
  shows "gen_by_cn d ''signing'' (cert_issuer_cn cert) = Some sign \<and> load_ca_cert w (gn_slug sign) = Inr (Some sign_cert) \<and>
    (\<exists>ca. config_ca c (gn_purpose sign) = Some ca \<and>
       key_held (e_secrets e) (w_tokens w) (db_store d) sign_cert (spec_of ca) (gn_slug sign) key)"
  using assms
  by (auto simp: issuing_signer_def rbind_Inr lift_ca_Inr signing_key_Inr dest!: ca_key_held
      split: option.splits if_splits sum.splits)

lemma gen_by_cn_row:
  "gen_by_cn d kind cn = Some g \<Longrightarrow>
   \<exists>gs r. db_ca_index d = Some gs \<and> r \<in> set gs \<and> g_kind r = kind \<and> g_cn r = cn \<and> g = gen_of_row r"
  by (auto simp: gen_by_cn_def find_Some_iff split: option.splits) (metis nth_mem)

lemma revoke_precheck_Inr:
  "revoke_precheck e c w target cn reason serial = Inr p \<Longrightarrow>
   \<exists>d rs fp cert. parse_reason reason = Some (cp_code p) \<and> w_db w = Some d \<and> db_cert_index d = Some rs \<and>
     revoke_lookup rs (normalize_serial serial) cn target (e_clock e 0) = Some fp \<and>
     load_cert (db_store d) fp = Some cert \<and> issuing_signer e c w d cert = Inr (cp_gen p, cp_cert p, cp_key p)"
  by (auto simp: revoke_precheck_def rbind_Inr split: option.splits)

lemma revoke_cases:
  assumes "revoke e c target cn reason serial w = (w', r)"
  shows "(\<exists>x. r = Inl x \<and> w' = w) \<or>
    (\<exists>p d crl. revoke_precheck e c w target cn reason serial = Inr p \<and>
       revoke_next e target cn serial p w = Inr (d, crl) \<and>
       w_files w' = (w_files w)(ca_file (gn_slug (cp_gen p)) ''.crl'' \<mapsto> Crl_der crl) \<and>
       (r = Inl (Failed Commit_failed) \<and> w_db w' = w_db w \<or> r = Inr crl \<and> w_db w' = Some d))"
proof (cases "revoke_precheck e c w target cn reason serial")
  case (Inl x)
  with assms show ?thesis by (auto simp: revoke_def)
next
  case (Inr p)
  show ?thesis
  proof (cases "revoke_next e target cn serial p w")
    case (Inl x)
    with Inr assms show ?thesis by (auto simp: revoke_def revoke_locked_def)
  next
    case (Inr res)
    obtain d crl where res: "res = (d, crl)" by fastforce
    from Inr \<open>revoke_precheck e c w target cn reason serial = Inr p\<close> assms
    have "publish e (gn_slug (cp_gen p)) (d, crl) w = (w', r)"
      by (simp add: revoke_def revoke_locked_def res)
    from publish_cases [OF this] \<open>revoke_precheck e c w target cn reason serial = Inr p\<close> Inr show ?thesis
      unfolding res by auto
  qed
qed

lemma mark_revoked_status:
  "\<forall>r \<in> set (mark_revoked fp t code rs). r_fp r = fp \<longrightarrow> r_status r = ''revoked'' \<and> r_reason r = code"
proof
  fix r assume "r \<in> set (mark_revoked fp t code rs)"
  then obtain q where "r = (if r_fp q = fp then q\<lparr>r_status := ''revoked'', r_revoked_at := t, r_reason := code\<rparr> else q)"
    unfolding mark_revoked_def set_map by (elim imageE)
  then show "r_fp r = fp \<longrightarrow> r_status r = ''revoked'' \<and> r_reason r = code"
    by (cases "r_fp q = fp") simp_all
qed

text \<open>The row a revocation is about: an active certificate of the profile, the one with the serial
  number if one is given and the newest of the name otherwise.\<close>

definition revocable :: "cert_row list \<Rightarrow> string \<Rightarrow> string \<Rightarrow> string \<Rightarrow> nat \<Rightarrow> cert_row \<Rightarrow> bool" where
  "revocable rs serial cn target now r \<longleftrightarrow>
     r \<in> set rs \<and> r_kind r = target \<and> r_status r = ''active'' \<and> now < r_na r \<and>
     (if serial = []
      then r_cn r = cn \<and> (\<forall>q \<in> set rs. r_cn q = cn \<and> r_kind q = target \<and> r_status q = ''active'' \<and> now < r_na q \<longrightarrow> r_nb q \<le> r_nb r)
      else r_serial r = serial)"

lemma revoke_lookup_row:
  "revoke_lookup rs serial cn target now = Some fp \<Longrightarrow> \<exists>r. revocable rs serial cn target now r \<and> c_str (r_fp r) = fp"
  using active_fp_row [of rs cn target now fp] active_fp_by_serial_row [of rs serial target now fp]
  by (auto simp: revoke_lookup_def revocable_def split: if_splits)

lemma mark_revoked_rest: "filter (\<lambda>r. r_fp r \<noteq> fp) (mark_revoked fp t code rs) = filter (\<lambda>r. r_fp r \<noteq> fp) rs"
  by (induction rs) (auto simp: mark_revoked_def)

text \<open>What a revocation leaves behind: the victim marked in the index and in the store, every other row as
  it was.\<close>

definition marked :: "db \<Rightarrow> db \<Rightarrow> string \<Rightarrow> certificate \<Rightarrow> nat \<Rightarrow> bool" where
  "marked d d' fp victim code \<longleftrightarrow>
     (\<forall>r \<in> set (index_rows d'). r_fp r = fp \<longrightarrow> r_status r = ''revoked'' \<and> r_reason r = code) \<and>
     filter (\<lambda>r. r_fp r \<noteq> fp) (index_rows d') = filter (\<lambda>r. r_fp r \<noteq> fp) (index_rows d) \<and>
     cs_revoked (db_store d') (x_fp victim) = Some code"

lemma revoke_marks:
  assumes "db_cert_index d' = Some (mark_revoked fp t code (index_rows d))"
    and "db_store d' = store_revoke_cert victim code (db_store d)"
  shows "marked d d' fp victim code"
  using assms mark_revoked_status [of fp t code] mark_revoked_rest [of fp t code]
  by (simp add: marked_def index_rows_def [of d'] store_revoke_cert_def)

text \<open>C8. Revoking a certificate publishes it: on success one more list of a generation is at its place,
  with the next number, holding every entry of the previous list that is not due to leave it and then the
  certificate; the certificate is an active one of the profile, by its serial number or the newest of the
  name, and is revoked in the index and in the store; every other row is as it was, and no other file is
  touched. The generation is the one named as issuer by the certificate that was looked up before the lock:
  the list is in the name of its published certificate and signed with the key held for it, whichever
  generation is active today. (That certificate is the revoked one unless another became the newest in
  between.)\<close>

theorem revoke_publishes:
  "revoke e c target cn reason serial w = (w', Inr crl) \<Longrightarrow>
   \<exists>d d' gs r0 first r victim code g ca cert prev.
     w_db w = Some d \<and> w_db w' = Some d' \<and> db_ca_index d = Some gs \<and> parse_reason reason = Some code \<and>
     revocable (index_rows d) (normalize_serial serial) cn target (e_clock e 0) r0 \<and>
     load_cert (db_store d) (c_str (r_fp r0)) = Some first \<and>
     g \<in> set gs \<and> g_kind g = ''signing'' \<and> g_cn g = cert_issuer_cn first \<and>
     config_ca c (c_str (g_purpose g)) = Some ca \<and> load_ca_cert w (c_str (g_slug g)) = Inr (Some cert) \<and>
     crl_issuer crl = x_subject cert \<and>
     key_held (e_secrets e) (w_tokens w) (db_store d) cert (spec_of ca) (c_str (g_slug g)) (crl_signer crl) \<and>
     revocable (index_rows d) (normalize_serial serial) cn target (e_clock e 1) r \<and>
     load_cert (db_store d) (c_str (r_fp r)) = Some victim \<and>
     (revoke_lookup (index_rows d) (normalize_serial serial) cn target (e_clock e 0) =
        revoke_lookup (index_rows d) (normalize_serial serial) cn target (e_clock e 1) \<longrightarrow> victim = first) \<and>
     load_crl w (c_str (g_slug g)) = Inr prev \<and>
     w_files w' = (w_files w)(ca_file (c_str (g_slug g)) ''.crl'' \<mapsto> Crl_der crl) \<and>
     crl_number crl = crl_number prev + 1 \<and> crl_this_update crl = e_clock e 2 \<and>
     crl_until crl = e_clock e 2 + unat (crl_next_update cert (e_clock e 3) crl_next_update_days) \<and>
     crl_revoked crl = filter (\<lambda>en. \<not> entry_due (index_rows d) prev en) (crl_revoked prev) @
       [\<lparr>ce_serial = x_serial victim, ce_reason = code\<rparr>] \<and>
     marked d d' (c_str (r_fp r)) victim code"
proof -
  assume run: "revoke e c target cn reason serial w = (w', Inr crl)"
  from revoke_cases [OF run] obtain p d' where pre: "revoke_precheck e c w target cn reason serial = Inr p"
      and nxt: "revoke_next e target cn serial p w = Inr (d', crl)"
      and w': "w_files w' = (w_files w)(ca_file (gn_slug (cp_gen p)) ''.crl'' \<mapsto> Crl_der crl)" "w_db w' = Some d'"
    by auto
  from revoke_next_Inr [OF nxt] obtain d prev fp victim where l: "w_db w = Some d"
      "load_crl w (gn_slug (cp_gen p)) = Inr prev"
      "revoke_lookup (index_rows d) (normalize_serial serial) cn target (e_clock e 1) = Some fp"
      "load_cert (db_store d) fp = Some victim"
      "next_crl e (index_rows d) prev p victim crl_next_update_days = Inr crl"
      "d' = d\<lparr>db_store := store_revoke_cert victim (cp_code p) (db_store d),
             db_cert_index := Some (mark_revoked fp (e_clock e 4) (cp_code p) (index_rows d))\<rparr>"
    by blast
  from revoke_precheck_Inr [OF pre] l(1) obtain fp0 first where code: "parse_reason reason = Some (cp_code p)"
      and look: "revoke_lookup (index_rows d) (normalize_serial serial) cn target (e_clock e 0) = Some fp0"
        "load_cert (db_store d) fp0 = Some first"
      and sign: "issuing_signer e c w d first = Inr (cp_gen p, cp_cert p, cp_key p)"
    by (force simp: index_rows_def)
  from issuing_signer_Inr [OF sign] obtain ca where by_cn: "gen_by_cn d ''signing'' (cert_issuer_cn first) = Some (cp_gen p)"
      and cert: "load_ca_cert w (gn_slug (cp_gen p)) = Inr (Some (cp_cert p))" "config_ca c (gn_purpose (cp_gen p)) = Some ca"
      and key: "key_held (e_secrets e) (w_tokens w) (db_store d) (cp_cert p) (spec_of ca) (gn_slug (cp_gen p)) (cp_key p)"
    by blast
  from gen_by_cn_row [OF by_cn] obtain gs g where g: "db_ca_index d = Some gs" "g \<in> set gs" "g_kind g = ''signing''"
      "g_cn g = cert_issuer_cn first" "cp_gen p = gen_of_row g" by blast
  from revoke_lookup_row [OF look(1)] obtain r0 where r0:
    "revocable (index_rows d) (normalize_serial serial) cn target (e_clock e 0) r0" "c_str (r_fp r0) = fp0" by blast
  from revoke_lookup_row [OF l(3)] obtain r where r:
    "revocable (index_rows d) (normalize_serial serial) cn target (e_clock e 1) r" "c_str (r_fp r) = fp" by blast
  note crl = next_crl_Inr [OF l(5), unfolded prune_entries_due entry_of_def]
  have mark: "marked d d' fp victim (cp_code p)" by (rule revoke_marks) (simp_all add: l(6))
  show ?thesis
    by (rule exI [of _ d], rule exI [of _ d'], rule exI [of _ gs], rule exI [of _ r0], rule exI [of _ first],
        rule exI [of _ r], rule exI [of _ victim], rule exI [of _ "cp_code p"], rule exI [of _ g], rule exI [of _ ca],
        rule exI [of _ "cp_cert p"], rule exI [of _ prev])
      (use l(1-4) look w' code g cert key crl mark r0 r in \<open>auto simp: gen_of_row_def\<close>)
qed

text \<open>C39. A failed revocation leaves the store as it was, and the files too unless it failed at the very
  commit, when the new list is already published. The reason removeFromCRL is accepted by name and can
  never be used: the list it would go into is refused when it is made, so the revocation fails with
  nothing changed.\<close>

theorem revoke_errors:
  "(revoke e c target cn reason serial w = (w', Inl x) \<longrightarrow>
      w_db w' = w_db w \<and> (w' = w \<or> x = Failed Commit_failed)) \<and>
   (map to_lower reason = ''removefromcrl'' \<longrightarrow>
      parse_reason reason = Some 8 \<and> fst (revoke e c target cn reason serial w) = w \<and>
      (\<forall>crl. snd (revoke e c target cn reason serial w) \<noteq> Inr crl))"
proof (intro conjI impI)
  assume "revoke e c target cn reason serial w = (w', Inl x)"
  from revoke_cases [OF this] show "w_db w' = w_db w" "w' = w \<or> x = Failed Commit_failed" by auto
next
  assume "map to_lower reason = ''removefromcrl''"
  then show eight: "parse_reason reason = Some 8" by (simp add: parse_reason_def)
  obtain w' r where run: "revoke e c target cn reason serial w = (w', r)" by fastforce
  have "\<not> (\<exists>p d crl. revoke_precheck e c w target cn reason serial = Inr p \<and>
       revoke_next e target cn serial p w = Inr (d, crl))"
    using eight by (auto dest!: revoke_precheck_Inr revoke_next_Inr next_crl_Inr)
  with revoke_cases [OF run] have "\<exists>x. r = Inl x \<and> w' = w" by blast
  with run show "fst (revoke e c target cn reason serial w) = w"
      "\<forall>crl. snd (revoke e c target cn reason serial w) \<noteq> Inr crl"
    by auto
qed

section \<open>Revoking a generation\<close>

lemma revoke_ca_next_Inr:
  "revoke_ca_next e p victim victim_cert w = Inr (d, crl) \<Longrightarrow>
   \<exists>d0 prev. w_db w = Some d0 \<and> load_crl w (gn_slug (cp_gen p)) = Inr prev \<and>
      next_crl e (index_rows d0) prev p victim_cert root_crl_next_update_days = Inr crl \<and>
      d = d0\<lparr>db_store := store_revoke_cert victim_cert (cp_code p) (db_store d0),
             db_cert_index := Some (mark_revoked (x_fp victim_cert) (e_clock e 4) (cp_code p) (index_rows d0)),
             db_ca_index := map_option (mark_generation (gn_purpose victim) (gn_gen victim) ''revoked'') (db_ca_index d0)\<rparr>"
  unfolding revoke_ca_next_def Let_def index_rows_ensure ensure_tables
  by (auto simp: ensure_cert_index_def rbind_Inr split: option.splits sum.splits if_splits)

lemma revoke_ca_checks_Inr:
  "revoke_ca_checks e c w d code selector = Inr (p, victim, vc) \<Longrightarrow>
   revoke_ca_victim d c selector = Inr victim \<and> cp_code p = code \<and> cp_gen p = active_ca d c ''root'' \<and>
   load_ca_cert w (gn_slug (cp_gen p)) = Inr (Some (cp_cert p)) \<and> load_ca_cert w (gn_slug victim) = Inr (Some vc) \<and>
   (\<forall>r \<in> set (index_rows d). r_fp r = x_fp vc \<longrightarrow> r_status r \<noteq> ''revoked'')"
  unfolding revoke_ca_checks_def Let_def rbind_Inr
  by (elim exE conjE)
    (auto simp: rbind_Inr index_rows_def list_ex_iff split: option.split_asm if_split_asm sum.split_asm)

lemma revoke_ca_precheck_Inr:
  "revoke_ca_precheck e c w selector reason = (w1, Inr res) \<Longrightarrow>
   \<exists>d0 code. w_db w = Some d0 \<and> w1 = w\<lparr>w_db := Some (ensure_ca_index c d0)\<rparr> \<and> parse_reason reason = Some code \<and>
     revoke_ca_checks e c w (ensure_ca_index c d0) code selector = Inr res"
  by (auto simp: revoke_ca_precheck_def split: option.splits if_splits)

lemma revoke_ca_victim_Inr:
  "revoke_ca_victim d c selector = Inr victim \<Longrightarrow>
   (\<exists>cn. gen_by_cn d ''signing'' cn = Some victim) \<and> gn_gen victim \<noteq> gn_gen (active_ca d c (gn_purpose victim))"
  by (auto simp: revoke_ca_victim_def Let_def split: if_splits option.splits)

text \<open>\<^const>\<open>top_by\<close> is the first element no other exceeds.\<close>

lemma find_cong2: "(\<And>x. x \<in> set xs \<Longrightarrow> P x = Q x) \<Longrightarrow> find P xs = find Q xs"
  by (induction xs) auto

lemma top_by_first: "top_by f xs = find (\<lambda>x. \<forall>z \<in> set xs. f z \<le> f x) xs"
proof -
  let ?F = "\<lambda>best x. case best of None \<Rightarrow> Some x | Some b \<Rightarrow> if f x > f b then Some x else best"
  have fold: "foldl ?F (Some b) ys = find (\<lambda>y. \<forall>z \<in> set (b # ys). f z \<le> f y) (b # ys)" for b ys
  proof (induction ys arbitrary: b)
    case Nil
    then show ?case by simp
  next
    case (Cons x ys)
    show ?case
    proof (cases "f x > f b")
      case True
      then have "find (\<lambda>y. \<forall>z \<in> set (b # x # ys). f z \<le> f y) (b # x # ys) =
          find (\<lambda>y. \<forall>z \<in> set (b # x # ys). f z \<le> f y) (x # ys)" by auto
      also have "\<dots> = find (\<lambda>y. \<forall>z \<in> set (x # ys). f z \<le> f y) (x # ys)"
        using True by (intro find_cong2) fastforce
      finally show ?thesis using Cons.IH [of x] True by simp
    next
      case False
      have cong: "find (\<lambda>y. \<forall>z \<in> set (b # x # ys). f z \<le> f y) zs = find (\<lambda>y. \<forall>z \<in> set (b # ys). f z \<le> f y) zs" for zs
        using False by (intro find_cong2) fastforce
      show ?thesis
      proof (cases "\<forall>z \<in> set (b # ys). f z \<le> f b")
        case True
        with False show ?thesis using Cons.IH [of b] by simp
      next
        case no: False
        then have "\<not> (\<forall>z \<in> set (b # x # ys). f z \<le> f b)" "\<not> (\<forall>z \<in> set (b # x # ys). f z \<le> f x)"
          using False by (auto intro: le_trans)
        then have "find (\<lambda>y. \<forall>z \<in> set (b # x # ys). f z \<le> f y) (b # x # ys) =
            find (\<lambda>y. \<forall>z \<in> set (b # x # ys). f z \<le> f y) ys" by (simp only: find.simps if_False)
        also have "\<dots> = find (\<lambda>y. \<forall>z \<in> set (b # ys). f z \<le> f y) (b # ys)"
          unfolding cong using no by (simp only: find.simps if_False)
        finally show ?thesis using Cons.IH [of b] False by (simp del: find.simps)
      qed
    qed
  qed
  show ?thesis
  proof (cases xs)
    case (Cons a ys)
    then have "top_by f xs = foldl ?F (Some a) ys" by (simp add: top_by_def)
    with fold [of a ys] Cons show ?thesis by simp
  qed (simp add: top_by_def)
qed

lemma top_by_without:
  assumes "\<And>y x. top_by f xs = Some y \<Longrightarrow> x \<in> set xs \<Longrightarrow> \<not> P x \<Longrightarrow> f x \<noteq> f y"
  shows "top_by f (filter P xs) = top_by f xs"
proof (cases "top_by f xs")
  case None
  then show ?thesis by simp
next
  case (Some y)
  note top = top_by_Some [OF Some]
  have P: "P y" using assms [OF Some, of y] top by blast
  have eq: "(\<forall>z \<in> set zs. f z \<le> f x) \<longleftrightarrow> f x = f y" if "x \<in> set zs" "set zs \<subseteq> set xs" "y \<in> set zs" for x zs
  proof
    assume "\<forall>z \<in> set zs. f z \<le> f x"
    with that top show "f x = f y" by (intro le_antisym) blast+
  next
    assume "f x = f y"
    with that(2) top show "\<forall>z \<in> set zs. f z \<le> f x" by (metis subsetD)
  qed
  have "find (\<lambda>x. \<forall>z \<in> set (filter P xs). f z \<le> f x) (filter P xs) = find (\<lambda>x. f x = f y) (filter P xs)"
    using top P by (intro find_cong2 eq) auto
  also have "\<dots> = find (\<lambda>x. f x = f y) xs"
  proof -
    have "\<forall>x \<in> set ys. f x = f y \<longrightarrow> P x \<Longrightarrow> find (\<lambda>x. f x = f y) (filter P ys) = find (\<lambda>x. f x = f y) ys" for ys
      by (induction ys) auto
    then show ?thesis using assms [OF Some] by blast
  qed
  also have "\<dots> = find (\<lambda>x. \<forall>z \<in> set xs. f z \<le> f x) xs"
    using top by (intro find_cong2 eq [symmetric]) auto
  finally show ?thesis by (simp add: top_by_first)
qed

text \<open>Taking a generation that is not the active one out of service changes no CA's active
  generation.\<close>

lemma active_ca_mark:
  assumes "gen \<noteq> gn_gen (active_ca d c purpose)" and "status \<noteq> ''active''"
  shows "active_ca (d\<lparr>db_ca_index := map_option (mark_generation purpose gen status) (db_ca_index d)\<rparr>) c q = active_ca d c q"
proof (cases "db_ca_index d")
  case None
  then show ?thesis by (simp add: active_ca_def)
next
  case (Some gs)
  let ?act = "\<lambda>gs. filter (\<lambda>g. g_purpose g = q \<and> g_status g = ''active'') gs"
  have marked: "?act (mark_generation purpose gen status gs) =
      filter (\<lambda>g. \<not> (g_kind g = ''signing'' \<and> g_purpose g = purpose \<and> g_gen g = gen)) (?act gs)" for gs
    using assms(2) by (induction gs) (auto simp: mark_generation_def)
  have "top_by g_gen (?act (mark_generation purpose gen status gs)) = top_by g_gen (?act gs)"
    unfolding marked
  proof (rule top_by_without)
    fix y x assume y: "top_by g_gen (?act gs) = Some y" and x: "x \<in> set (?act gs)"
      and m: "\<not> \<not> (g_kind x = ''signing'' \<and> g_purpose x = purpose \<and> g_gen x = gen)"
    then have "q = purpose" by auto
    with y have "gn_gen (active_ca d c purpose) = g_gen y" by (simp add: active_ca_def Some gen_of_row_def)
    with m assms(1) show "g_gen x \<noteq> g_gen y" by auto
  qed
  then show ?thesis by (simp add: active_ca_def Some)
qed

lemma ensure_ca_index_tables [simp]:
  "db_cert_index (ensure_ca_index c d) = db_cert_index d" "db_store (ensure_ca_index c d) = db_store d"
  "index_rows (ensure_ca_index c d) = index_rows d"
  by (simp_all add: ensure_ca_index_def index_rows_def)

lemma active_ca_cong: "db_ca_index d = db_ca_index d' \<Longrightarrow> active_ca d = active_ca d'"
  by (simp add: active_ca_def fun_eq_iff)

lemma mark_generation_status:
  "\<forall>g \<in> set (mark_generation purpose gen status gs).
     g_kind g = ''signing'' \<and> g_purpose g = purpose \<and> g_gen g = gen \<longrightarrow> g_status g = status"
proof
  fix g assume "g \<in> set (mark_generation purpose gen status gs)"
  then obtain q where "g = (if g_kind q = ''signing'' \<and> g_purpose q = purpose \<and> g_gen q = gen then q\<lparr>g_status := status\<rparr> else q)"
    unfolding mark_generation_def set_map by (elim imageE)
  then show "g_kind g = ''signing'' \<and> g_purpose g = purpose \<and> g_gen g = gen \<longrightarrow> g_status g = status"
    by (auto split: if_splits)
qed

text \<open>C9. Revoking a CA generation never takes a CA out of service: the generation it picks is not the
  active one of its CA, and afterwards the active generation of every CA is the one it was. The next list of
  the root carries the certificate of the generation, whose rows are revoked in both indexes; no other file
  is touched.\<close>

theorem revoke_ca_spares_active:
  "revoke_ca e c selector reason w = (w', Inr crl) \<Longrightarrow>
   \<exists>d0 d d' victim vc code prev. w_db w = Some d0 \<and> d = ensure_ca_index c d0 \<and> w_db w' = Some d' \<and>
     parse_reason reason = Some code \<and> (\<exists>cn. gen_by_cn d ''signing'' cn = Some victim) \<and>
     gn_gen victim \<noteq> gn_gen (active_ca d c (gn_purpose victim)) \<and> (\<forall>q. active_ca d' c q = active_ca d c q) \<and>
     load_ca_cert w (gn_slug victim) = Inr (Some vc) \<and>
     load_crl w (gn_slug (active_ca d c ''root'')) = Inr prev \<and>
     w_files w' = (w_files w)(ca_file (gn_slug (active_ca d c ''root'')) ''.crl'' \<mapsto> Crl_der crl) \<and>
     crl_number crl = crl_number prev + 1 \<and>
     crl_revoked crl = prune_crl_entries (index_rows d) prev @ [\<lparr>ce_serial = x_serial vc, ce_reason = code\<rparr>] \<and>
     (\<forall>r \<in> set (index_rows d'). r_fp r = x_fp vc \<longrightarrow> r_status r = ''revoked'') \<and>
     (\<forall>gs. db_ca_index d' = Some gs \<longrightarrow> (\<forall>g \<in> set gs. g_kind g = ''signing'' \<and> g_purpose g = gn_purpose victim \<and>
        g_gen g = gn_gen victim \<longrightarrow> g_status g = ''revoked''))"
proof -
  assume run: "revoke_ca e c selector reason w = (w', Inr crl)"
  then obtain w1 p victim vc where pre: "revoke_ca_precheck e c w selector reason = (w1, Inr (p, victim, vc))"
      and lock: "revoke_ca_locked e p victim vc w1 = (w', Inr crl)"
    by (auto simp: revoke_ca_def split: prod.splits sum.splits)
  from revoke_ca_precheck_Inr [OF pre] obtain d0 code where d0: "w_db w = Some d0"
      "w1 = w\<lparr>w_db := Some (ensure_ca_index c d0)\<rparr>" "parse_reason reason = Some code"
      and chk: "revoke_ca_checks e c w (ensure_ca_index c d0) code selector = Inr (p, victim, vc)"
    by blast
  let ?d = "ensure_ca_index c d0"
  note chk = revoke_ca_checks_Inr [OF chk]
  from chk have victim: "\<exists>cn. gen_by_cn ?d ''signing'' cn = Some victim"
      "gn_gen victim \<noteq> gn_gen (active_ca ?d c (gn_purpose victim))"
    using revoke_ca_victim_Inr by blast+
  from lock obtain d' where nxt: "revoke_ca_next e p victim vc w1 = Inr (d', crl)"
      and pub: "publish e (gn_slug (cp_gen p)) (d', crl) w1 = (w', Inr crl)"
    using publish_cases by (fastforce simp: revoke_ca_locked_def split: sum.splits)
  from publish_cases [OF pub] d0(2) have w': "w_db w' = Some d'"
      "w_files w' = (w_files w)(ca_file (gn_slug (cp_gen p)) ''.crl'' \<mapsto> Crl_der crl)" by auto
  from revoke_ca_next_Inr [OF nxt] d0(2) obtain prev where l: "load_crl w (gn_slug (cp_gen p)) = Inr prev"
      "next_crl e (index_rows ?d) prev p vc root_crl_next_update_days = Inr crl"
      "d' = ?d\<lparr>db_store := store_revoke_cert vc (cp_code p) (db_store ?d),
             db_cert_index := Some (mark_revoked (x_fp vc) (e_clock e 4) (cp_code p) (index_rows ?d)),
             db_ca_index := map_option (mark_generation (gn_purpose victim) (gn_gen victim) ''revoked'') (db_ca_index ?d)\<rparr>"
    by (auto simp: load_crl_def)
  have act: "\<forall>q. active_ca d' c q = active_ca ?d c q"
    using active_ca_mark [OF victim(2), of "''revoked''"] active_ca_cong [of d' "?d\<lparr>db_ca_index :=
      map_option (mark_generation (gn_purpose victim) (gn_gen victim) ''revoked'') (db_ca_index ?d)\<rparr>"]
    by (simp add: l(3))
  have rev: "\<forall>r \<in> set (index_rows d'). r_fp r = x_fp vc \<longrightarrow> r_status r = ''revoked''"
    using mark_revoked_status [of "x_fp vc"] by (simp add: l(3) index_rows_def)
  have gens: "\<forall>gs. db_ca_index d' = Some gs \<longrightarrow> (\<forall>g \<in> set gs. g_kind g = ''signing'' \<and> g_purpose g = gn_purpose victim \<and>
        g_gen g = gn_gen victim \<longrightarrow> g_status g = ''revoked'')"
    using mark_generation_status by (auto simp: l(3))
  have ent: "crl_revoked crl = prune_crl_entries (index_rows ?d) prev @ [\<lparr>ce_serial = x_serial vc, ce_reason = code\<rparr>]"
      "crl_number crl = crl_number prev + 1"
    using next_crl_Inr [OF l(2)] chk by (simp_all add: entry_of_def)
  show ?thesis
    by (rule exI [of _ d0], rule exI [of _ ?d], rule exI [of _ d'], rule exI [of _ victim],
        rule exI [of _ vc], rule exI [of _ code], rule exI [of _ prev])
      (use chk l(1) w'(2) in \<open>intro conjI d0(1,3) w'(1) victim act rev gens ent refl, simp_all\<close>)
qed

section \<open>Refreshing\<close>

lemma refreshed_crl_Inr:
  "refreshed_crl e rs prev j key = Inr crl \<Longrightarrow>
   crl_number crl = crl_number prev + 1 \<and> crl_this_update crl = e_clock e 1 \<and>
   crl_revoked crl = filter (\<lambda>en. \<not> entry_due rs prev en) (crl_revoked prev) \<and> crl_signer crl = key \<and>
   crl_issuer crl = x_subject (jb_cert j) \<and>
   crl_until crl = e_clock e 1 + unat (crl_next_update (jb_cert j) (e_clock e 2) (jb_horizon j))"
  by (auto simp: refreshed_crl_def sign_crl_Inr prune_entries_due)

lemma load_crl_other:
  "w_files w' (ca_file sl ''.crl'') = w_files w (ca_file sl ''.crl'') \<Longrightarrow> load_crl w' sl = load_crl w sl"
  by (simp add: load_crl_def)

lemma refresh_loop_Cons_Inr:
  "refresh_loop e tab ok ((j, key) # js) w = (w', Inr ok') \<Longrightarrow>
   \<exists>prev rs crl w1 written. load_crl w (gn_slug (jb_ca j)) = Inr prev \<and> tab = Some rs \<and>
     refreshed_crl e rs prev j key = Inr crl \<and>
     put_file e (ca_file (gn_slug (jb_ca j)) ''.crl'') (Crl_der crl) w = (w1, written) \<and>
     refresh_loop e tab (written \<and> ok) js w1 = (w', Inr ok')"
  by (auto split: sum.split_asm option.split_asm prod.split_asm)

declare refresh_loop.simps(2) [simp del]

lemma refresh_loop_result: "refresh_loop e tab ok js w = (w', Inr True) \<Longrightarrow> ok"
proof (induction e tab ok js w arbitrary: w' rule: refresh_loop.induct)
  case (2 e tab ok j key js w)
  from refresh_loop_Cons_Inr [OF "2.prems"] obtain prev rs crl w1 written where
      *: "load_crl w (gn_slug (jb_ca j)) = Inr prev" "tab = Some rs" "refreshed_crl e rs prev j key = Inr crl"
      "put_file e (ca_file (gn_slug (jb_ca j)) ''.crl'') (Crl_der crl) w = (w1, written)"
      "refresh_loop e tab (written \<and> ok) js w1 = (w', Inr True)" by blast
  from "2.IH" [OF *(1,2,3) *(4) [symmetric] *(5)] show ?case by simp
qed simp

lemma refresh_loop_Cons:
  "refresh_loop e tab ok ((j, key) # js) w = (w', r) \<Longrightarrow>
   w' = w \<or> (\<exists>loc a w1 written. put_file e loc a w = (w1, written) \<and> refresh_loop e tab (written \<and> ok) js w1 = (w', r))"
  unfolding refresh_loop.simps(2) by (auto split: sum.split_asm option.split_asm prod.split_asm)

lemma refresh_loop_db: "refresh_loop e tab ok js w = (w', r) \<Longrightarrow> w_db w' = w_db w"
proof (induction js arbitrary: ok w)
  case (Cons jk js)
  obtain j key where "jk = (j, key)" by fastforce
  with refresh_loop_Cons [OF Cons.prems [unfolded this]] Cons.IH show ?case
    by (metis put_file_db(1) fst_conv)
qed simp

text \<open>One pass over the jobs: every list has its successor at its place.\<close>

definition successor :: "env \<Rightarrow> cert_row list \<Rightarrow> world \<Rightarrow> world \<Rightarrow> job \<times> string \<Rightarrow> bool" where
  "successor e rs w w' jk \<longleftrightarrow>
     (\<exists>prev crl. load_crl w (gn_slug (jb_ca (fst jk))) = Inr prev \<and> load_crl w' (gn_slug (jb_ca (fst jk))) = Inr crl \<and>
        refreshed_crl e rs prev (fst jk) (snd jk) = Inr crl)"

lemma refresh_loop_successors:
  "refresh_loop e (Some rs) ok js w = (w', Inr True) \<Longrightarrow> distinct (map (\<lambda>jk. gn_slug (jb_ca (fst jk))) js) \<Longrightarrow>
   (\<forall>jk \<in> set js. successor e rs w w' jk) \<and>
   (\<forall>loc. loc \<notin> (\<lambda>jk. ca_file (gn_slug (jb_ca (fst jk))) ''.crl'') ` set js \<longrightarrow> w_files w' loc = w_files w loc)"
proof (induction js arbitrary: ok w)
  case Nil
  then show ?case by simp
next
  case (Cons jk js)
  obtain j key where jk: "jk = (j, key)" by fastforce
  let ?loc = "ca_file (gn_slug (jb_ca j)) ''.crl''"
  from refresh_loop_Cons_Inr [OF Cons.prems(1) [unfolded jk]] obtain prev crl w1 written where
      *: "load_crl w (gn_slug (jb_ca j)) = Inr prev" "refreshed_crl e rs prev j key = Inr crl"
      "put_file e ?loc (Crl_der crl) w = (w1, written)"
      "refresh_loop e (Some rs) (written \<and> ok) js w1 = (w', Inr True)" by blast
  from refresh_loop_result [OF *(4)] put_file_cases [OF *(3)]
  have w1: "w_files w1 = (w_files w)(?loc \<mapsto> Crl_der crl)" by auto
  from Cons.prems(2) jk have fresh: "\<forall>jk2 \<in> set js. gn_slug (jb_ca (fst jk2)) \<noteq> gn_slug (jb_ca j)"
    and dist: "distinct (map (\<lambda>jk. gn_slug (jb_ca (fst jk))) js)" by force+
  note IH = Cons.IH [OF *(4) dist]
  have "w_files w' ?loc = w_files w1 ?loc" using IH fresh by (intro IH [THEN conjunct2, rule_format]) auto
  then have "load_crl w' (gn_slug (jb_ca j)) = Inr crl" by (simp add: load_crl_def w1)
  then have head: "successor e rs w w' jk" using * by (simp add: successor_def jk)
  have tail: "successor e rs w w' jk2" if "jk2 \<in> set js" for jk2
  proof -
    have "load_crl w1 (gn_slug (jb_ca (fst jk2))) = load_crl w (gn_slug (jb_ca (fst jk2)))"
      using fresh that by (intro load_crl_other) (auto simp: w1)
    moreover have "successor e rs w1 w' jk2" using IH that by blast
    ultimately show ?thesis by (simp add: successor_def)
  qed
  show ?case
  proof (intro conjI)
    show "\<forall>jk \<in> set (jk # js). successor e rs w w' jk" using head tail by simp
    show "\<forall>loc. loc \<notin> (\<lambda>jk. ca_file (gn_slug (jb_ca (fst jk))) ''.crl'') ` set (jk # js) \<longrightarrow> w_files w' loc = w_files w loc"
      using IH by (auto simp: w1 jk)
  qed
qed

lemma load_keys_length: "load_keys e c w d tokens js = Inr keys \<Longrightarrow> length keys = length js"
  by (induction e c w d tokens js arbitrary: keys rule: load_keys.induct)
    (auto simp: rbind_Inr split: sum.split_asm prod.split_asm)

lemma refresh_precheck_Inr:
  "refresh_precheck e c scope w = Inr jks \<Longrightarrow> refresh_jobs e c scope w = Inr (map fst jks)"
  by (auto simp: refresh_precheck_def rbind_Inr split: option.split_asm if_split_asm dest: load_keys_length)

lemma refresh_locked_run:
  assumes "refresh_locked e jks w = (w', r)"
  shows "w_db w' = w_db w \<and>
    (r = Inr () \<longrightarrow> (\<exists>d. w_db w = Some d \<and> refresh_loop e (db_cert_index d) True jks w = (w', Inr True)))"
proof (cases "\<exists>d. w_db w = Some d \<and> e_lock e")
  case False
  with assms show ?thesis by (auto simp: refresh_locked_def split: option.splits if_splits)
next
  case True
  then obtain d where d: "w_db w = Some d" "e_lock e" by blast
  obtain w1 s where loop: "refresh_loop e (db_cert_index d) True jks w = (w1, s)" by fastforce
  with assms d have "w' = w1" and "r = Inr () \<Longrightarrow> s = Inr True"
    by (auto simp: refresh_locked_def split: sum.split_asm if_split_asm)
  with loop d refresh_loop_db [OF loop] show ?thesis by auto
qed

text \<open>The generations a refresh is asked for, read off the index: every active or retiring generation of
  a kind in scope, or the configured CAs where the index has none.\<close>

definition in_service :: "db \<Rightarrow> config \<Rightarrow> string \<Rightarrow> ca_gen \<Rightarrow> bool" where
  "in_service d c kind g \<longleftrightarrow>
     (let live = filter (\<lambda>r. g_kind r = kind \<and> g_status r \<in> {''active'', ''retiring''})
            (case db_ca_index d of None \<Rightarrow> [] | Some gs \<Rightarrow> gs)
      in if live \<noteq> [] then g \<in> gen_of_row ` set live
         else if kind = ''root'' then g = config_gen c ''root''
         else g \<in> config_gen c ` fst ` set (cfg_cas c))"

definition in_scope :: "crl_scope \<Rightarrow> string \<Rightarrow> bool" where
  "in_scope scope kind \<longleftrightarrow>
     (case scope of Scope_all \<Rightarrow> kind \<in> {''root'', ''signing''} | Scope_root \<Rightarrow> kind = ''root'' | Scope_signing \<Rightarrow> kind = ''signing'')"

definition spec_for :: "config \<Rightarrow> string \<Rightarrow> ca_gen \<Rightarrow> ca_spec \<Rightarrow> bool" where
  "spec_for c kind g spec \<longleftrightarrow>
     (if kind = ''root'' then spec = root_spec c else \<exists>ca. config_ca c (gn_purpose g) = Some ca \<and> spec = spec_of ca)"

definition horizon_for :: "string \<Rightarrow> int" where
  "horizon_for kind = (if kind = ''root'' then root_crl_next_update_days else crl_next_update_days)"

lemma distinct_subseq: "subseq xs ys \<Longrightarrow> distinct ys \<Longrightarrow> distinct xs"
  by (auto simp: subseq_conv_nths)

lemma live_cas_in_service: "g \<in> set (live_cas d c kind) \<longleftrightarrow> in_service d c kind g"
proof (cases "db_ca_index d")
  case None
  then show ?thesis by (force simp: live_cas_def in_service_def Let_def)
next
  case (Some gs)
  let ?live = "filter (\<lambda>r. g_kind r = kind \<and> (g_status r = ''active'' \<or> g_status r = ''retiring'')) gs"
  have "sort_key (\<lambda>g. (g_purpose g, g_gen g)) ?live = [] \<longleftrightarrow> ?live = []"
    unfolding length_0_conv [symmetric] length_sort ..
  then show ?thesis
    unfolding live_cas_def in_service_def Some option.case Let_def insert_iff empty_iff simp_thms map_is_Nil_conv
    by (cases "?live = []") (force, simp)
qed

definition covers :: "config \<Rightarrow> world \<Rightarrow> nat \<Rightarrow> string \<Rightarrow> ca_gen \<Rightarrow> job \<Rightarrow> bool" where
  "covers c w now kind g j \<longleftrightarrow> jb_ca j = g \<and> load_ca_cert w (gn_slug g) = Inr (Some (jb_cert j)) \<and>
     now < x_not_after (jb_cert j) \<and> spec_for c kind g (jb_spec j) \<and> jb_horizon j = horizon_for kind"

lemma collect_covers:
  assumes "collect c w now kind (horizon_for kind) gs = Inr jobs"
  shows "(\<forall>g \<in> set gs. \<exists>cert. load_ca_cert w (gn_slug g) = Inr (Some cert) \<and>
       (now < x_not_after cert \<longrightarrow> (\<exists>j \<in> set jobs. covers c w now kind g j))) \<and>
     (\<forall>j \<in> set jobs. jb_ca j \<in> set gs \<and> covers c w now kind (jb_ca j) j) \<and>
     subseq (map (\<lambda>j. gn_slug (jb_ca j)) jobs) (map gn_slug gs)"
  using assms
proof (induction c w now kind "horizon_for kind" gs arbitrary: jobs rule: collect.induct)
  case (1 c w now kind)
  then show ?case by simp
next
  case (2 c w now kind g gs)
  from "2.prems" obtain spec where spec: "(if kind = ''root'' then Inr (root_spec c)
            else case config_ca c (gn_purpose g) of None \<Rightarrow> Inl No_section | Some ca \<Rightarrow> Inr (spec_of ca)) = Inr spec"
    and body: "(case load_ca_cert w (gn_slug g) of Inl x \<Rightarrow> Inl (Failed (Throws_load x))
     | Inr None \<Rightarrow> Inl Crl_missing
     | Inr (Some cert) \<Rightarrow>
         if w_files w (ca_file (gn_slug g) ''.crl'') = None then Inl Crl_missing
         else if x_not_after cert \<le> now then collect c w now kind (horizon_for kind) gs
         else rbind (collect c w now kind (horizon_for kind) gs) (\<lambda>jobs.
           Inr (\<lparr>jb_ca = g, jb_spec = spec, jb_horizon = horizon_for kind, jb_cert = cert\<rparr> # jobs))) = Inr jobs"
    unfolding collect.simps rbind_Inr by blast
  from body obtain cert where cert: "load_ca_cert w (gn_slug g) = Inr (Some cert)"
    by (auto split: sum.split_asm option.split_asm)
  with body have crl: "w_files w (ca_file (gn_slug g) ''.crl'') \<noteq> None" by (auto split: if_split_asm)
  have sf: "spec_for c kind g spec" using spec by (auto simp: spec_for_def split: if_splits option.splits)
  show ?case
  proof (cases "now < x_not_after cert")
    case False
    then have "collect c w now kind (horizon_for kind) gs = Inr jobs"
      using body crl by (simp add: cert)
    from "2.hyps"(1) [OF cert refl crl _ this] False cert show ?thesis by auto
  next
    case True
    then obtain rest where rest: "collect c w now kind (horizon_for kind) gs = Inr rest"
        and jobs: "jobs = \<lparr>jb_ca = g, jb_spec = spec, jb_horizon = horizon_for kind, jb_cert = cert\<rparr> # rest"
      using body crl by (auto simp: cert rbind_Inr)
    have IH: "(\<forall>g \<in> set gs. \<exists>cert. load_ca_cert w (gn_slug g) = Inr (Some cert) \<and>
         (now < x_not_after cert \<longrightarrow> (\<exists>j \<in> set rest. covers c w now kind g j))) \<and>
       (\<forall>j \<in> set rest. jb_ca j \<in> set gs \<and> covers c w now kind (jb_ca j) j) \<and>
       subseq (map (\<lambda>j. gn_slug (jb_ca j)) rest) (map gn_slug gs)"
      using "2.hyps"(2) [OF cert refl crl _ rest] True by simp
    have "covers c w now kind g (hd jobs)" using cert sf True by (simp add: covers_def jobs)
    with IH cert show ?thesis unfolding jobs by (auto 0 3)
  qed
qed

lemma in_scope_cases:
  "in_scope scope kind \<longleftrightarrow> kind = ''root'' \<and> scope \<noteq> Scope_signing \<or> kind = ''signing'' \<and> scope \<noteq> Scope_root"
  by (cases scope) (auto simp: in_scope_def)

lemma refresh_jobs_covers:
  assumes "refresh_jobs e c scope w = Inr jobs" and "w_db w = Some d"
  shows "in_scope scope kind \<Longrightarrow> in_service d c kind g \<Longrightarrow> \<exists>cert. load_ca_cert w (gn_slug g) = Inr (Some cert) \<and>
       (e_clock e 0 < x_not_after cert \<longrightarrow> (\<exists>j \<in> set jobs. covers c w (e_clock e 0) kind g j))"
    and "j \<in> set jobs \<Longrightarrow> \<exists>kind. in_scope scope kind \<and> in_service d c kind (jb_ca j) \<and> covers c w (e_clock e 0) kind (jb_ca j) j"
    and "subseq (map (\<lambda>j. gn_slug (jb_ca j)) jobs) (map gn_slug (live_cas d c ''root'' @ live_cas d c ''signing''))"
proof -
  from assms obtain roots signs where jobs: "jobs = roots @ signs"
    and roots: "if scope \<noteq> Scope_signing
      then collect c w (e_clock e 0) ''root'' (horizon_for ''root'') (live_cas d c ''root'') = Inr roots else roots = []"
    and signs: "if scope \<noteq> Scope_root
      then collect c w (e_clock e 0) ''signing'' (horizon_for ''signing'') (live_cas d c ''signing'') = Inr signs else signs = []"
    by (auto simp: refresh_jobs_def Let_def rbind_Inr horizon_for_def split: option.split_asm if_split_asm)
  let ?of = "\<lambda>kind. if kind = ''root'' then roots else signs"
  have part: "collect c w (e_clock e 0) kind (horizon_for kind) (live_cas d c kind) = Inr (?of kind)" if "in_scope scope kind" for kind
    using that roots signs by (auto simp: in_scope_cases split: if_split_asm)
  have sub: "set (?of kind) \<subseteq> set jobs" for kind by (simp add: jobs)
  show "in_scope scope kind \<Longrightarrow> in_service d c kind g \<Longrightarrow> \<exists>cert. load_ca_cert w (gn_slug g) = Inr (Some cert) \<and>
       (e_clock e 0 < x_not_after cert \<longrightarrow> (\<exists>j \<in> set jobs. covers c w (e_clock e 0) kind g j))"
    using collect_covers [OF part, THEN conjunct1] sub [of kind] unfolding live_cas_in_service [symmetric] by blast
  show "j \<in> set jobs \<Longrightarrow> \<exists>kind. in_scope scope kind \<and> in_service d c kind (jb_ca j) \<and> covers c w (e_clock e 0) kind (jb_ca j) j"
  proof -
    assume "j \<in> set jobs"
    then obtain kind where kind: "in_scope scope kind" "j \<in> set (?of kind)"
      using roots signs by (force simp: jobs in_scope_cases split: if_split_asm)
    from collect_covers [OF part [OF kind(1)]] kind show ?thesis unfolding live_cas_in_service [symmetric] by blast
  qed
  have "subseq (map (\<lambda>j. gn_slug (jb_ca j)) (?of kind)) (map gn_slug (live_cas d c kind))" if "kind \<in> {''root'', ''signing''}" for kind
  proof (cases "in_scope scope kind")
    case True
    with collect_covers [OF part] show ?thesis by blast
  next
    case False
    with that roots signs have "?of kind = []" by (auto simp: in_scope_cases)
    then show ?thesis by simp
  qed
  from this [of "''root''"] this [of "''signing''"]
  show "subseq (map (\<lambda>j. gn_slug (jb_ca j)) jobs) (map gn_slug (live_cas d c ''root'' @ live_cas d c ''signing''))"
    unfolding jobs map_append by (intro list_emb_append_mono) simp_all
qed

lemma load_keys_held:
  assumes "load_keys e c w d tokens js = Inr keys" and "sessions_ok (w_tokens w) tokens"
  shows "\<forall>(j, k) \<in> set (zip js keys). \<forall>key. k = Some key \<longrightarrow>
    key_held (e_secrets e) (w_tokens w) (db_store d) (jb_cert j) (jb_spec j) (gn_slug (jb_ca j)) key"
  using assms
proof (induction e c w d tokens js arbitrary: keys rule: load_keys.induct)
  case (1 e c w d tokens)
  then show ?case by simp
next
  case (2 e c w d tokens j js)
  from "2.prems"(1) obtain k tokens' rest where k: "ca_key c (e_secrets e) (w_tokens w) (db_store d) (jb_cert j) (jb_spec j)
        (gn_slug (jb_ca j)) tokens = Inr (k, tokens')" and rest: "load_keys e c w d tokens' js = Inr rest" "keys = k # rest"
    by (auto simp: rbind_Inr split: sum.split_asm)
  have "key_held (e_secrets e) (w_tokens w) (db_store d) (jb_cert j) (jb_spec j) (gn_slug (jb_ca j)) key" if "k = Some key" for key
    using ca_key_held [OF k [unfolded that] "2.prems"(2)] by blast
  moreover from "2.IH" [OF k refl rest(1)] ca_key_sessions [OF k "2.prems"(2)]
  have "\<forall>(j, k) \<in> set (zip js rest). \<forall>key. k = Some key \<longrightarrow>
    key_held (e_secrets e) (w_tokens w) (db_store d) (jb_cert j) (jb_spec j) (gn_slug (jb_ca j)) key" by blast
  ultimately show ?case by (simp add: rest(2))
qed

lemma refresh_precheck_keys:
  assumes "refresh_precheck e c scope w = Inr jks" and "w_db w = Some d" and "(j, key) \<in> set jks"
  shows "key_held (e_secrets e) (w_tokens w) (db_store d) (jb_cert j) (jb_spec j) (gn_slug (jb_ca j)) key"
proof -
  from assms(1,2) obtain jobs keys where keys: "load_keys e c w d [] jobs = Inr keys" "None \<notin> set keys"
      and jks: "jks = zip jobs (map the keys)"
    by (auto simp: refresh_precheck_def rbind_Inr split: if_split_asm)
  from assms(3) obtain k where "(j, k) \<in> set (zip jobs keys)" "key = the k"
    unfolding jks zip_map2 by auto
  moreover from this(1) keys(2) have "k \<noteq> None" by (metis set_zip_rightD)
  ultimately show ?thesis using load_keys_held [OF keys(1)] by fastforce
qed

text \<open>Whatever comes of it, the loop touches no file but the lists of its jobs.\<close>

lemma refresh_loop_frame:
  "refresh_loop e tab ok js w = (w', r) \<Longrightarrow> w_files w' loc \<noteq> w_files w loc \<Longrightarrow>
   \<exists>jk \<in> set js. loc = ca_file (gn_slug (jb_ca (fst jk))) ''.crl''"
proof (induction js arbitrary: ok w)
  case Nil
  then show ?case by simp
next
  case (Cons jk js)
  obtain j key where jk: "jk = (j, key)" by fastforce
  let ?loc = "ca_file (gn_slug (jb_ca j)) ''.crl''"
  from Cons.prems have "\<exists>crl w1 written. put_file e ?loc (Crl_der crl) w = (w1, written) \<and>
      refresh_loop e tab (written \<and> ok) js w1 = (w', r)"
    unfolding jk refresh_loop.simps(2) by (auto split: sum.split_asm option.split_asm prod.split_asm)
  then obtain crl w1 written where put: "put_file e ?loc (Crl_der crl) w = (w1, written)"
      and rest: "refresh_loop e tab (written \<and> ok) js w1 = (w', r)" by blast
  show ?case
  proof (cases "loc = ?loc")
    case True
    then show ?thesis by (simp add: jk)
  next
    case False
    with put_file_cases [OF put] have "w_files w1 loc = w_files w loc" by auto
    with Cons.IH [OF rest] Cons.prems(2) show ?thesis by auto
  qed
qed

lemma refresh_locked_frame:
  assumes "refresh_locked e jks w = (w', r)" and "w_files w' loc \<noteq> w_files w loc"
  shows "\<exists>jk \<in> set jks. loc = ca_file (gn_slug (jb_ca (fst jk))) ''.crl''"
proof -
  have "w' = w \<or> (\<exists>tab res. refresh_loop e tab True jks w = (w', res))"
    using assms(1) by (auto simp: refresh_locked_def split: option.split_asm if_split_asm sum.split_asm prod.split_asm)
  with assms(2) obtain tab res where "refresh_loop e tab True jks w = (w', res)" by auto
  from refresh_loop_frame [OF this assms(2)] show ?thesis .
qed

text \<open>What a refresh makes of the list of one generation.\<close>

definition resigned :: "env \<Rightarrow> config \<Rightarrow> db \<Rightarrow> world \<Rightarrow> world \<Rightarrow> string \<Rightarrow> ca_gen \<Rightarrow> certificate \<Rightarrow> bool" where
  "resigned e c d w w' kind g cert \<longleftrightarrow>
     (\<exists>prev crl spec. load_crl w (gn_slug g) = Inr prev \<and> load_crl w' (gn_slug g) = Inr crl \<and>
        crl_number crl = crl_number prev + 1 \<and> crl_this_update crl = e_clock e 1 \<and>
        crl_until crl = e_clock e 1 + unat (crl_next_update cert (e_clock e 2) (horizon_for kind)) \<and>
        crl_revoked crl = filter (\<lambda>en. \<not> entry_due (index_rows d) prev en) (crl_revoked prev) \<and>
        crl_issuer crl = x_subject cert \<and> spec_for c kind g spec \<and>
        key_held (e_secrets e) (w_tokens w) (db_store d) cert spec (gn_slug g) (crl_signer crl))"

lemma successor_resigned:
  assumes "successor e (index_rows d) w w' (j, key)" and "covers c w now kind g j"
    and "key_held (e_secrets e) (w_tokens w) (db_store d) (jb_cert j) (jb_spec j) (gn_slug (jb_ca j)) key"
  shows "resigned e c d w w' kind g (jb_cert j)"
proof -
  from assms(1,2) obtain prev crl where l: "load_crl w (gn_slug g) = Inr prev" "load_crl w' (gn_slug g) = Inr crl"
      and crl: "refreshed_crl e (index_rows d) prev j key = Inr crl"
    by (auto simp: successor_def covers_def)
  with assms(2,3) refreshed_crl_Inr [OF crl] show ?thesis
    unfolding resigned_def covers_def by (intro exI [of _ prev] exI [of _ crl] exI [of _ "jb_spec j"]) auto
qed

lemma refresh_locked_successors:
  assumes "refresh_locked e jks w = (w', Inr ())" and "w_db w = Some d"
    and "distinct (map (\<lambda>jk. gn_slug (jb_ca (fst jk))) jks)" and "jk \<in> set jks"
  shows "successor e (index_rows d) w w' jk"
proof -
  from refresh_locked_run [OF assms(1)] assms(2)
  have loop: "refresh_loop e (db_cert_index d) True jks w = (w', Inr True)" by auto
  obtain j key rest where "jks = (j, key) # rest" using assms(4) by (cases jks) auto
  with loop obtain rs where rs: "db_cert_index d = Some rs" using refresh_loop_Cons_Inr by blast
  from refresh_loop_successors [OF loop [unfolded rs] assms(3)] assms(4) show ?thesis
    by (simp add: index_rows_def rs)
qed

text \<open>C40. A refresh re-signs every list in scope and changes nothing else. On success the list of every
  active or retiring generation of the scope whose certificate has not expired is followed by one with the
  next number, the time of the run, the validity of its kind and exactly the entries that are not due to
  leave it, in the name of the published certificate and signed with the key held for it. However it ends, the
  store stays as it is, and no file changes but the lists of such generations. (No two of the generations
  share a slug.)\<close>

theorem refresh_resigns:
  "refresh_crl e c scope w = (w', r) \<Longrightarrow> w_db w = Some d \<Longrightarrow>
   distinct (map gn_slug (live_cas d c ''root'' @ live_cas d c ''signing'')) \<Longrightarrow>
   w_db w' = w_db w \<and>
   (r = Inr () \<longrightarrow>
     (\<forall>kind g. in_scope scope kind \<and> in_service d c kind g \<longrightarrow>
        (\<exists>cert. load_ca_cert w (gn_slug g) = Inr (Some cert) \<and>
           (e_clock e 0 < x_not_after cert \<longrightarrow> resigned e c d w w' kind g cert)))) \<and>
   (\<forall>loc. w_files w' loc \<noteq> w_files w loc \<longrightarrow>
     (\<exists>kind g cert. in_scope scope kind \<and> in_service d c kind g \<and> loc = ca_file (gn_slug g) ''.crl'' \<and>
        load_ca_cert w (gn_slug g) = Inr (Some cert) \<and> e_clock e 0 < x_not_after cert))"
proof -
  assume run: "refresh_crl e c scope w = (w', r)" and d: "w_db w = Some d"
    and dist: "distinct (map gn_slug (live_cas d c ''root'' @ live_cas d c ''signing''))"
  show ?thesis
  proof (cases "refresh_precheck e c scope w")
    case (Inl x)
    with run show ?thesis by (auto simp: refresh_crl_def)
  next
    case (Inr jks)
    note jobs = refresh_precheck_Inr [OF Inr] and keys = refresh_precheck_keys [OF Inr d]
    note cov = refresh_jobs_covers [OF jobs d]
    have slugs: "distinct (map (\<lambda>jk. gn_slug (jb_ca (fst jk))) jks)"
      using distinct_subseq [OF cov(3) dist] by (simp add: comp_def)
    have lock: "w' = w \<and> jks = [] \<or> refresh_locked e jks w = (w', r)"
      using run Inr by (auto simp: refresh_crl_def split: if_split_asm)
    show ?thesis
    proof (intro conjI impI allI)
      show "w_db w' = w_db w" using lock refresh_locked_run by blast
    next
      fix kind g assume r: "r = Inr ()" and "in_scope scope kind \<and> in_service d c kind g"
      then obtain cert where cert: "load_ca_cert w (gn_slug g) = Inr (Some cert)"
        and job: "e_clock e 0 < x_not_after cert \<longrightarrow> (\<exists>j \<in> set (map fst jks). covers c w (e_clock e 0) kind g j)"
        using cov(1) by blast
      have "resigned e c d w w' kind g cert" if live: "e_clock e 0 < x_not_after cert"
      proof -
        from job live obtain j key where jk: "(j, key) \<in> set jks" and j: "covers c w (e_clock e 0) kind g j" by auto
        with lock r have "refresh_locked e jks w = (w', Inr ())" by auto
        from successor_resigned [OF refresh_locked_successors [OF this d slugs jk] j keys [OF jk]] j cert
        show ?thesis by (simp add: covers_def)
      qed
      with cert show "\<exists>cert. load_ca_cert w (gn_slug g) = Inr (Some cert) \<and>
           (e_clock e 0 < x_not_after cert \<longrightarrow> resigned e c d w w' kind g cert)" by blast
    next
      fix loc assume "w_files w' loc \<noteq> w_files w loc"
      with lock refresh_locked_frame obtain jk where jk: "jk \<in> set jks" "loc = ca_file (gn_slug (jb_ca (fst jk))) ''.crl''"
        by blast
      with cov(2) [of "fst jk"] show "\<exists>kind g cert. in_scope scope kind \<and> in_service d c kind g \<and> loc = ca_file (gn_slug g) ''.crl'' \<and>
        load_ca_cert w (gn_slug g) = Inr (Some cert) \<and> e_clock e 0 < x_not_after cert"
        unfolding covers_def by auto
    qed
  qed
qed

section \<open>A sample store with two generations\<close>

definition sample_root_cert :: certificate where
  "sample_root_cert = sample_issuer\<lparr>x_serial := ''01'', x_fp := ''fp-root'', x_pub := ''key-root'',
     x_subject := [(Common_name, ''Root E1'')], x_exts := [(True, Basic_Constraints True None), (True, Key_Usage 1536)]\<rparr>"

definition sample_issuer2 :: certificate where
  "sample_issuer2 = sample_issuer\<lparr>x_serial := ''0C'', x_fp := ''fp-ca2'', x_pub := ''key-ca2'',
     x_subject := [(Common_name, ''CA E2'')]\<rparr>"

definition sample_leaf :: certificate where
  "sample_leaf = sample_issuer\<lparr>x_serial := ''0D'', x_fp := ''fp-leaf'', x_pub := ''key-leaf'',
     x_issuer := [(Common_name, ''CA E1'')], x_subject := [(Common_name, ''www.example.org'')],
     x_not_after := 1000000, x_exts := []\<rparr>"

definition sample_gens :: "gen_row list" where
  "sample_gens =
     [\<lparr>g_kind = ''root'', g_purpose = ''root'', g_gen = 1, g_cn = ''Root E1'', g_slug = ''root-e1'', g_status = ''active''\<rparr>,
      \<lparr>g_kind = ''signing'', g_purpose = ''tls'', g_gen = 1, g_cn = ''CA E1'', g_slug = ''ca-e1'', g_status = ''retiring''\<rparr>,
      \<lparr>g_kind = ''signing'', g_purpose = ''tls'', g_gen = 2, g_cn = ''CA E2'', g_slug = ''ca-e2'', g_status = ''active''\<rparr>]"

definition sample_pki_db :: db where
  "sample_pki_db = sample_db\<lparr>db_ca_index := Some sample_gens,
     db_cert_index := Some [cert_row_of sample_root_cert ''root'' ''root'' ''active'' 0,
       cert_row_of sample_issuer ''signing'' ''tls'' ''active'' 0, cert_row_of sample_issuer2 ''signing'' ''tls'' ''active'' 0,
       cert_row_of sample_leaf ''server'' ''tls'' ''active'' 0],
     db_store := insert_cert sample_leaf (insert_key ''pw'' sample_issuer2 ''key-ca2''
       (insert_key ''pw'' sample_root_cert ''key-root'' (db_store sample_db)))\<rparr>"

definition sample_pki_world :: world where
  "sample_pki_world = \<lparr>w_dir = Dir_used, w_db = Some sample_pki_db,
     w_files = [ca_file ''root-e1'' ''.pem'' \<mapsto> Cert_pem sample_root_cert, ca_file ''ca-e1'' ''.pem'' \<mapsto> Cert_pem sample_issuer,
       ca_file ''ca-e2'' ''.pem'' \<mapsto> Cert_pem sample_issuer2, ca_file ''root-e1'' ''.crl'' \<mapsto> Crl_der (sample_crl 100),
       ca_file ''ca-e1'' ''.crl'' \<mapsto> Crl_der (sample_crl 100), ca_file ''ca-e2'' ''.crl'' \<mapsto> Crl_der (sample_crl 100)],
     w_tokens = []\<rparr>"

definition sample_revoke :: "world \<times> (crl_error + crl)" where
  "sample_revoke = revoke (sample_env 2000) sample_config ''server'' ''www.example.org'' ''Superseded'' [] sample_pki_world"

lemma is_okI: "(case r of Inr _ \<Rightarrow> True | Inl _ \<Rightarrow> False) \<Longrightarrow> \<exists>x. r = Inr x"
  by (cases r) simp_all

lemma sample_revoke_ok: "\<exists>crl. snd sample_revoke = Inr crl"
  by (rule is_okI) code_simp

theorem revoke_publishes_witness:
  "\<exists>crl. snd sample_revoke = Inr crl \<and> w_files (fst sample_revoke) (ca_file ''ca-e1'' ''.crl'') = Some (Crl_der crl) \<and>
     crl_number crl = 4 \<and> crl_issuer crl = x_subject sample_issuer"
proof -
  obtain crl where crl: "snd sample_revoke = Inr crl" using sample_revoke_ok by blast
  then have run: "revoke (sample_env 2000) sample_config ''server'' ''www.example.org'' ''Superseded'' [] sample_pki_world =
      (fst sample_revoke, Inr crl)"
    by (metis prod.collapse sample_revoke_def)
  have leaf: "load_cert (db_store sample_pki_db) ''fp-leaf'' = Some sample_leaf"
    by (simp add: sample_pki_db_def load_cert_def insert_cert_def sample_leaf_def)
  have db: "w_db sample_pki_world = Some sample_pki_db" by (simp add: sample_pki_world_def)
  have gs: "db_ca_index sample_pki_db = Some sample_gens" by (simp add: sample_pki_db_def)
  have prev: "load_crl sample_pki_world ''ca-e1'' = Inr (sample_crl 100)"
    "load_ca_cert sample_pki_world ''ca-e1'' = Inr (Some sample_issuer)"
    by (simp_all add: load_crl_def load_ca_cert_def sample_pki_world_def ca_file_def)
  have only: "c_str (r_fp r) = ''fp-leaf''"
    if "revocable (index_rows sample_pki_db) (normalize_serial []) ''www.example.org'' ''server'' t r" for r t
  proof -
    have "\<forall>r \<in> set (index_rows sample_pki_db). r_kind r = ''server'' \<longrightarrow> c_str (r_fp r) = ''fp-leaf''" by code_simp
    with that show ?thesis by (simp add: revocable_def)
  qed
  have gen: "c_str (g_slug g) = ''ca-e1''" if "g \<in> set sample_gens" "g_kind g = ''signing''" "g_cn g = cert_issuer_cn sample_leaf" for g
  proof -
    have "\<forall>g \<in> set sample_gens. g_kind g = ''signing'' \<and> g_cn g = cert_issuer_cn sample_leaf \<longrightarrow> c_str (g_slug g) = ''ca-e1''"
      by code_simp
    with that show ?thesis by blast
  qed
  from revoke_publishes [OF run] db gs leaf obtain g cert prev' where
      "g \<in> set sample_gens" "g_kind g = ''signing''" "g_cn g = cert_issuer_cn sample_leaf"
      and "load_ca_cert sample_pki_world (c_str (g_slug g)) = Inr (Some cert)" "crl_issuer crl = x_subject cert"
      "load_crl sample_pki_world (c_str (g_slug g)) = Inr prev'" "crl_number crl = crl_number prev' + 1"
      "w_files (fst sample_revoke) = (w_files sample_pki_world)(ca_file (c_str (g_slug g)) ''.crl'' \<mapsto> Crl_der crl)"
    using only by (auto 0 3)
  with gen prev crl show ?thesis by (auto simp: sample_crl_def)
qed

theorem revoke_errors_witness:
  "parse_reason ''removeFromCRL'' = Some 8 \<and>
   fst (revoke (sample_env 2000) sample_config ''server'' ''www.example.org'' ''removeFromCRL'' [] sample_pki_world) = sample_pki_world"
proof -
  have "map to_lower ''removeFromCRL'' = ''removefromcrl''" by code_simp
  from revoke_errors [THEN conjunct2, THEN mp, OF this] show ?thesis by blast
qed

definition sample_revoke_ca :: "world \<times> (crl_error + crl)" where
  "sample_revoke_ca = revoke_ca (sample_env 2000) sample_config ''CA E1'' ''superseded'' sample_pki_world"

theorem revoke_ca_spares_active_witness:
  "\<exists>crl d. snd sample_revoke_ca = Inr crl \<and> w_db (fst sample_revoke_ca) = Some d \<and>
     gn_cn (active_ca d sample_config ''tls'') = ''CA E2''"
proof -
  have "\<exists>crl. snd sample_revoke_ca = Inr crl" by (rule is_okI) code_simp
  then obtain crl where crl: "snd sample_revoke_ca = Inr crl" by blast
  then have run: "revoke_ca (sample_env 2000) sample_config ''CA E1'' ''superseded'' sample_pki_world = (fst sample_revoke_ca, Inr crl)"
    by (metis prod.collapse sample_revoke_ca_def)
  have act: "gn_cn (active_ca (ensure_ca_index sample_config sample_pki_db) sample_config ''tls'') = ''CA E2''" by code_simp
  from revoke_ca_spares_active [OF run] obtain d' where "w_db (fst sample_revoke_ca) = Some d'"
      "\<forall>q. active_ca d' sample_config q = active_ca (ensure_ca_index sample_config sample_pki_db) sample_config q"
    by (auto simp: sample_pki_world_def)
  with crl act show ?thesis by simp
qed

theorem refresh_resigns_witness:
  "\<exists>w' crl. refresh_crl (sample_env 2000) sample_config Scope_signing sample_pki_world = (w', Inr ()) \<and>
     load_crl w' ''ca-e1'' = Inr crl \<and> crl_number crl = 4 \<and> crl_issuer crl = x_subject sample_issuer"
proof -
  let ?run = "refresh_crl (sample_env 2000) sample_config Scope_signing sample_pki_world"
  let ?old = "\<lparr>gn_purpose = ''tls'', gn_gen = 1, gn_cn = ''CA E1'', gn_slug = ''ca-e1''\<rparr>"
  have "\<exists>x. snd ?run = Inr x" by (rule is_okI) code_simp
  then have run: "?run = (fst ?run, Inr ())" by (metis old.unit.exhaust prod.collapse)
  have db: "w_db sample_pki_world = Some sample_pki_db" by (simp add: sample_pki_world_def)
  have dist: "distinct (map gn_slug (live_cas sample_pki_db sample_config ''root'' @ live_cas sample_pki_db sample_config ''signing''))"
    by code_simp
  have old: "in_scope Scope_signing ''signing''" "in_service sample_pki_db sample_config ''signing'' ?old" by code_simp+
  have cert: "load_ca_cert sample_pki_world ''ca-e1'' = Inr (Some sample_issuer)"
    by (simp add: load_ca_cert_def sample_pki_world_def ca_file_def)
  have live: "e_clock (sample_env 2000) 0 < x_not_after sample_issuer" by code_simp
  from refresh_resigns [OF run db dist] old
  have "\<exists>cert. load_ca_cert sample_pki_world ''ca-e1'' = Inr (Some cert) \<and> (e_clock (sample_env 2000) 0 < x_not_after cert \<longrightarrow>
      resigned (sample_env 2000) sample_config sample_pki_db sample_pki_world (fst ?run) ''signing'' ?old cert)"
    by fastforce
  with cert live have "resigned (sample_env 2000) sample_config sample_pki_db sample_pki_world (fst ?run) ''signing'' ?old sample_issuer"
    by auto
  then obtain prev crl where
      "load_crl sample_pki_world ''ca-e1'' = Inr prev" "load_crl (fst ?run) ''ca-e1'' = Inr crl" "crl_number crl = crl_number prev + 1"
      "crl_issuer crl = x_subject sample_issuer"
    by (auto simp: resigned_def)
  moreover have "load_crl sample_pki_world ''ca-e1'' = Inr (sample_crl 100)"
    by (simp add: load_crl_def sample_pki_world_def)
  ultimately show ?thesis using run by (intro exI [of _ "fst ?run"] exI [of _ crl]) (auto simp: sample_crl_def)
qed

end
