(* ===== verification/Ceremony.thy ===== *)
theory Ceremony
  imports Crl
begin

text \<open>
  The root ceremonies: \<^verbatim>\<open>init\<close> with \<^verbatim>\<open>create\<close>,
  \<^verbatim>\<open>add_signing_ca\<close> and \<^verbatim>\<open>renew_signing_ca\<close> with
  \<^verbatim>\<open>mint_ca_generation\<close>, and the test \<^verbatim>\<open>is_initialized\<close>. The
  keys a ceremony makes on a token stay there when it fails afterwards, so every result comes with the
  world it leaves.
\<close>

section \<open>Errors\<close>

datatype ceremony_error =
    Cer_failed ca_error
  | Already_initialized
  | Dir_not_usable
  | Pin_missing string
  | Init_failed
  | Purpose_missing
  | Purpose_not_declared
  | Purpose_held
  | New_cn_missing
  | Cn_taken
  | Root_cert_missing
  | Root_key_missing
  | Artifacts_not_written

text \<open>What the ceremony makes for its n-th CA, the root being CA 0.\<close>

type_synonym fresh_of = "nat \<Rightarrow> fresh"

section \<open>The certificates of a ceremony\<close>

definition root_certificate :: "config \<Rightarrow> fresh \<Rightarrow> string \<Rightarrow> nat \<Rightarrow> certificate" where
  "root_certificate c fr key now =
     (let dn = subject_dn (cfg_pki c) (ca_cn (cfg_root c)) False
      in make_cert (f_serial fr) (f_fp fr) key key now (nat (int now + ca_valid_days (cfg_root c) * 86400)) dn dn
           (ca_extensions (f_kid fr) None None))"

definition signing_certificate ::
  "config \<Rightarrow> signing_ca \<Rightarrow> certificate \<Rightarrow> string \<Rightarrow> string \<Rightarrow> fresh \<Rightarrow> string \<Rightarrow> string \<Rightarrow> nat \<Rightarrow> certificate" where
  "signing_certificate c ca root root_key root_slug fr key cn now =
     make_cert (f_serial fr) (f_fp fr) root_key key now (nat (int now + ca_valid_days ca * 86400))
       (x_subject root) (subject_dn (cfg_pki c) cn False)
       (signing_ca_extensions c ca root root_slug (f_kid fr))"

record minted =
  mi_ca :: signing_ca
  mi_key :: string
  mi_cert :: certificate

text \<open>One key after the other; the tokens as the last one left them.\<close>

fun mint_all ::
  "config \<Rightarrow> secrets \<Rightarrow> certificate \<Rightarrow> string \<Rightarrow> nat \<Rightarrow> (signing_ca \<times> fresh) list \<Rightarrow> token list \<Rightarrow> sessions
    \<Rightarrow> token list \<times> (key_error + minted list)" where
  "mint_all c s root root_key now [] slots tokens = (slots, Inr [])"
| "mint_all c s root root_key now ((ca, fr) # cas) slots tokens =
     (case make_ca_key c s slots tokens (spec_of ca) (ca_slug ca) (f_pub fr) of
        Inl x \<Rightarrow> (slots, Inl x)
      | Inr (key, slots', tokens') \<Rightarrow>
          (case mint_all c s root root_key now cas slots' tokens' of
             (slots'', Inl x) \<Rightarrow> (slots'', Inl x)
           | (slots'', Inr ms) \<Rightarrow>
               (slots'', Inr (\<lparr>mi_ca = ca, mi_key = key, mi_cert = signing_certificate c ca root root_key
                  (ca_slug (cfg_root c)) fr key (ca_cn ca) now\<rparr> # ms))))"

text \<open>The first list of a generation is empty and has number 1.\<close>

definition write_ca_artifacts ::
  "env \<Rightarrow> nat \<Rightarrow> string \<Rightarrow> certificate \<Rightarrow> string \<Rightarrow> int \<Rightarrow> world \<Rightarrow> world \<times> bool" where
  "write_ca_artifacts e i sl cert key horizon w =
     (case put_file e (ca_file sl ''.pem'') (Cert_pem cert) w of
        (w1, False) \<Rightarrow> (w1, False)
      | (w1, True) \<Rightarrow>
     (case put_file e (ca_file sl ''.crt'') (Cert_der cert) w1 of
        (w2, False) \<Rightarrow> (w2, False)
      | (w2, True) \<Rightarrow>
          put_file e (ca_file sl ''.crl'')
            (Crl_der (make_crl cert key [] 1 (e_clock e (Suc i)) (crl_next_update cert (e_clock e i) horizon))) w2))"

section \<open>The statements of create\<close>

text \<open>The store is filled statement by statement, each committed by itself, so an interruption leaves
  a prefix of them.\<close>

type_synonym statement = "db \<Rightarrow> store_error + db"

fun run_statements :: "nat \<Rightarrow> statement list \<Rightarrow> db \<Rightarrow> db \<times> bool" where
  "run_statements n [] d = (d, True)"
| "run_statements 0 (s # ss) d = (d, False)"
| "run_statements (Suc n) (s # ss) d =
     (case s d of Inl _ \<Rightarrow> (d, False) | Inr d' \<Rightarrow> run_statements n ss d')"

definition fresh_db :: db where
  "fresh_db = \<lparr>db_cert_index = None, db_ca_index = None, db_enrollment = None,
     db_snapshot = \<lparr>snap_config = None, snap_purposes = None\<rparr>,
     db_store = \<lparr>cs_certs = Map.empty, cs_keys = Map.empty, cs_revoked = Map.empty\<rparr>\<rparr>"

definition in_store :: "(cert_store \<Rightarrow> cert_store) \<Rightarrow> statement" where
  "in_store f d = Inr (d\<lparr>db_store := f (db_store d)\<rparr>)"

definition in_snapshot :: "(snapshot \<Rightarrow> store_error + snapshot) \<Rightarrow> statement" where
  "in_snapshot f d = rbind (f (db_snapshot d)) (\<lambda>s. Inr (d\<lparr>db_snapshot := s\<rparr>))"

definition store_ca :: "string \<Rightarrow> string \<Rightarrow> certificate \<Rightarrow> string \<Rightarrow> statement list" where
  "store_ca passphrase backend cert key =
     in_store (insert_cert cert) #
     (if backend = ''internal'' then [in_store (insert_key passphrase cert key)] else [])"

definition ensure_config_table :: "snapshot \<Rightarrow> store_error + snapshot" where
  "ensure_config_table s = Inr (s\<lparr>snap_config := Some (case snap_config s of None \<Rightarrow> [] | Some kvs \<Rightarrow> kvs)\<rparr>)"

definition lock_global_row :: "string \<times> string \<Rightarrow> snapshot \<Rightarrow> store_error + snapshot" where
  "lock_global_row kv s =
     rbind (rows (snap_config s)) (\<lambda>kvs.
     rbind (lock_globals kvs [kv]) (\<lambda>kvs'. Inr (s\<lparr>snap_config := Some kvs'\<rparr>)))"

definition ensure_purpose_table :: "snapshot \<Rightarrow> snapshot" where
  "ensure_purpose_table s = s\<lparr>snap_purposes := Some (case snap_purposes s of None \<Rightarrow> [] | Some ps \<Rightarrow> ps)\<rparr>"

definition lock_purpose_row :: "signing_ca \<Rightarrow> snapshot \<Rightarrow> store_error + snapshot" where
  "lock_purpose_row ca s =
     rbind (rows (snap_purposes s)) (\<lambda>ps.
     rbind (lock_purpose ps ca) (\<lambda>ps'. Inr (s\<lparr>snap_purposes := Some ps'\<rparr>)))"

definition index_ca :: "certificate \<Rightarrow> string \<Rightarrow> string \<Rightarrow> statement" where
  "index_ca cert kind purpose d =
     rbind (rows (db_cert_index d)) (\<lambda>rs.
       Inr (d\<lparr>db_cert_index := Some (index_cert cert kind purpose ''active'' 0 rs)\<rparr>))"

definition create_statements :: "config \<Rightarrow> string \<Rightarrow> certificate \<Rightarrow> string \<Rightarrow> minted list \<Rightarrow> statement list" where
  "create_statements c passphrase root root_key ms =
     store_ca passphrase (ca_key_backend (cfg_root c)) root root_key @
     concat (map (\<lambda>m. store_ca passphrase (ca_key_backend (mi_ca m)) (mi_cert m) (mi_key m)) ms) @
     [in_snapshot ensure_config_table] @
     map (\<lambda>kv. in_snapshot (lock_global_row kv)) (locked_global c) @
     [in_snapshot (\<lambda>s. Inr (ensure_purpose_table s))] @
     map (\<lambda>(purpose, ca). in_snapshot (lock_purpose_row ca)) (cfg_cas c) @
     [(\<lambda>d. Inr (ensure_cert_index d)), index_ca root ''root'' ''root''] @
     map (\<lambda>m. index_ca (mi_cert m) ''signing'' (ca_purpose (mi_ca m))) ms @
     [(\<lambda>d. Inr (ensure_ca_index c d))]"

section \<open>create\<close>

text \<open>Missing artifacts are only warned about.\<close>

fun write_minted :: "env \<Rightarrow> nat \<Rightarrow> minted list \<Rightarrow> world \<Rightarrow> world \<times> (ca_error + unit)" where
  "write_minted e i [] w = (w, Inr ())"
| "write_minted e i (m # ms) w =
     (if \<not> is_CA_cert (mi_cert m) then (w, Inl Throws_not_ca)
      else write_minted e (i + 2) ms
        (fst (write_ca_artifacts e i (ca_slug (mi_ca m)) (mi_cert m) (mi_key m) crl_next_update_days w)))"

definition create_store ::
  "env \<Rightarrow> nat \<Rightarrow> config \<Rightarrow> certificate \<Rightarrow> string \<Rightarrow> minted list \<Rightarrow> world \<Rightarrow> world \<times> (ca_error + unit)" where
  "create_store e n c root root_key ms w =
     (case run_statements n (create_statements c (sec_passphrase (e_secrets e)) root root_key ms) fresh_db of
        (d, False) \<Rightarrow> (w\<lparr>w_dir := Dir_used, w_db := Some d\<rparr>, Inl Commit_failed)
      | (d, True) \<Rightarrow>
          write_minted e 3 ms (fst (write_ca_artifacts e 1 (ca_slug (cfg_root c)) root root_key
            root_crl_next_update_days (w\<lparr>w_dir := Dir_used, w_db := Some d\<rparr>))))"

definition create ::
  "env \<Rightarrow> nat \<Rightarrow> config \<Rightarrow> fresh_of \<Rightarrow> world \<Rightarrow> world \<times> (ca_error + unit)" where
  "create e n c fr w =
     (case make_ca_key c (e_secrets e) (w_tokens w) [] (root_spec c) (ca_slug (cfg_root c)) (f_pub (fr 0)) of
        Inl x \<Rightarrow> (w, Inl (Cannot_load_key x))
      | Inr (root_key, slots, tokens) \<Rightarrow>
          let root = root_certificate c (fr 0) root_key (e_clock e 0) in
          if \<not> is_CA_cert root then (w\<lparr>w_tokens := slots\<rparr>, Inl Throws_not_ca)
          else (case mint_all c (e_secrets e) root root_key (e_clock e 0)
                  (zip (map snd (cfg_cas c)) (map (\<lambda>i. fr (Suc i)) [0..<length (cfg_cas c)])) slots tokens of
              (slots', Inl x) \<Rightarrow> (w\<lparr>w_tokens := slots'\<rparr>, Inl (Cannot_load_key x))
            | (slots', Inr ms) \<Rightarrow> create_store e n c root root_key ms (w\<lparr>w_tokens := slots'\<rparr>)))"

section \<open>init\<close>

definition anchor :: "cert_row list \<Rightarrow> string \<Rightarrow> string \<Rightarrow> bool" where
  "anchor rs kind cn \<longleftrightarrow> list_ex (\<lambda>r. r_kind r = kind \<and> r_cn r = cn) rs"

definition locked_value :: "snapshot \<Rightarrow> string \<Rightarrow> store_error + string" where
  "locked_value s key =
     rbind (rows (snap_config s)) (\<lambda>kvs.
       case find (\<lambda>(k, _). k = bind_text key) kvs of None \<Rightarrow> Inr [] | Some (_, v) \<Rightarrow> column_str v)"

fun anchored :: "cert_row list \<Rightarrow> bool \<Rightarrow> row list \<Rightarrow> bool" where
  "anchored rs any [] = any"
| "anchored rs any (p # ps) =
     (case column_str (p ! 2) of Inl _ \<Rightarrow> False
      | Inr cn \<Rightarrow> if \<not> anchor rs ''signing'' cn then False else anchored rs True ps)"

definition initialized :: "db \<Rightarrow> bool" where
  "initialized d =
     (case locked_value (db_snapshot d) ''root.cn'' of Inl _ \<Rightarrow> False
      | Inr root_cn \<Rightarrow>
          if root_cn = [] then False
          else (case db_cert_index d of None \<Rightarrow> False
            | Some rs \<Rightarrow>
                if \<not> anchor rs ''root'' root_cn then False
                else (case snap_purposes (db_snapshot d) of None \<Rightarrow> False | Some ps \<Rightarrow> anchored rs False ps)))"

definition is_initialized :: "world \<Rightarrow> bool" where
  "is_initialized w = (case w_db w of None \<Rightarrow> False | Some d \<Rightarrow> initialized d)"

definition init_specs :: "config \<Rightarrow> ca_spec list" where
  "init_specs c = root_spec c # map (\<lambda>(_, ca). spec_of ca) (cfg_cas c)"

definition any_internal :: "config \<Rightarrow> bool" where
  "any_internal c = list_ex (\<lambda>ca. sp_backend ca = ''internal'') (init_specs c)"

text \<open>The result comes with the passphrase shown, if one was generated. \<open>raw\<close> is the hex of
  the random bytes, \<open>n\<close> the number of statements that succeed.\<close>

definition init_passphrase :: "env \<Rightarrow> string \<Rightarrow> config \<Rightarrow> string option" where
  "init_passphrase e raw c = (if any_internal c \<and> sec_passphrase (e_secrets e) = [] then Some raw else None)"

definition init_run ::
  "env \<Rightarrow> nat \<Rightarrow> string \<Rightarrow> config \<Rightarrow> fresh_of \<Rightarrow> world \<Rightarrow> world \<times> string option \<times> (ceremony_error + unit)" where
  "init_run e n raw c fr w =
     (let secrets = (case init_passphrase e raw c of None \<Rightarrow> e_secrets e
                     | Some p \<Rightarrow> (e_secrets e)\<lparr>sec_passphrase := p\<rparr>)
      in case create (e\<lparr>e_secrets := secrets\<rparr>) n c fr (w\<lparr>w_dir := Dir_empty\<rparr>) of
           (w', Inl _) \<Rightarrow> (w', init_passphrase e raw c, Inl Init_failed)
         | (w', Inr _) \<Rightarrow> (w', init_passphrase e raw c, Inr ()))"

definition init ::
  "env \<Rightarrow> nat \<Rightarrow> string \<Rightarrow> config \<Rightarrow> fresh_of \<Rightarrow> world \<Rightarrow> world \<times> string option \<times> (ceremony_error + unit)" where
  "init e n raw c fr w =
     (if is_initialized w then (w, None, Inl Already_initialized)
      else if \<not> (w_dir w = Dir_absent \<or> w_dir w = Dir_empty) then (w, None, Inl Dir_not_usable)
      else (case find (\<lambda>ca. sp_backend ca = ''pkcs11'' \<and> ca_secret ca (e_secrets e) = []) (init_specs c) of
          Some ca \<Rightarrow> (w, None, Inl (Pin_missing (secret_env ca)))
        | None \<Rightarrow> init_run e n raw c fr w))"

section \<open>A new generation\<close>

definition ceremony_secrets_ok :: "config \<Rightarrow> secrets \<Rightarrow> signing_ca \<Rightarrow> ceremony_error + unit" where
  "ceremony_secrets_ok c s ca =
     (if ca_secret (root_spec c) s = [] then Inl (Cer_failed (Secret_missing (secret_env (root_spec c))))
      else if ca_secret (spec_of ca) s = [] then Inl (Cer_failed (Secret_missing (secret_env (spec_of ca))))
      else Inr ())"

text \<open>The root key of \<^verbatim>\<open>mint_ca_generation\<close>: on a token it is adopted or
  generated, in the store it is looked up.\<close>

definition root_key_of ::
  "config \<Rightarrow> secrets \<Rightarrow> token list \<Rightarrow> cert_store \<Rightarrow> certificate \<Rightarrow> string \<Rightarrow> string
    \<Rightarrow> key_error + string option \<times> token list \<times> sessions" where
  "root_key_of c s slots store root_cert root_slug fresh_root =
     (if sp_backend (root_spec c) = ''pkcs11'' then
        rbind (adopt_or_generate c s slots [] (root_spec c) root_slug fresh_root) (\<lambda>(key, slots', tokens).
          Inr (Some key, slots', tokens))
      else
        (case find_key (sec_passphrase s) root_cert store of
           Key k \<Rightarrow> Inr (Some k, slots, [])
         | No_key \<Rightarrow> Inr (None, slots, [])
         | Key_refused \<Rightarrow> Inl Wrong_passphrase))"

definition mint_keys ::
  "config \<Rightarrow> secrets \<Rightarrow> token list \<Rightarrow> cert_store \<Rightarrow> certificate \<Rightarrow> signing_ca \<Rightarrow> string \<Rightarrow> string \<Rightarrow> fresh_of
    \<Rightarrow> token list \<times> (key_error + string option \<times> string)" where
  "mint_keys c s slots store root_cert ca root_slug next_slug fr =
     (case root_key_of c s slots store root_cert root_slug (f_pub (fr 0)) of
        Inl x \<Rightarrow> (slots, Inl x)
      | Inr (root_key, slots', tokens) \<Rightarrow>
     (case make_ca_key c s slots' tokens (spec_of ca) next_slug (f_pub (fr 1)) of
        Inl x \<Rightarrow> (slots', Inl x)
      | Inr (key, slots'', _) \<Rightarrow> (slots'', Inr (root_key, key))))"

definition mint_ca_generation ::
  "env \<Rightarrow> config \<Rightarrow> fresh_of \<Rightarrow> signing_ca \<Rightarrow> ca_gen \<Rightarrow> ca_gen \<Rightarrow> db \<Rightarrow> world
    \<Rightarrow> world \<times> (ceremony_error + certificate \<times> string)" where
  "mint_ca_generation e c fr ca root next d w =
     (case load_ca_cert w (gn_slug root) of
        Inl x \<Rightarrow> (w, Inl (Cer_failed (Throws_load x)))
      | Inr None \<Rightarrow> (w, Inl Root_cert_missing)
      | Inr (Some root_cert) \<Rightarrow>
          if outlives_issuer root_cert (e_clock e 0) (ca_valid_days ca * 86400)
          then (w, Inl (Cer_failed Outlives_ca))
          else (case mint_keys c (e_secrets e) (w_tokens w) (db_store d) root_cert ca (gn_slug root) (gn_slug next) fr of
              (slots, Inl x) \<Rightarrow> (w\<lparr>w_tokens := slots\<rparr>, Inl (Cer_failed (Cannot_load_key x)))
            | (slots, Inr (None, _)) \<Rightarrow> (w\<lparr>w_tokens := slots\<rparr>, Inl Root_key_missing)
            | (slots, Inr (Some root_key, key)) \<Rightarrow>
                let w1 = w\<lparr>w_tokens := slots\<rparr>;
                    cert = signing_certificate c ca root_cert root_key (gn_slug root) (fr 1) key (gn_cn next) (e_clock e 1)
                in if \<not> is_CA_cert root_cert \<or> \<not> is_CA_cert cert then (w1, Inl (Cer_failed Throws_not_ca))
                   else (case write_ca_artifacts e 2 (gn_slug next) cert key crl_next_update_days w1 of
                       (w2, False) \<Rightarrow> (w2, Inl Artifacts_not_written)
                     | (w2, True) \<Rightarrow> (w2, Inr (cert, key)))))"

definition cn_is_taken :: "db \<Rightarrow> ca_gen \<Rightarrow> string \<Rightarrow> bool" where
  "cn_is_taken d root cn \<longleftrightarrow>
     cn = gn_cn root \<or> gen_by_cn d ''signing'' cn \<noteq> None \<or> gen_by_cn d ''root'' cn \<noteq> None"

text \<open>The primary key of \<^verbatim>\<open>ca_cert_index\<close>.\<close>

definition insert_gen :: "ca_gen \<Rightarrow> gen_row list \<Rightarrow> store_error + gen_row list" where
  "insert_gen g gs =
     (if list_ex (\<lambda>h. g_kind h = ''signing'' \<and> g_purpose h = gn_purpose g \<and> g_gen h = gn_gen g) gs
      then Inl Step_failed
      else Inr (gs @ [\<lparr>g_kind = ''signing'', g_purpose = gn_purpose g, g_gen = gn_gen g, g_cn = gn_cn g,
                       g_slug = gn_slug g, g_status = ''active''\<rparr>]))"

definition record_ca :: "string \<Rightarrow> signing_ca \<Rightarrow> string \<Rightarrow> certificate \<Rightarrow> string \<Rightarrow> db \<Rightarrow> db" where
  "record_ca passphrase ca purpose cert key d =
     (let s = insert_cert cert (db_store d);
          s = (if ca_key_backend ca = ''internal'' then insert_key passphrase cert key s else s)
      in d\<lparr>db_store := s,
           db_cert_index := map_option (index_cert cert ''signing'' purpose ''active'' 0)
             (db_cert_index (ensure_cert_index d))\<rparr>)"

section \<open>add signing-ca\<close>

definition add_checks ::
  "env \<Rightarrow> config \<Rightarrow> world \<Rightarrow> string \<Rightarrow> ceremony_error + signing_ca \<times> db" where
  "add_checks e c w purpose =
     (case w_db w of None \<Rightarrow> Inl (Cer_failed Not_initialized)
      | Some d \<Rightarrow>
          if purpose = [] then Inl Purpose_missing
          else (case config_ca c purpose of None \<Rightarrow> Inl Purpose_not_declared
            | Some ca \<Rightarrow>
                rbind (ceremony_secrets_ok c (e_secrets e) ca) (\<lambda>_.
                  let d1 = ensure_ca_index c d
                  in Inr (ca, d1\<lparr>db_snapshot := ensure_purpose_table (db_snapshot d1)\<rparr>))))"

definition add_precheck ::
  "env \<Rightarrow> config \<Rightarrow> fresh_of \<Rightarrow> string \<Rightarrow> world
    \<Rightarrow> world \<times> (ceremony_error + signing_ca \<times> ca_gen \<times> certificate \<times> string)" where
  "add_precheck e c fr purpose w =
     (case add_checks e c w purpose of
        Inl x \<Rightarrow> (w, Inl x)
      | Inr (ca, d) \<Rightarrow>
          let w1 = w\<lparr>w_db := Some d\<rparr>; root = active_ca d c ''root'';
              next = \<lparr>gn_purpose = purpose, gn_gen = 1, gn_cn = ca_cn ca, gn_slug = ca_slug ca\<rparr>
          in if list_ex (\<lambda>r. hd r = bind_text purpose) (case snap_purposes (db_snapshot d) of Some ps \<Rightarrow> ps | None \<Rightarrow> [])
             then (w1, Inl Purpose_held)
             else if cn_is_taken d root (gn_cn next) then (w1, Inl Cn_taken)
             else (case mint_ca_generation e c fr ca root next d w1 of
                 (w2, Inl x) \<Rightarrow> (w2, Inl x)
               | (w2, Inr (cert, key)) \<Rightarrow> (w2, Inr (ca, next, cert, key))))"

definition add_locked ::
  "env \<Rightarrow> signing_ca \<Rightarrow> ca_gen \<Rightarrow> certificate \<Rightarrow> string \<Rightarrow> world \<Rightarrow> ceremony_error + world" where
  "add_locked e ca next cert key w =
     (case w_db w of None \<Rightarrow> Inl (Cer_failed Not_initialized)
      | Some d0 \<Rightarrow>
          if \<not> e_lock e then Inl (Cer_failed Lock_failed)
          else let d = record_ca (sec_passphrase (e_secrets e)) ca (gn_purpose next) cert key d0 in
            case rbind (lock_purpose_row ca (db_snapshot d)) (\<lambda>s.
                 rbind (rows (db_ca_index d)) (\<lambda>gs.
                 rbind (insert_gen next gs) (\<lambda>gs'. Inr (d\<lparr>db_snapshot := s, db_ca_index := Some gs'\<rparr>)))) of
              Inl x \<Rightarrow> Inl (Cer_failed (Throws_store x))
            | Inr d' \<Rightarrow> if \<not> e_commit e then Inl (Cer_failed Commit_failed) else Inr (w\<lparr>w_db := Some d'\<rparr>))"

definition add_signing_ca ::
  "env \<Rightarrow> config \<Rightarrow> fresh_of \<Rightarrow> string \<Rightarrow> world \<Rightarrow> world \<times> (ceremony_error + string)" where
  "add_signing_ca e c fr purpose w =
     (case add_precheck e c fr purpose w of
        (w1, Inl x) \<Rightarrow> (w1, Inl x)
      | (w1, Inr (ca, next, cert, key)) \<Rightarrow>
          (case add_locked e ca next cert key w1 of
             Inl x \<Rightarrow> (w1, Inl x)
           | Inr w2 \<Rightarrow> (w2, Inr (gn_cn next))))"

section \<open>renew signing-ca\<close>

definition next_generation :: "signing_ca \<Rightarrow> string \<Rightarrow> nat \<Rightarrow> string \<Rightarrow> ca_gen" where
  "next_generation ca purpose gen cn =
     \<lparr>gn_purpose = purpose, gn_gen = gen + 1, gn_cn = cn, gn_slug = ca_slug_prefix ca @ show_nat (gen + 1)\<rparr>"

definition renew_precheck ::
  "env \<Rightarrow> config \<Rightarrow> fresh_of \<Rightarrow> string \<Rightarrow> string \<Rightarrow> world
    \<Rightarrow> world \<times> (ceremony_error + signing_ca \<times> ca_gen \<times> certificate \<times> string)" where
  "renew_precheck e c fr purpose new_cn w =
     (case w_db w of None \<Rightarrow> (w, Inl (Cer_failed Not_initialized))
      | Some d0 \<Rightarrow>
     (case config_ca c purpose of None \<Rightarrow> (w, Inl Purpose_not_declared)
      | Some ca \<Rightarrow>
     (case ceremony_secrets_ok c (e_secrets e) ca of Inl x \<Rightarrow> (w, Inl x)
      | Inr _ \<Rightarrow>
          if new_cn = [] then (w, Inl New_cn_missing)
          else let d = ensure_ca_index c d0; w1 = w\<lparr>w_db := Some d\<rparr>; root = active_ca d c ''root'';
                   next = next_generation ca purpose (gn_gen (active_ca d c purpose)) new_cn
            in if cn_is_taken d root new_cn then (w1, Inl Cn_taken)
               else (case mint_ca_generation e c fr ca root next d w1 of
                   (w2, Inl x) \<Rightarrow> (w2, Inl x)
                 | (w2, Inr (cert, key)) \<Rightarrow> (w2, Inr (ca, next, cert, key))))))"

definition retire :: "string \<Rightarrow> gen_row list \<Rightarrow> gen_row list" where
  "retire purpose =
     map (\<lambda>g. if g_purpose g = purpose \<and> g_status g = ''active'' then g\<lparr>g_status := ''retiring''\<rparr> else g)"

definition renew_locked ::
  "env \<Rightarrow> signing_ca \<Rightarrow> ca_gen \<Rightarrow> certificate \<Rightarrow> string \<Rightarrow> world \<Rightarrow> ceremony_error + world" where
  "renew_locked e ca next cert key w =
     (case w_db w of None \<Rightarrow> Inl (Cer_failed Not_initialized)
      | Some d0 \<Rightarrow>
          if \<not> e_lock e then Inl (Cer_failed Lock_failed)
          else let d = record_ca (sec_passphrase (e_secrets e)) ca (gn_purpose next) cert key d0 in
            case rbind (rows (db_ca_index d)) (\<lambda>gs.
                 rbind (insert_gen next (retire (gn_purpose next) gs)) (\<lambda>gs'. Inr (d\<lparr>db_ca_index := Some gs'\<rparr>))) of
              Inl x \<Rightarrow> Inl (Cer_failed (Throws_store x))
            | Inr d' \<Rightarrow> if \<not> e_commit e then Inl (Cer_failed Commit_failed) else Inr (w\<lparr>w_db := Some d'\<rparr>))"

definition renew_signing_ca ::
  "env \<Rightarrow> config \<Rightarrow> fresh_of \<Rightarrow> string \<Rightarrow> string \<Rightarrow> world \<Rightarrow> world \<times> (ceremony_error + string)" where
  "renew_signing_ca e c fr purpose new_cn w =
     (case renew_precheck e c fr purpose new_cn w of
        (w1, Inl x) \<Rightarrow> (w1, Inl x)
      | (w1, Inr (ca, next, cert, key)) \<Rightarrow>
          (case renew_locked e ca next cert key w1 of
             Inl x \<Rightarrow> (w1, Inl x)
           | Inr w2 \<Rightarrow> (w2, Inr (gn_cn next))))"

section \<open>Running statements\<close>

lemma run_statements_append:
  "run_statements (length xs) xs d = (d1, True) \<Longrightarrow>
   run_statements n (xs @ ys) d =
     (if n < length xs then run_statements n xs d else run_statements (n - length xs) ys d1)"
proof (induction xs arbitrary: n d)
  case Nil
  then show ?case by simp
next
  case (Cons s xs)
  then show ?case by (cases n) (auto split: sum.splits)
qed

lemma run_statements_append_all:
  "run_statements (length xs) xs d = (d1, True) \<Longrightarrow> run_statements (length ys) ys d1 = (d2, True) \<Longrightarrow>
   run_statements (length (xs @ ys)) (xs @ ys) d = (d2, True)"
  by (simp add: run_statements_append)

lemma run_statements_more:
  "run_statements (length xs) xs d = (d1, True) \<Longrightarrow> length xs \<le> n \<Longrightarrow> run_statements n xs d = (d1, True)"
  using run_statements_append [of xs d d1 n "[]"] by simp

lemma run_statements_short:
  "n < length xs \<Longrightarrow> snd (run_statements n xs d) = False"
  by (induction n xs d rule: run_statements.induct) (auto split: sum.splits)

lemma run_statements_keeps:
  "(\<And>s d d'. s \<in> set xs \<Longrightarrow> P d \<Longrightarrow> s d = Inr d' \<Longrightarrow> P d') \<Longrightarrow> P d \<Longrightarrow> P (fst (run_statements n xs d))"
proof (induction n xs d rule: run_statements.induct)
  case (3 n s ss d)
  show ?case
  proof (cases "s d")
    case (Inl x)
    with 3 show ?thesis by simp
  next
    case (Inr d')
    with 3(2) [of s d d'] 3(3) have P: "P d'" by simp
    have "P (fst (run_statements n ss d'))"
    proof (rule 3(1) [OF Inr _ P])
      show "P b" if "sa \<in> set ss" "P a" "sa a = Inr b" for sa a b
        using 3(2) [of sa a b] that by simp
    qed
    with Inr show ?thesis by simp
  qed
qed simp_all

text \<open>A run of two parts ends in the first or has done all of it.\<close>

lemma run_statements_parts:
  "run_statements n (xs @ ys) d = run_statements n xs d \<or>
   (\<exists>d1 m. run_statements (length xs) xs d = (d1, True) \<and> run_statements n (xs @ ys) d = run_statements m ys d1)"
proof (induction n xs d rule: run_statements.induct)
  case (3 n s ss d)
  then show ?case by (cases "s d") auto
qed auto

lemma run_statements_reaches:
  assumes "run_statements (length xs) xs d = (d', True)" and "s \<in> set xs" and "\<And>a b. s a = Inr b \<Longrightarrow> P b"
    and "\<And>t a b. t \<in> set xs \<Longrightarrow> P a \<Longrightarrow> t a = Inr b \<Longrightarrow> P b"
  shows "P d'"
  using assms
proof (induction xs arbitrary: d)
  case (Cons x xs)
  from Cons.prems(1) obtain d1 where d1: "x d = Inr d1" and rest: "run_statements (length xs) xs d1 = (d', True)"
    by (auto split: sum.split_asm)
  show ?case
  proof (cases "s \<in> set xs")
    case True
    show ?thesis
    proof (rule Cons.IH [OF rest True Cons.prems(3)])
      show "P b" if "t \<in> set xs" "P a" "t a = Inr b" for t a b
        using Cons.prems(4) [of t a b] that by simp
    qed
  next
    case False
    with Cons.prems(2,3) d1 have "P d1" by auto
    then have "P (fst (run_statements (length xs) xs d1))"
      by (rule run_statements_keeps [rotated]) (use Cons.prems(4) in auto)
    with rest show ?thesis by simp
  qed
qed simp

definition snap_upd :: "snapshot \<Rightarrow> db \<Rightarrow> db" where
  "snap_upd s d = d\<lparr>db_snapshot := s\<rparr>"

lemma run_lock_globals:
  "snap_config (db_snapshot d) = Some kvs \<Longrightarrow> lock_globals kvs xs = Inr kvs' \<Longrightarrow>
   run_statements (length xs) (map (\<lambda>kv. in_snapshot (lock_global_row kv)) xs) d =
     (d\<lparr>db_snapshot := (db_snapshot d)\<lparr>snap_config := Some kvs'\<rparr>\<rparr>, True)"
proof (induction xs arbitrary: kvs d)
  case Nil
  then show ?case by simp
next
  case (Cons x xs)
  obtain k v where x: "x = (k, v)" by fastforce
  from Cons.prems(2) have one: "lock_globals kvs [x] = Inr (kvs @ [(bind_text k, bind_text v)])"
    and rest: "lock_globals (kvs @ [(bind_text k, bind_text v)]) xs = Inr kvs'"
    by (auto simp: x split: if_splits)
  have "in_snapshot (lock_global_row x) d =
      Inr (d\<lparr>db_snapshot := (db_snapshot d)\<lparr>snap_config := Some (kvs @ [(bind_text k, bind_text v)])\<rparr>\<rparr>)"
    by (simp add: in_snapshot_def lock_global_row_def Cons.prems(1) one del: lock_globals.simps)
  with Cons.IH [OF _ rest, of "d\<lparr>db_snapshot := (db_snapshot d)\<lparr>snap_config := Some (kvs @ [(bind_text k, bind_text v)])\<rparr>\<rparr>"]
  show ?case by simp
qed

lemma run_lock_purposes:
  "snap_purposes (db_snapshot d) = Some ps \<Longrightarrow> lock_purposes ps (map snd cas) = Inr ps' \<Longrightarrow>
   run_statements (length cas) (map (\<lambda>(purpose, ca). in_snapshot (lock_purpose_row ca)) cas) d =
     (d\<lparr>db_snapshot := (db_snapshot d)\<lparr>snap_purposes := Some ps'\<rparr>\<rparr>, True)"
proof (induction cas arbitrary: ps d)
  case Nil
  then show ?case by simp
next
  case (Cons x cas)
  obtain p ca where x: "x = (p, ca)" by fastforce
  from Cons.prems(2) obtain ps1 where one: "lock_purpose ps ca = Inr ps1"
    and rest: "lock_purposes ps1 (map snd cas) = Inr ps'"
    by (cases "lock_purpose ps ca") (auto simp: x)
  have "in_snapshot (lock_purpose_row ca) d = Inr (d\<lparr>db_snapshot := (db_snapshot d)\<lparr>snap_purposes := Some ps1\<rparr>\<rparr>)"
    by (simp add: in_snapshot_def lock_purpose_row_def Cons.prems(1) one)
  with Cons.IH [OF _ rest, of "d\<lparr>db_snapshot := (db_snapshot d)\<lparr>snap_purposes := Some ps1\<rparr>\<rparr>"]
  show ?case by (simp add: x)
qed

text \<open>Storing certificates and keys touches nothing but Botan's tables.\<close>

definition store_only :: "statement list \<Rightarrow> bool" where
  "store_only xs \<longleftrightarrow> (\<forall>s \<in> set xs. \<exists>f. s = in_store f)"

lemma run_store_only:
  "store_only xs \<Longrightarrow> \<exists>st. run_statements (length xs) xs d = (d\<lparr>db_store := st\<rparr>, True)"
proof (induction xs arbitrary: d)
  case Nil
  show ?case by (rule exI [of _ "db_store d"]) simp
next
  case (Cons s xs)
  then obtain f where "s = in_store f" "store_only xs" by (auto simp: store_only_def)
  with Cons.IH [of "d\<lparr>db_store := f (db_store d)\<rparr>"] show ?case by (auto simp: in_store_def)
qed

lemma store_only_ca: "store_only (store_ca p backend cert key)"
  by (auto simp: store_only_def store_ca_def)

lemma store_only_append: "store_only (xs @ ys) \<longleftrightarrow> store_only xs \<and> store_only ys"
  by (auto simp: store_only_def)

lemma store_only_concat: "store_only (concat xss) \<longleftrightarrow> (\<forall>xs \<in> set xss. store_only xs)"
  by (auto simp: store_only_def)

section \<open>The ceremony up to the first certificate on record\<close>

definition before_index :: "config \<Rightarrow> string \<Rightarrow> certificate \<Rightarrow> string \<Rightarrow> minted list \<Rightarrow> statement list" where
  "before_index c passphrase root root_key ms =
     store_ca passphrase (ca_key_backend (cfg_root c)) root root_key @
     concat (map (\<lambda>m. store_ca passphrase (ca_key_backend (mi_ca m)) (mi_cert m) (mi_key m)) ms) @
     [in_snapshot ensure_config_table] @
     map (\<lambda>kv. in_snapshot (lock_global_row kv)) (locked_global c) @
     [in_snapshot (\<lambda>s. Inr (ensure_purpose_table s))] @
     map (\<lambda>(purpose, ca). in_snapshot (lock_purpose_row ca)) (cfg_cas c) @
     [(\<lambda>d. Inr (ensure_cert_index d))]"

definition index_statements :: "certificate \<Rightarrow> minted list \<Rightarrow> statement list" where
  "index_statements root ms =
     index_ca root ''root'' ''root'' # map (\<lambda>m. index_ca (mi_cert m) ''signing'' (ca_purpose (mi_ca m))) ms"

lemma create_statements_split:
  "create_statements c p root root_key ms =
     before_index c p root root_key ms @ index_statements root ms @ [\<lambda>d. Inr (ensure_ca_index c d)]"
  by (simp add: create_statements_def before_index_def index_statements_def)

lemma before_index_run:
  assumes "config_ok c"
  shows "\<exists>st s. lock_config c = Inr s \<and>
    run_statements (length (before_index c p root root_key ms)) (before_index c p root root_key ms) fresh_db =
      (\<lparr>db_cert_index = Some [], db_ca_index = None, db_enrollment = None, db_snapshot = s, db_store = st\<rparr>, True)"
proof -
  let ?st = "store_ca p (ca_key_backend (cfg_root c)) root root_key @
     concat (map (\<lambda>m. store_ca p (ca_key_backend (mi_ca m)) (mi_cert m) (mi_key m)) ms)"
  let ?G = "map (\<lambda>kv. in_snapshot (lock_global_row kv)) (locked_global c)"
  let ?P = "map (\<lambda>(purpose, ca). in_snapshot (lock_purpose_row ca)) (cfg_cas c)"
  from lock_config_tables [OF assms] obtain gs ps where gs: "lock_globals [] (locked_global c) = Inr gs"
      and ps: "lock_purposes [] (map snd (cfg_cas c)) = Inr ps"
      and s: "lock_config c = Inr \<lparr>snap_config = Some gs, snap_purposes = Some ps\<rparr>"
    by (auto simp: lock_config_def rbind_Inr)
  have "store_only ?st" by (auto simp: store_only_append store_only_concat store_only_ca)
  from run_store_only [OF this, of fresh_db] obtain st where
    1: "run_statements (length ?st) ?st fresh_db = (fresh_db\<lparr>db_store := st\<rparr>, True)" by blast
  let ?d1 = "fresh_db\<lparr>db_store := st, db_snapshot := \<lparr>snap_config = Some [], snap_purposes = None\<rparr>\<rparr>"
  have 2: "run_statements (length [in_snapshot ensure_config_table]) [in_snapshot ensure_config_table]
      (fresh_db\<lparr>db_store := st\<rparr>) = (?d1, True)"
    by (simp add: in_snapshot_def ensure_config_table_def fresh_db_def)
  let ?d2 = "fresh_db\<lparr>db_store := st, db_snapshot := \<lparr>snap_config = Some gs, snap_purposes = None\<rparr>\<rparr>"
  have 3: "run_statements (length ?G) ?G ?d1 = (?d2, True)"
    using run_lock_globals [OF _ gs, of ?d1] by simp
  let ?d3 = "fresh_db\<lparr>db_store := st, db_snapshot := \<lparr>snap_config = Some gs, snap_purposes = Some []\<rparr>\<rparr>"
  have 4: "run_statements (length [in_snapshot (\<lambda>s. Inr (ensure_purpose_table s))])
      [in_snapshot (\<lambda>s. Inr (ensure_purpose_table s))] ?d2 = (?d3, True)"
    by (simp add: in_snapshot_def ensure_purpose_table_def)
  let ?d4 = "fresh_db\<lparr>db_store := st, db_snapshot := \<lparr>snap_config = Some gs, snap_purposes = Some ps\<rparr>\<rparr>"
  have 5: "run_statements (length ?P) ?P ?d3 = (?d4, True)"
    using run_lock_purposes [OF _ ps, of ?d3] by simp
  have 6: "run_statements (length [\<lambda>d. Inr (ensure_cert_index d)]) [\<lambda>d. Inr (ensure_cert_index d)] ?d4 =
      (ensure_cert_index ?d4, True)" by simp
  note run = run_statements_append_all [OF 1 run_statements_append_all [OF 2 run_statements_append_all [OF 3
      run_statements_append_all [OF 4 run_statements_append_all [OF 5 6]]]]]
  have "before_index c p root root_key ms = ?st @ [in_snapshot ensure_config_table] @ ?G @
      [in_snapshot (\<lambda>s. Inr (ensure_purpose_table s))] @ ?P @ [\<lambda>d. Inr (ensure_cert_index d)]"
    by (simp add: before_index_def)
  with run s show ?thesis by (auto simp: ensure_cert_index_def fresh_db_def)
qed

lemma before_index_empty:
  "index_rows (fst (run_statements n (before_index c p root root_key ms) fresh_db)) = []"
proof (rule run_statements_keeps)
  show "index_rows fresh_db = []" by (simp add: index_rows_def fresh_db_def)
next
  fix s d d'
  assume s: "s \<in> set (before_index c p root root_key ms)" and d: "index_rows d = []" and run: "s d = Inr d'"
  have *: "(\<exists>f. s = in_store f) \<or> (\<exists>f. s = in_snapshot f) \<or> s = (\<lambda>d. Inr (ensure_cert_index d))"
    using s by (auto simp: before_index_def store_ca_def split: if_splits)
  then show "index_rows d' = []"
  proof (elim disjE exE)
    fix f assume "s = in_store f"
    with run d show ?thesis by (auto simp: in_store_def index_rows_def)
  next
    fix f assume "s = in_snapshot f"
    with run d show ?thesis by (auto simp: in_snapshot_def index_rows_def rbind_Inr)
  next
    assume "s = (\<lambda>d. Inr (ensure_cert_index d))"
    with run d show ?thesis by auto
  qed
qed

lemma index_statements_run:
  assumes "distinct (map x_fp (map fst (take j certs)))"
  shows "run_statements j (map (\<lambda>(cert, kind, purpose). index_ca cert kind purpose) certs) (d\<lparr>db_cert_index := Some []\<rparr>) =
    (d\<lparr>db_cert_index := Some (map (\<lambda>(cert, kind, purpose). cert_row_of cert kind purpose ''active'' 0) (take j certs))\<rparr>,
     length certs \<le> j)"
proof -
  have step: "run_statements j (map (\<lambda>(cert, kind, purpose). index_ca cert kind purpose) certs) (d\<lparr>db_cert_index := Some rs\<rparr>) =
      (d\<lparr>db_cert_index := Some (rs @ map (\<lambda>(cert, kind, purpose). cert_row_of cert kind purpose ''active'' 0) (take j certs))\<rparr>,
       length certs \<le> j)"
    if "distinct (map r_fp rs @ map x_fp (map fst (take j certs)))" for rs
    using that
  proof (induction j arbitrary: rs certs)
    case 0
    then show ?case by (cases certs) simp_all
  next
    case (Suc j)
    show ?case
    proof (cases certs)
      case Nil
      then show ?thesis by simp
    next
      case (Cons x certs')
      obtain cert kind purpose where x: "x = (cert, kind, purpose)" by (cases x)
      have "filter (\<lambda>r. r_fp r \<noteq> x_fp cert) rs = rs"
        using Suc.prems by (intro filter_True) (force simp: Cons x)
      then have "index_ca cert kind purpose (d\<lparr>db_cert_index := Some rs\<rparr>) =
          Inr (d\<lparr>db_cert_index := Some (rs @ [cert_row_of cert kind purpose ''active'' 0])\<rparr>)"
        by (simp add: index_ca_def index_cert_def)
      moreover have "r_fp (cert_row_of cert kind purpose ''active'' 0) = x_fp cert"
        by (simp add: cert_row_of_def)
      then have "distinct (map r_fp (rs @ [cert_row_of cert kind purpose ''active'' 0]) @ map x_fp (map fst (take j certs')))"
        using Suc.prems by (simp add: Cons x)
      note Suc.IH [OF this]
      ultimately show ?thesis by (simp add: Cons x)
    qed
  qed
  from step [of "[]"] assms show ?thesis by simp
qed


lemma config_ok_facts:
  assumes "config_ok c"
  shows "distinct (ca_cn (cfg_root c) # map (\<lambda>(_, ca). ca_cn ca) (cfg_cas c))"
    and "ca_cn (cfg_root c) \<noteq> []"
    and "(purpose, ca) \<in> set (cfg_cas c) \<Longrightarrow> ca_purpose ca = purpose \<and> ca_cn ca \<noteq> [] \<and> purpose \<noteq> ''root''"
proof -
  show "distinct (ca_cn (cfg_root c) # map (\<lambda>(_, ca). ca_cn ca) (cfg_cas c))"
    using assms by (simp add: config_ok_def names_ok_def cns_of_def split_beta')
  show "ca_cn (cfg_root c) \<noteq> []" using assms by (simp add: config_ok_def ca_fields_ok_def)
  show "ca_purpose ca = purpose \<and> ca_cn ca \<noteq> [] \<and> purpose \<noteq> ''root''" if "(purpose, ca) \<in> set (cfg_cas c)"
    using config_ok_ca [OF assms that] by (simp add: issuing_ok_def ca_fields_ok_def)
qed

lemma anchored_iff:
  "anchored rs any ps \<longleftrightarrow> (any \<or> ps \<noteq> []) \<and>
     (\<forall>p \<in> set ps. \<exists>cn. column_str (p ! 2) = Inr cn \<and> anchor rs ''signing'' cn)"
  by (induction rs any ps rule: anchored.induct) (auto split: sum.splits)

lemma initialized_locked:
  assumes "config_ok c" and "config_text_ok c" and "lock_config c = Inr s"
    and "db_snapshot d = s" and "db_cert_index d = Some rs"
  shows "initialized d \<longleftrightarrow> cfg_cas c \<noteq> [] \<and> anchor rs ''root'' (ca_cn (cfg_root c)) \<and>
     (\<forall>(_, ca) \<in> set (cfg_cas c). anchor rs ''signing'' (ca_cn ca))"
proof -
  have s: "s = \<lparr>snap_config = Some (map (\<lambda>(k, v). (bind_text k, bind_text v)) (locked_global c)),
     snap_purposes = Some (map purpose_row (map snd (cfg_cas c)))\<rparr>"
    using lock_config_tables [OF assms(1)] assms(3) by simp
  have nf: "nul_free (ca_cn (cfg_root c))" "\<And>p ca. (p, ca) \<in> set (cfg_cas c) \<Longrightarrow> nul_free (ca_cn ca)"
    using assms(2) by (auto simp: config_text_ok_def ca_text_ok_def)
  have "locked_value s ''root.cn'' = Inr (ca_cn (cfg_root c))"
    by (simp add: locked_value_def s locked_global_def bind_text_def column_str_def nf)
  moreover have "column_str (purpose_row (snd x) ! 2) = Inr (ca_cn (snd x))" if "x \<in> set (cfg_cas c)" for x
    using nf(2) [of "fst x" "snd x"] that by (simp add: purpose_row_def)
  then have "(\<forall>p \<in> set (map purpose_row (map snd (cfg_cas c))). \<exists>cn. column_str (p ! 2) = Inr cn \<and> anchor rs ''signing'' cn) \<longleftrightarrow>
      (\<forall>x \<in> set (cfg_cas c). anchor rs ''signing'' (ca_cn (snd x)))"
    by simp
  ultimately show ?thesis
    using config_ok_facts(2) [OF assms(1)] assms(4,5)
    by (simp add: initialized_def anchored_iff s split_beta')
qed

text \<open>Filling the table of generations in twice is filling it in once.\<close>

definition settled :: "config \<Rightarrow> cert_row list option \<Rightarrow> gen_row list \<Rightarrow> string \<Rightarrow> bool" where
  "settled c certs gs p \<longleftrightarrow> (\<exists>g \<in> set gs. g_purpose g = p) \<or>
     (case certs of None \<Rightarrow> True | Some rs \<Rightarrow> \<not> cert_indexed rs (gn_cn (config_gen c p)))"

lemma backfill_settled: "settled c certs gs p \<Longrightarrow> backfill c certs gs p = gs"
  by (auto simp: settled_def backfill_def list_ex_iff split: option.splits)

lemma backfill_settles: "settled c certs (backfill c certs gs p) p"
proof -
  have "gn_purpose (config_gen c p) = p" by (simp add: config_gen_def split: option.split)
  then show ?thesis by (auto simp: settled_def backfill_def list_ex_iff row_of_gen_def split: option.splits)
qed

lemma settled_backfill: "settled c certs gs p \<Longrightarrow> settled c certs (backfill c certs gs q) p"
  by (auto simp: settled_def backfill_def split: option.splits)

lemma fold_backfill_settled:
  "(\<forall>p \<in> set ps \<union> Q. settled c certs gs p) \<Longrightarrow> foldl (backfill c certs) gs ps = gs"
  by (induction ps) (simp_all add: backfill_settled)

lemma fold_backfill_settles:
  "\<forall>q \<in> Q. settled c certs gs q \<Longrightarrow> \<forall>p \<in> set ps \<union> Q. settled c certs (foldl (backfill c certs) gs ps) p"
proof (induction ps arbitrary: gs Q)
  case Nil
  then show ?case by simp
next
  case (Cons p ps)
  have "\<forall>q \<in> insert p Q. settled c certs (backfill c certs gs p) q"
    using Cons.prems backfill_settles settled_backfill by blast
  from Cons.IH [OF this] show ?case by simp
qed

lemma ensure_ca_index_snapshot [simp]: "db_snapshot (ensure_ca_index c d) = db_snapshot d"
  by (simp add: ensure_ca_index_def)

lemma ensure_ca_index_idem: "ensure_ca_index c (ensure_ca_index c d) = ensure_ca_index c d"
proof -
  let ?ps = "''root'' # map fst (cfg_cas c)"
  let ?gs = "foldl (backfill c (db_cert_index d)) (case db_ca_index d of None \<Rightarrow> [] | Some gs \<Rightarrow> gs) ?ps"
  have "\<forall>p \<in> set ?ps \<union> {}. settled c (db_cert_index d) ?gs p" by (rule fold_backfill_settles) simp
  from fold_backfill_settled [OF this] show ?thesis by (simp add: ensure_ca_index_def)
qed

text \<open>What \<^verbatim>\<open>create\<close> hands to its statements.\<close>

definition ceremony_ready :: "config \<Rightarrow> certificate \<Rightarrow> minted list \<Rightarrow> bool" where
  "ceremony_ready c root ms \<longleftrightarrow> map mi_ca ms = map snd (cfg_cas c) \<and> cert_cn root = ca_cn (cfg_root c) \<and>
     (\<forall>m \<in> set ms. cert_cn (mi_cert m) = ca_cn (mi_ca m)) \<and>
     distinct (x_fp root # map (\<lambda>m. x_fp (mi_cert m)) ms)"

definition ceremony_rows :: "certificate \<Rightarrow> minted list \<Rightarrow> cert_row list" where
  "ceremony_rows root ms = cert_row_of root ''root'' ''root'' ''active'' 0 #
     map (\<lambda>m. cert_row_of (mi_cert m) ''signing'' (ca_purpose (mi_ca m)) ''active'' 0) ms"

lemma index_rows_of_ceremony:
  assumes "ceremony_ready c root ms"
  shows "run_statements j (index_statements root ms) (d\<lparr>db_cert_index := Some []\<rparr>) =
    (d\<lparr>db_cert_index := Some (take j (ceremony_rows root ms))\<rparr>, Suc (length ms) \<le> j)"
proof -
  let ?certs = "(root, ''root'', ''root'') # map (\<lambda>m. (mi_cert m, ''signing'', ca_purpose (mi_ca m))) ms"
  have "distinct (map x_fp (map fst ?certs))" using assms by (simp add: ceremony_ready_def comp_def)
  then have "distinct (map x_fp (map fst (take j ?certs)))" unfolding take_map [symmetric] by (rule distinct_take)
  from index_statements_run [OF this] show ?thesis
    by (simp add: index_statements_def ceremony_rows_def comp_def take_map [symmetric])
qed

lemma anchor_rows:
  assumes "ceremony_ready c root ms" and "config_ok c" and "cfg_cas c \<noteq> []"
  shows "anchor (take j (ceremony_rows root ms)) ''root'' (ca_cn (cfg_root c)) \<and>
     (\<forall>(_, ca) \<in> set (cfg_cas c). anchor (take j (ceremony_rows root ms)) ''signing'' (ca_cn ca)) \<longleftrightarrow>
     Suc (length ms) \<le> j"
proof (cases j)
  case 0
  then show ?thesis by (simp add: anchor_def)
next
  case (Suc i)
  have rows: "take j (ceremony_rows root ms) = cert_row_of root ''root'' ''root'' ''active'' 0 #
      map (\<lambda>m. cert_row_of (mi_cert m) ''signing'' (ca_purpose (mi_ca m)) ''active'' 0) (take i ms)"
    by (simp add: ceremony_rows_def Suc take_map)
  have root: "anchor (take j (ceremony_rows root ms)) ''root'' (ca_cn (cfg_root c))"
    using assms(1) by (simp add: rows anchor_def cert_row_of_def ceremony_ready_def)
  have sign: "anchor (take j (ceremony_rows root ms)) ''signing'' cn \<longleftrightarrow> cn \<in> (\<lambda>m. ca_cn (mi_ca m)) ` set (take i ms)" for cn
    using assms(1) by (auto simp: rows anchor_def cert_row_of_def ceremony_ready_def list_ex_iff image_iff dest: in_set_takeD)
  have cas: "(\<lambda>m. ca_cn (mi_ca m)) ` set ms = (\<lambda>(_, ca). ca_cn ca) ` set (cfg_cas c)"
  proof -
    have "set (map ca_cn (map mi_ca ms)) = set (map ca_cn (map snd (cfg_cas c)))"
      using assms(1) by (simp add: ceremony_ready_def del: set_map list.map_comp)
    then show ?thesis by (simp add: image_image split_beta')
  qed
  have dist: "distinct (map (\<lambda>m. ca_cn (mi_ca m)) ms)"
  proof -
    have "map ca_cn (map mi_ca ms) = map (\<lambda>(_, ca). ca_cn ca) (cfg_cas c)"
      using assms(1) by (simp add: ceremony_ready_def split_beta' comp_def del: list.map_comp)
        (simp add: comp_def)?
    with config_ok_facts(1) [OF assms(2)] show ?thesis by (simp add: comp_def)
  qed
  have "(\<forall>(_, ca) \<in> set (cfg_cas c). anchor (take j (ceremony_rows root ms)) ''signing'' (ca_cn ca)) \<longleftrightarrow>
      (\<lambda>m. ca_cn (mi_ca m)) ` set ms \<subseteq> (\<lambda>m. ca_cn (mi_ca m)) ` set (take i ms)"
    unfolding cas sign by auto
  also have "\<dots> \<longleftrightarrow> length ms \<le> i"
  proof
    assume sub: "(\<lambda>m. ca_cn (mi_ca m)) ` set ms \<subseteq> (\<lambda>m. ca_cn (mi_ca m)) ` set (take i ms)"
    have "card ((\<lambda>m. ca_cn (mi_ca m)) ` set ms) = length ms"
      using distinct_card [OF dist] by simp
    moreover have "card ((\<lambda>m. ca_cn (mi_ca m)) ` set (take i ms)) \<le> length (take i ms)"
      by (rule order_trans [OF card_image_le card_length]) simp
    moreover have "card ((\<lambda>m. ca_cn (mi_ca m)) ` set ms) \<le> card ((\<lambda>m. ca_cn (mi_ca m)) ` set (take i ms))"
      by (rule card_mono [OF _ sub]) simp
    ultimately show "length ms \<le> i" by simp
  qed simp
  finally show ?thesis using root Suc by simp
qed

text \<open>What an interruption at each statement leaves: no certificate on record, some of them, all of them,
  all of them and the generations.\<close>

definition ceremony_db :: "snapshot \<Rightarrow> cert_store \<Rightarrow> cert_row list \<Rightarrow> db" where
  "ceremony_db s st rs =
     \<lparr>db_cert_index = Some rs, db_ca_index = None, db_enrollment = None, db_snapshot = s, db_store = st\<rparr>"

lemma create_stages:
  assumes "config_ok c" and "ceremony_ready c root ms"
  shows "\<exists>s st. lock_config c = Inr s \<and>
    (let a = length (before_index c p root key ms); k = Suc (length ms); rows = ceremony_rows root ms in
     length (create_statements c p root key ms) = a + k + 1 \<and>
     (\<forall>n. run_statements n (create_statements c p root key ms) fresh_db =
       (if n < a then run_statements n (before_index c p root key ms) fresh_db
        else if n < a + k then (ceremony_db s st (take (n - a) rows), False)
        else if n = a + k then (ceremony_db s st rows, False)
        else (ensure_ca_index c (ceremony_db s st rows), True))))"
proof -
  let ?A = "before_index c p root key ms" and ?B = "index_statements root ms" and ?E = "[\<lambda>d. Inr (ensure_ca_index c d)]"
  let ?R = "ceremony_rows root ms"
  from before_index_run [OF assms(1)] obtain st s where s: "lock_config c = Inr s"
      and A: "run_statements (length ?A) ?A fresh_db = (ceremony_db s st [], True)"
    unfolding ceremony_db_def by blast
  have B: "run_statements j ?B (ceremony_db s st []) = (ceremony_db s st (take j ?R), Suc (length ms) \<le> j)" for j
    using index_rows_of_ceremony [OF assms(2), of j "ceremony_db s st []"] by (simp add: ceremony_db_def)
  have lB: "length ?B = Suc (length ms)" by (simp add: index_statements_def)
  have R: "take (Suc (length ms)) ?R = ?R" by (simp add: ceremony_rows_def)
  have AB: "run_statements (length (?A @ ?B)) (?A @ ?B) fresh_db = (ceremony_db s st ?R, True)"
    by (rule run_statements_append_all [OF A]) (simp add: B lB R)
  have split: "create_statements c p root key ms = (?A @ ?B) @ ?E" by (simp add: create_statements_split)
  have "run_statements n (create_statements c p root key ms) fresh_db =
       (if n < length ?A then run_statements n ?A fresh_db
        else if n < length ?A + Suc (length ms) then (ceremony_db s st (take (n - length ?A) ?R), False)
        else if n = length ?A + Suc (length ms) then (ceremony_db s st ?R, False)
        else (ensure_ca_index c (ceremony_db s st ?R), True))" for n
  proof (cases "n < length (?A @ ?B)")
    case True
    then show ?thesis
      unfolding split run_statements_append [OF AB] by (auto simp: run_statements_append [OF A] B lB)
  next
    case False
    then show ?thesis
      unfolding split run_statements_append [OF AB]
      by (cases "n - length (?A @ ?B)") (auto simp: lB)
  qed
  with s show ?thesis by (auto simp: split lB Let_def)
qed



definition sample_minted :: "minted list" where
  "sample_minted = [\<lparr>mi_ca = sample_tls_ca, mi_key = ''key-ca'', mi_cert = sample_issuer\<rparr>]"

lemma sample_ready: "ceremony_ready sample_config sample_root_cert sample_minted"
  by (simp add: ceremony_ready_def sample_config_value sample_minted_def sample_root_cert_def cert_cn_def
      first_attribute_def sample_issuer_value sample_tls_ca_def)

lemma sample_text_ok: "config_text_ok sample_config" "cfg_cas sample_config \<noteq> []"
  by code_simp+


section \<open>init\<close>

lemma make_cert_fields [simp]:
  "x_fp (make_cert s f k p nb na i sub ex) = f" "x_pub (make_cert s f k p nb na i sub ex) = p"
  "x_subject (make_cert s f k p nb na i sub ex) = sub" "x_signer (make_cert s f k p nb na i sub ex) = k"
  "x_exts (make_cert s f k p nb na i sub ex) = ex" "x_issuer (make_cert s f k p nb na i sub ex) = i"
  "x_not_before (make_cert s f k p nb na i sub ex) = nb" "x_not_after (make_cert s f k p nb na i sub ex) = na"
  by (simp_all add: make_cert_def)

lemma cert_cn_subject_dn: "x_subject cert = subject_dn p cn simple \<Longrightarrow> cert_cn cert = cn"
  by (simp add: cert_cn_def subject_dn_def Let_def add_attribute_def first_attribute_def)

lemma root_certificate_cn [simp]: "cert_cn (root_certificate c fr key now) = ca_cn (cfg_root c)"
  by (rule cert_cn_subject_dn) (simp add: root_certificate_def Let_def)

lemma signing_certificate_cn [simp]: "cert_cn (signing_certificate c ca root rk rs fr key cn now) = cn"
  by (rule cert_cn_subject_dn) (simp add: signing_certificate_def)

lemma mint_all_Inr:
  "mint_all c s root rk now cas slots tokens = (slots', Inr ms) \<Longrightarrow>
   length ms = length cas \<and> map mi_ca ms = map fst cas \<and>
   map (\<lambda>m. x_fp (mi_cert m)) ms = map (\<lambda>(_, fr). f_fp fr) cas \<and>
   (\<forall>m \<in> set ms. cert_cn (mi_cert m) = ca_cn (mi_ca m) \<and> x_pub (mi_cert m) = mi_key m \<and> x_signer (mi_cert m) = rk \<and>
      (\<exists>kid. x_exts (mi_cert m) = signing_ca_extensions c (mi_ca m) root (ca_slug (cfg_root c)) kid))"
proof (induction c s root rk now cas slots tokens arbitrary: slots' ms rule: mint_all.induct)
  case (1 c s root rk now slots tokens)
  then show ?case by simp
next
  case (2 c s root rk now ca fr cas slots tokens)
  from 2(2) obtain key slots1 tokens1 ms1 where key: "make_ca_key c s slots tokens (spec_of ca) (ca_slug ca) (f_pub fr) = Inr (key, slots1, tokens1)"
      and rest: "mint_all c s root rk now cas slots1 tokens1 = (slots', Inr ms1)"
      and ms: "ms = \<lparr>mi_ca = ca, mi_key = key, mi_cert = signing_certificate c ca root rk (ca_slug (cfg_root c)) fr key (ca_cn ca) now\<rparr> # ms1"
    by (auto split: sum.split_asm prod.split_asm)
  from 2(1) [OF key refl refl rest] show ?case
    by (auto simp: ms) (auto simp: signing_certificate_def)
qed

lemma put_file_dir [simp]: "w_dir (fst (put_file e loc a w)) = w_dir w"
  "w_tokens (fst (put_file e loc a w)) = w_tokens w"
  by (simp_all add: put_file_def)

lemma write_ca_artifacts_cases:
  "write_ca_artifacts e i sl cert key horizon w = (w', ok) \<Longrightarrow>
   w_db w' = w_db w \<and> w_dir w' = w_dir w \<and> w_tokens w' = w_tokens w \<and>
   (\<forall>loc. loc \<notin> {ca_file sl ''.pem'', ca_file sl ''.crt'', ca_file sl ''.crl''} \<longrightarrow> w_files w' loc = w_files w loc) \<and>
   (ok \<longrightarrow> load_ca_cert w' sl = Inr (Some cert) \<and> w_files w' (ca_file sl ''.crt'') = Some (Cert_der cert) \<and>
      load_crl w' sl = Inr (make_crl cert key [] 1 (e_clock e (Suc i)) (crl_next_update cert (e_clock e i) horizon)))"
  by (auto simp: write_ca_artifacts_def load_ca_cert_def load_crl_def put_file_def split: prod.split_asm bool.split_asm if_split_asm)

lemma write_ca_artifacts_db [simp]:
  "w_db (fst (write_ca_artifacts e i sl cert key horizon w)) = w_db w"
  "w_dir (fst (write_ca_artifacts e i sl cert key horizon w)) = w_dir w"
  using write_ca_artifacts_cases [OF prod.collapse [symmetric]] by blast+

lemma write_minted_db [simp]:
  "w_db (fst (write_minted e i ms w)) = w_db w" "w_dir (fst (write_minted e i ms w)) = w_dir w"
  by (induction e i ms w rule: write_minted.induct) simp_all

lemma write_minted_result: "write_minted e i ms w = (w', r) \<Longrightarrow> w_db w' = w_db w \<and> w_dir w' = w_dir w"
  using write_minted_db [of e i ms w] by simp

text \<open>Filling in the generations right after the certificates.\<close>

lemma backfill_all:
  "distinct ps \<Longrightarrow> \<forall>p \<in> set ps. \<forall>g \<in> set gs. g_purpose g \<noteq> p \<Longrightarrow>
   \<forall>p \<in> set ps. cert_indexed rs (gn_cn (config_gen c p)) \<Longrightarrow>
   foldl (backfill c (Some rs)) gs ps = gs @ map (\<lambda>p. row_of_gen (config_gen c p)) ps"
proof (induction ps arbitrary: gs)
  case Nil
  then show ?case by simp
next
  case (Cons p ps)
  have p: "g_purpose (row_of_gen (config_gen c p)) = p" by (simp add: row_of_gen_def config_gen_def split: option.split)
  have "backfill c (Some rs) gs p = gs @ [row_of_gen (config_gen c p)]"
    using Cons.prems by (auto simp: backfill_def list_ex_iff)
  moreover have "foldl (backfill c (Some rs)) (gs @ [row_of_gen (config_gen c p)]) ps =
      (gs @ [row_of_gen (config_gen c p)]) @ map (\<lambda>p. row_of_gen (config_gen c p)) ps"
    using Cons.prems p by (intro Cons.IH) auto
  ultimately show ?case by simp
qed

lemma config_gen_known:
  assumes "config_ok c" and "config_text_ok c" and "p \<in> set (''root'' # map fst (cfg_cas c))"
  shows "gen_of_row (row_of_gen (config_gen c p)) = config_gen c p"
    and "gn_cn (config_gen c p) \<in> insert (ca_cn (cfg_root c)) ((\<lambda>(_, ca). ca_cn ca) ` set (cfg_cas c))"
proof -
  have root: "nul_free (ca_cn (cfg_root c))" "nul_free (ca_slug (cfg_root c))"
    using assms(1,2) ca_fields_nul_free [of "cfg_root c"] by (auto simp: config_ok_def config_text_ok_def ca_text_ok_def)
  have "gen_of_row (row_of_gen (config_gen c p)) = config_gen c p \<and>
      gn_cn (config_gen c p) \<in> insert (ca_cn (cfg_root c)) ((\<lambda>(_, ca). ca_cn ca) ` set (cfg_cas c))"
  proof (cases "p = ''root''")
    case True
    then show ?thesis using root by (simp add: config_gen_def gen_of_row_def row_of_gen_def)
  next
    case False
    with assms(3) obtain ca0 where ca0: "(p, ca0) \<in> set (cfg_cas c)" by auto
    then obtain ca where ca: "config_ca c p = Some ca" "(p, ca) \<in> set (cfg_cas c)"
      unfolding config_ca_def by (metis map_of_SomeD weak_map_of_SomeI)
    from config_ok_ca [OF assms(1) ca(2)] have "valid_slug p" "ca_fields_ok ca" by (simp_all add: issuing_ok_def)
    then have "nul_free p" "nul_free (ca_slug ca)" using ca_fields_nul_free [of ca] by (simp_all add: plain_nul_free plain_slug)
    moreover have "nul_free (ca_cn ca)" using assms(2) ca(2) by (auto simp: config_text_ok_def ca_text_ok_def)
    moreover have "ca_cn ca \<in> (\<lambda>(_, ca). ca_cn ca) ` set (cfg_cas c)" using ca(2) by force
    ultimately show ?thesis using False ca(1) by (simp add: config_gen_def gen_of_row_def row_of_gen_def)
  qed
  then show "gen_of_row (row_of_gen (config_gen c p)) = config_gen c p"
    "gn_cn (config_gen c p) \<in> insert (ca_cn (cfg_root c)) ((\<lambda>(_, ca). ca_cn ca) ` set (cfg_cas c))" by blast+
qed

lemma row_of_config_gen [simp]:
  "g_purpose (row_of_gen (config_gen c p)) = p" "g_status (row_of_gen g) = ''active''"
  by (simp_all add: row_of_gen_def config_gen_def split: option.split)

lemma active_ca_after_create:
  assumes "config_ok c" and "config_text_ok c" and "db_ca_index d = None" and "db_cert_index d = Some rs"
    and cns: "\<forall>cn \<in> insert (ca_cn (cfg_root c)) ((\<lambda>(_, ca). ca_cn ca) ` set (cfg_cas c)). cert_indexed rs cn"
    and p: "p \<in> set (''root'' # map fst (cfg_cas c))"
  shows "active_ca (ensure_ca_index c d) c p = config_gen c p"
proof -
  let ?ps = "''root'' # map fst (cfg_cas c)"
  have dist: "distinct ?ps"
    using assms(1) config_ok_facts(3) [OF assms(1)] by (force simp: config_ok_def omap_ok_distinct)
  have "cert_indexed rs (gn_cn (config_gen c q))" if "q \<in> set ?ps" for q
    by (rule bspec [OF cns config_gen_known(2) [OF assms(1,2) that]])
  then have idx: "\<forall>p \<in> set ?ps. cert_indexed rs (gn_cn (config_gen c p))" by (rule ballI)
  have "foldl (backfill c (Some rs)) [] ?ps = [] @ map (\<lambda>p. row_of_gen (config_gen c p)) ?ps"
    by (rule backfill_all [OF dist _ idx]) simp
  then have gs: "db_ca_index (ensure_ca_index c d) = Some (map (\<lambda>p. row_of_gen (config_gen c p)) ?ps)"
    using assms(3,4) by (simp add: ensure_ca_index_def del: foldl.simps)
  have "filter (\<lambda>g. g_purpose g = p \<and> g_status g = ''active'') (map (\<lambda>p. row_of_gen (config_gen c p)) ps) =
      (if p \<in> set ps then [row_of_gen (config_gen c p)] else [])" if "distinct ps" for ps
    using that by (induction ps) auto
  from this [OF dist] p have "filter (\<lambda>g. g_purpose g = p \<and> g_status g = ''active'')
      (map (\<lambda>p. row_of_gen (config_gen c p)) ?ps) = [row_of_gen (config_gen c p)]" by simp
  then show ?thesis
    using config_gen_known(1) [OF assms(1,2) p] by (simp add: active_ca_def gs top_by_def del: list.map filter.simps)
qed


lemma interrupted_create_length:
  "run_statements n xs d = (d', True) \<Longrightarrow> length xs \<le> n"
  using run_statements_short [of n xs d] by (cases "n < length xs") auto

text \<open>What a finished ceremony leaves.\<close>

lemma create_statements_full:
  assumes c: "config_ok c" "config_text_ok c" "cfg_cas c \<noteq> []" and ready: "ceremony_ready c root ms"
    and run: "run_statements n (create_statements c p root key ms) fresh_db = (d, True)"
  shows "initialized d \<and> load_config (Some (db_snapshot d)) = Inr (Some (c\<lparr>cfg_unknown := []\<rparr>)) \<and>
    (\<forall>p \<in> set (''root'' # map fst (cfg_cas c)). active_ca d c p = config_gen c p) \<and>
    db_cert_index d = Some (ceremony_rows root ms)"
proof -
  let ?A = "before_index c p root key ms" and ?B = "index_statements root ms" and ?E = "[\<lambda>d. Inr (ensure_ca_index c d)]"
  let ?R = "ceremony_rows root ms"
  from interrupted_create_length [OF run] have n: "length (create_statements c p root key ms) \<le> n" by simp
  from before_index_run [OF c(1)] obtain st s where s: "lock_config c = Inr s" and A: "run_statements (length ?A) ?A fresh_db =
      (\<lparr>db_cert_index = Some [], db_ca_index = None, db_enrollment = None, db_snapshot = s, db_store = st\<rparr>, True)"
    by blast
  let ?d = "\<lparr>db_cert_index = Some ?R, db_ca_index = None, db_enrollment = None, db_snapshot = s, db_store = st\<rparr>"
  have "run_statements (length ?B) ?B (?d\<lparr>db_cert_index := Some []\<rparr>) = (?d, True)"
    using index_rows_of_ceremony [OF ready, of "length ?B" "?d"] by (simp add: index_statements_def ceremony_rows_def)
  then have AB: "run_statements (length (?A @ ?B)) (?A @ ?B) fresh_db = (?d, True)"
    by (intro run_statements_append_all [OF A]) simp
  have "run_statements (length ((?A @ ?B) @ ?E)) ((?A @ ?B) @ ?E) fresh_db = (ensure_ca_index c ?d, True)"
    by (rule run_statements_append_all [OF AB]) simp
  from run_statements_more [OF this, of n] n run have d: "d = ensure_ca_index c ?d"
    by (simp add: create_statements_split)
  have all: "anchor ?R ''root'' (ca_cn (cfg_root c)) \<and> (\<forall>(_, ca) \<in> set (cfg_cas c). anchor ?R ''signing'' (ca_cn ca))"
    using anchor_rows [OF ready c(1,3), of "Suc (length ms)"] by (simp add: ceremony_rows_def)
  with initialized_locked [OF c(1,2) s, of d] c(3) have "initialized d" by (simp add: d)
  moreover have "load_config (Some s) = Inr (Some (c\<lparr>cfg_unknown := []\<rparr>))"
  proof -
    have "distinct (locked_global c)" using locked_global_distinct by (simp add: distinct_map)
    then have gs: "distinct (map (\<lambda>(k, v). (bind_text k, bind_text v)) (locked_global c))"
      by (subst distinct_map) (auto simp: inj_on_def bind_text_def)
    have same: "map ca_purpose (map snd (cfg_cas c)) = map fst (cfg_cas c)"
      using config_ok_facts(3) [OF c(1)] by auto
    have "distinct (map ca_purpose (map snd (cfg_cas c)))"
      unfolding same using c(1) by (simp add: config_ok_def omap_ok_distinct)
    then have "distinct (map purpose_row (map snd (cfg_cas c)))"
      by (auto simp: distinct_map inj_on_def purpose_row_def bind_text_def)
    with lock_config_tables [OF c(1)] s load_config_locked [OF c refl gs refl] show ?thesis by simp
  qed
  moreover have idx: "\<forall>cn \<in> insert (ca_cn (cfg_root c)) ((\<lambda>(_, ca). ca_cn ca) ` set (cfg_cas c)). cert_indexed ?R cn"
    using all by (fastforce simp: anchor_def cert_indexed_def list_ex_iff)
  then have "\<forall>p \<in> set (''root'' # map fst (cfg_cas c)). active_ca d c p = config_gen c p"
    unfolding d by (intro ballI active_ca_after_create [OF c(1,2) _ _ idx]) simp_all
  ultimately show ?thesis by (simp add: d)
qed


lemma root_certificate_fp [simp]: "x_fp (root_certificate c fr key now) = f_fp fr"
  by (simp add: root_certificate_def Let_def)

lemma create_Inr:
  assumes run: "create e n c fr w = (w', Inr ())"
    and fresh: "inj_on (\<lambda>i. f_fp (fr i)) {..length (cfg_cas c)}"
  shows "\<exists>root key ms d. ceremony_ready c root ms \<and> w_db w' = Some d \<and> w_dir w' = Dir_used \<and>
    run_statements n (create_statements c (sec_passphrase (e_secrets e)) root key ms) fresh_db = (d, True) \<and>
    (\<forall>m \<in> set ms. x_signer (mi_cert m) = x_pub root)"
proof -
  let ?L = "zip (map snd (cfg_cas c)) (map (\<lambda>i. fr (Suc i)) [0..<length (cfg_cas c)])"
  from run obtain key slots tokens slots' ms where
      mint: "mint_all c (e_secrets e) (root_certificate c (fr 0) key (e_clock e 0)) key (e_clock e 0) ?L slots tokens = (slots', Inr ms)"
      and st: "create_store e n c (root_certificate c (fr 0) key (e_clock e 0)) key ms (w\<lparr>w_tokens := slots'\<rparr>) = (w', Inr ())"
    unfolding create_def Let_def by (auto split: sum.split_asm if_split_asm prod.split_asm)
  note m = mint_all_Inr [OF mint]
  have L1: "map snd ?L = map (\<lambda>i. fr (Suc i)) [0..<length (cfg_cas c)]" by simp
  have L2: "map (\<lambda>(_, fr). f_fp fr) ?L = map f_fp (map snd ?L)" by (simp only: map_map comp_def case_prod_unfold)
  have L: "map fst ?L = map snd (cfg_cas c)"
      "map (\<lambda>(_, fr). f_fp fr) ?L = map (\<lambda>i. f_fp (fr (Suc i))) [0..<length (cfg_cas c)]"
    unfolding L2 L1 by (simp_all add: comp_def)
  have "distinct (map (\<lambda>i. f_fp (fr i)) [0..<Suc (length (cfg_cas c))])"
    using fresh by (simp add: distinct_map lessThan_Suc_atMost atLeast0LessThan del: upt_Suc)
  moreover have "map (\<lambda>i. f_fp (fr i)) [0..<Suc (length (cfg_cas c))] =
      f_fp (fr 0) # map (\<lambda>i. f_fp (fr (Suc i))) [0..<length (cfg_cas c)]"
    unfolding upt_conv_Cons [OF zero_less_Suc] map_Suc_upt [symmetric] by (simp add: comp_def)
  ultimately have "ceremony_ready c (root_certificate c (fr 0) key (e_clock e 0)) ms"
    using m L by (simp add: ceremony_ready_def comp_def del: upt_Suc)
  moreover from st obtain d where "run_statements n (create_statements c (sec_passphrase (e_secrets e))
      (root_certificate c (fr 0) key (e_clock e 0)) key ms) fresh_db = (d, True)" "w_db w' = Some d" "w_dir w' = Dir_used"
    unfolding create_store_def by (auto split: prod.split_asm bool.split_asm dest!: write_minted_result)
  moreover have "x_pub (root_certificate c (fr 0) key (e_clock e 0)) = key" by (simp add: root_certificate_def Let_def)
  ultimately show ?thesis using m by metis
qed

lemma init_run_cases:
  assumes "init_run e n raw c fr w = (w', shown, r)"
  shows "shown = init_passphrase e raw c \<and>
   (r = Inl Init_failed \<or> r = Inr () \<and> (\<exists>e'. create e' n c fr (w\<lparr>w_dir := Dir_empty\<rparr>) = (w', Inr ())))"
proof -
  define e' where "e' = e\<lparr>e_secrets := (case init_passphrase e raw c of None \<Rightarrow> e_secrets e
                     | Some p \<Rightarrow> (e_secrets e)\<lparr>sec_passphrase := p\<rparr>)\<rparr>"
  obtain w1 s where cr: "create e' n c fr (w\<lparr>w_dir := Dir_empty\<rparr>) = (w1, s)" by fastforce
  with assms have "(case s of Inl _ \<Rightarrow> (w1, init_passphrase e raw c, Inl Init_failed)
      | Inr _ \<Rightarrow> (w1, init_passphrase e raw c, Inr ())) = (w', shown, r)"
    unfolding init_run_def Let_def e'_def [symmetric] cr by (cases s) simp_all
  with cr show ?thesis by (cases s) auto
qed

lemma init_cases:
  assumes "init e n raw c fr w = (w', shown, r)"
  shows "(\<exists>x. x \<noteq> Init_failed \<and> w' = w \<and> shown = None \<and> r = Inl x) \<or>
    (w_dir w = Dir_absent \<or> w_dir w = Dir_empty) \<and> shown = init_passphrase e raw c \<and>
       (r = Inl Init_failed \<or> r = Inr () \<and> (\<exists>e'. create e' n c fr (w\<lparr>w_dir := Dir_empty\<rparr>) = (w', Inr ())))"
proof (cases "init e n raw c fr w = init_run e n raw c fr w \<and> (w_dir w = Dir_absent \<or> w_dir w = Dir_empty)")
  case True
  with assms init_run_cases [of e n raw c fr w w' shown r] show ?thesis by auto
next
  case False
  then have "\<exists>x. x \<noteq> Init_failed \<and> init e n raw c fr w = (w, None, Inl x)"
    by (auto simp: init_def split: if_splits option.splits)
  with assms show ?thesis by auto
qed

text \<open>C12. A successful init leaves an initialized store: the configuration it was given is the one every
  later command runs on, each of its CAs is at generation 1 under its configured name and artifact base
  name, and another init refuses. Init refuses without touching anything whenever the store is
  initialized, something else lies at the path or a PIN is missing; a passphrase is generated, and shown,
  only when a key needs one and none was given.\<close>

theorem init_ceremony:
  "init e n raw c fr w = (w', shown, r) \<Longrightarrow>
   (r = Inr () \<longrightarrow> config_ok c \<longrightarrow> config_text_ok c \<longrightarrow> cfg_cas c \<noteq> [] \<longrightarrow>
      inj_on (\<lambda>i. f_fp (fr i)) {..length (cfg_cas c)} \<longrightarrow>
      (\<exists>d. w_db w' = Some d \<and> load_config (Some (db_snapshot d)) = Inr (Some (c\<lparr>cfg_unknown := []\<rparr>)) \<and>
         (\<forall>p \<in> set (''root'' # map fst (cfg_cas c)). active_ca d c p = config_gen c p)) \<and>
      is_initialized w' \<and> init e2 n2 raw2 c2 fr2 w' = (w', None, Inl Already_initialized)) \<and>
   (\<forall>x. r = Inl x \<longrightarrow> x \<noteq> Init_failed \<longrightarrow> w' = w \<and> shown = None) \<and>
   (w_dir w \<noteq> Dir_absent \<longrightarrow> w_dir w \<noteq> Dir_empty \<longrightarrow> w' = w \<and> r \<noteq> Inr ()) \<and>
   (shown \<noteq> None \<longrightarrow> shown = Some raw \<and> any_internal c \<and> sec_passphrase (e_secrets e) = [])"
proof -
  assume run: "init e n raw c fr w = (w', shown, r)"
  have ok: "(\<exists>d. w_db w' = Some d \<and> load_config (Some (db_snapshot d)) = Inr (Some (c\<lparr>cfg_unknown := []\<rparr>)) \<and>
         (\<forall>p \<in> set (''root'' # map fst (cfg_cas c)). active_ca d c p = config_gen c p)) \<and>
      is_initialized w' \<and> init e2 n2 raw2 c2 fr2 w' = (w', None, Inl Already_initialized)"
    if r: "r = Inr ()" and c: "config_ok c" "config_text_ok c" "cfg_cas c \<noteq> []"
      and fresh: "inj_on (\<lambda>i. f_fp (fr i)) {..length (cfg_cas c)}"
  proof -
    from run r obtain e' where "create e' n c fr (w\<lparr>w_dir := Dir_empty\<rparr>) = (w', Inr ())"
      using init_cases [OF run] by blast
    from create_Inr [OF this fresh] obtain p root key ms d where ready: "ceremony_ready c root ms" and d: "w_db w' = Some d"
        and st: "run_statements n (create_statements c p root key ms) fresh_db = (d, True)" by blast
    from create_statements_full [OF c ready st] d show ?thesis by (auto simp: is_initialized_def init_def)
  qed
  have rest: "(\<forall>x. r = Inl x \<longrightarrow> x \<noteq> Init_failed \<longrightarrow> w' = w \<and> shown = None) \<and>
     (w_dir w \<noteq> Dir_absent \<longrightarrow> w_dir w \<noteq> Dir_empty \<longrightarrow> w' = w \<and> r \<noteq> Inr ()) \<and>
     (shown \<noteq> None \<longrightarrow> shown = Some raw \<and> any_internal c \<and> sec_passphrase (e_secrets e) = [])"
    using init_cases [OF run] by (auto simp: init_passphrase_def split: if_split_asm)
  from ok rest show ?thesis by blast
qed

definition sample_empty_world :: world where
  "sample_empty_world = \<lparr>w_dir = Dir_absent, w_db = None, w_files = Map.empty, w_tokens = []\<rparr>"

definition sample_fresh_of :: fresh_of where
  "sample_fresh_of i = \<lparr>f_serial = show_nat i, f_fp = ''fp-'' @ show_nat i, f_pub = ''key-'' @ show_nat i, f_kid = ''KID'' @ show_nat i\<rparr>"

definition sample_init :: "world \<times> string option \<times> (ceremony_error + unit)" where
  "sample_init = init (sample_env 2000) 100 ''raw'' sample_config sample_fresh_of sample_empty_world"

lemma sample_init_ok: "snd (snd sample_init) = Inr ()"
  by code_simp

theorem init_ceremony_witness:
  "is_initialized (fst sample_init) \<and>
   (\<exists>d. w_db (fst sample_init) = Some d \<and> active_ca d sample_config ''tls'' = config_gen sample_config ''tls'')"
proof -
  obtain w' shown where run: "init (sample_env 2000) 100 ''raw'' sample_config sample_fresh_of sample_empty_world = (w', shown, Inr ())"
    using sample_init_ok by (metis prod.collapse sample_init_def)
  then have w': "fst sample_init = w'" by (simp add: sample_init_def)
  have "length (cfg_cas sample_config) = 1" by code_simp
  moreover have "inj_on (\<lambda>i. f_fp (sample_fresh_of i)) {..1}"
    by (auto simp: inj_on_def sample_fresh_of_def show_nat_inj)
  moreover have "''tls'' \<in> set (''root'' # map fst (cfg_cas sample_config))" using sample_config_ca by auto
  ultimately show ?thesis
    using init_ceremony [OF run] sample_config_ok sample_text_ok unfolding w' by metis
qed

section \<open>A new generation\<close>

lemma mint_keys_Inr:
  "mint_keys c s slots store rc ca rsl nsl fr = (slots', Inr (rk, key)) \<Longrightarrow>
   \<exists>slots1 tokens. root_key_of c s slots store rc rsl (f_pub (fr 0)) = Inr (rk, slots1, tokens)"
  by (auto simp: mint_keys_def split: sum.split_asm prod.split_asm)

lemma mint_Inr:
  assumes "mint_ca_generation e c fr ca root next d w = (w', Inr (cert, key))"
  shows "\<exists>rc rk slots. load_ca_cert w (gn_slug root) = Inr (Some rc) \<and>
     \<not> outlives_issuer rc (e_clock e 0) (ca_valid_days ca * 86400) \<and>
     mint_keys c (e_secrets e) (w_tokens w) (db_store d) rc ca (gn_slug root) (gn_slug next) fr = (slots, Inr (Some rk, key)) \<and>
     cert = signing_certificate c ca rc rk (gn_slug root) (fr 1) key (gn_cn next) (e_clock e 1) \<and>
     is_CA_cert rc \<and> is_CA_cert cert \<and>
     write_ca_artifacts e 2 (gn_slug next) cert key crl_next_update_days (w\<lparr>w_tokens := slots\<rparr>) = (w', True)"
  using assms unfolding mint_ca_generation_def Let_def
  by (auto split: sum.split_asm option.split_asm if_split_asm prod.split_asm bool.split_asm)

definition slug_files :: "string \<Rightarrow> location set" where
  "slug_files sl = {ca_file sl ''.pem'', ca_file sl ''.crt'', ca_file sl ''.crl''}"

lemma mint_frame:
  assumes "mint_ca_generation e c fr ca root next d w = (w', r)"
  shows "w_db w' = w_db w \<and> w_dir w' = w_dir w \<and>
     (\<forall>loc. loc \<notin> slug_files (gn_slug next) \<longrightarrow> w_files w' loc = w_files w loc)"
  using assms unfolding mint_ca_generation_def Let_def
  by (auto simp: slug_files_def split: sum.split_asm option.split_asm if_split_asm prod.split_asm bool.split_asm
      dest!: write_ca_artifacts_cases)

text \<open>C16. The root key that signs a new generation: with an internal root it is the key the store holds
  for the root certificate. With the root on a token it is the keypair under the root's label; if the token
  has none, a fresh one is made and signs, although no verifier will accept what it signs: the published
  root certificate carries another key.\<close>

theorem mint_root_key:
  "mint_ca_generation e c fr ca root next d w = (w', Inr (cert, key)) \<Longrightarrow>
   load_ca_cert w (gn_slug root) = Inr (Some rc) \<Longrightarrow>
   x_issuer cert = x_subject rc \<and> x_pub cert = key \<and>
   (ca_key_backend (cfg_root c) \<noteq> ''pkcs11'' \<longrightarrow>
      find_key (sec_passphrase (e_secrets e)) rc (db_store d) = Key (x_signer cert)) \<and>
   (ca_key_backend (cfg_root c) = ''pkcs11'' \<longrightarrow>
      (\<exists>s. open_session (w_tokens w) (ca_token_label (cfg_root c)) (sec_root_pin (e_secrets e)) True = Inr s \<and>
         (\<forall>k. find_keypair (w_tokens w ! se_slot s) (gn_slug root) (ca_curve (cfg_root c)) = Inr (Some k) \<longrightarrow> x_signer cert = k) \<and>
         (find_keypair (w_tokens w ! se_slot s) (gn_slug root) (ca_curve (cfg_root c)) = Inr None \<longrightarrow>
            x_signer cert = f_pub (fr 0))))"
proof -
  assume run: "mint_ca_generation e c fr ca root next d w = (w', Inr (cert, key))"
    and rc: "load_ca_cert w (gn_slug root) = Inr (Some rc)"
  from mint_Inr [OF run] rc obtain rk slots where
      keys: "mint_keys c (e_secrets e) (w_tokens w) (db_store d) rc ca (gn_slug root) (gn_slug next) fr = (slots, Inr (Some rk, key))"
      and cert: "cert = signing_certificate c ca rc rk (gn_slug root) (fr 1) key (gn_cn next) (e_clock e 1)" by auto
  from mint_keys_Inr [OF keys] obtain slots1 tokens where
      root: "root_key_of c (e_secrets e) (w_tokens w) (db_store d) rc (gn_slug root) (f_pub (fr 0)) = Inr (Some rk, slots1, tokens)"
    by blast
  have sp: "sp_backend (root_spec c) = ca_key_backend (cfg_root c)" "sp_label (root_spec c) = ca_token_label (cfg_root c)"
      "sp_curve (root_spec c) = ca_curve (cfg_root c)" "sp_root (root_spec c)"
    by (simp_all add: root_spec_def)
  have signer: "x_signer cert = rk" "x_pub cert = key" "x_issuer cert = x_subject rc" by (simp_all add: cert signing_certificate_def)
  have token: "\<exists>s. open_session (w_tokens w) (ca_token_label (cfg_root c)) (sec_root_pin (e_secrets e)) True = Inr s \<and>
         (\<forall>k. find_keypair (w_tokens w ! se_slot s) (gn_slug root) (ca_curve (cfg_root c)) = Inr (Some k) \<longrightarrow> rk = k) \<and>
         (find_keypair (w_tokens w ! se_slot s) (gn_slug root) (ca_curve (cfg_root c)) = Inr None \<longrightarrow> rk = f_pub (fr 0))"
    if p11: "ca_key_backend (cfg_root c) = ''pkcs11''"
  proof -
    from root p11 obtain t s tokens' where
        "open_token c (e_secrets e) (w_tokens w) [] (root_spec c) True = Inr (s, tokens')"
        and key: "token_ca_key (se_read_write s) (w_tokens w ! se_slot s) (gn_slug root) (ca_curve (cfg_root c)) (f_pub (fr 0)) = Inr (rk, t)"
      by (auto simp: root_key_of_def sp adopt_or_generate_def rbind_Inr p11_res_Inr)
    then have "open_session (w_tokens w) (ca_token_label (cfg_root c)) (sec_root_pin (e_secrets e)) True = Inr s"
      using p11 by (auto simp: open_token_def sp ca_secret_def rbind_Inr)
    moreover have "(\<forall>k. find_keypair (w_tokens w ! se_slot s) (gn_slug root) (ca_curve (cfg_root c)) = Inr (Some k) \<longrightarrow> rk = k) \<and>
         (find_keypair (w_tokens w ! se_slot s) (gn_slug root) (ca_curve (cfg_root c)) = Inr None \<longrightarrow> rk = f_pub (fr 0))"
      using key by (auto simp: token_ca_key_def generate_keypair_def split: if_splits)
    ultimately show ?thesis by blast
  qed
  have store: "find_key (sec_passphrase (e_secrets e)) rc (db_store d) = Key rk" if "ca_key_backend (cfg_root c) \<noteq> ''pkcs11''"
    using root that by (auto simp: root_key_of_def sp split: key_result.split_asm)
  from token store signer show ?thesis by simp
qed


definition sample_hsm_config :: config where
  "sample_hsm_config = sample_config\<lparr>cfg_root := (cfg_root sample_config)\<lparr>ca_key_backend := ''pkcs11'', ca_token_label := ''hsm''\<rparr>,
     cfg_pkcs11 := \<lparr>p11_module = ''m.so'', p11_token_label = []\<rparr>\<rparr>"

definition sample_hsm_world :: world where
  "sample_hsm_world = sample_pki_world\<lparr>w_tokens := [sample_token]\<rparr>"

definition sample_hsm_env :: env where
  "sample_hsm_env = (sample_env 2000)\<lparr>e_secrets := \<lparr>sec_passphrase = ''pw'', sec_pin = ''1234'', sec_root_pin = ''1234''\<rparr>\<rparr>"

definition sample_mint :: "world \<times> (ceremony_error + certificate \<times> string)" where
  "sample_mint = mint_ca_generation sample_hsm_env sample_hsm_config sample_fresh_of sample_tls_ca
     \<lparr>gn_purpose = ''root'', gn_gen = 1, gn_cn = ''Root E1'', gn_slug = ''root-e1''\<rparr>
     \<lparr>gn_purpose = ''tls'', gn_gen = 3, gn_cn = ''CA E3'', gn_slug = ''ca-e3''\<rparr> sample_pki_db sample_hsm_world"

theorem mint_root_key_witness:
  "\<exists>cert key. snd sample_mint = Inr (cert, key) \<and> x_signer cert = ''key-0'' \<and> x_pub sample_root_cert = ''key-root''"
proof -
  have "\<exists>x. snd sample_mint = Inr x" by (rule is_okI) code_simp
  then obtain cert key where ok: "snd sample_mint = Inr (cert, key)" by fastforce
  have rc: "load_ca_cert sample_hsm_world ''root-e1'' = Inr (Some sample_root_cert)"
    by (simp add: load_ca_cert_def sample_hsm_world_def sample_pki_world_def)
  have conf: "ca_key_backend (cfg_root sample_hsm_config) = ''pkcs11''" "ca_token_label (cfg_root sample_hsm_config) = ''hsm''"
      "ca_curve (cfg_root sample_hsm_config) = ''secp384r1''"
    by (simp_all add: sample_hsm_config_def sample_config_value)
  have env: "sec_root_pin (e_secrets sample_hsm_env) = ''1234''" by (simp add: sample_hsm_env_def)
  have ses: "open_session (w_tokens sample_hsm_world) ''hsm'' ''1234'' True = Inr \<lparr>se_slot = 0, se_read_write = True\<rparr>"
    by code_simp
  have none: "find_keypair (w_tokens sample_hsm_world ! 0) ''root-e1'' ''secp384r1'' = Inr None" by code_simp
  have run: "mint_ca_generation sample_hsm_env sample_hsm_config sample_fresh_of sample_tls_ca
     \<lparr>gn_purpose = ''root'', gn_gen = 1, gn_cn = ''Root E1'', gn_slug = ''root-e1''\<rparr>
     \<lparr>gn_purpose = ''tls'', gn_gen = 3, gn_cn = ''CA E3'', gn_slug = ''ca-e3''\<rparr> sample_pki_db sample_hsm_world = (fst sample_mint, Inr (cert, key))"
    using ok by (metis prod.collapse sample_mint_def)
  from mint_root_key [OF run, of sample_root_cert] rc conf env ses none
  have "x_signer cert = f_pub (sample_fresh_of 0)" by simp
  also have "f_pub (sample_fresh_of 0) = ''key-0''" by code_simp
  finally show ?thesis using ok by (simp add: sample_root_cert_def)
qed

section \<open>renew signing-ca\<close>

lemma renew_Inr:
  assumes "renew_signing_ca e c fr purpose new_cn w = (w', Inr cn)"
  shows "\<exists>ca next cert key w1. renew_precheck e c fr purpose new_cn w = (w1, Inr (ca, next, cert, key)) \<and>
     renew_locked e ca next cert key w1 = Inr w' \<and> cn = gn_cn next"
  using assms unfolding renew_signing_ca_def by (auto split: sum.split_asm prod.split_asm)

lemma renew_precheck_Inr:
  assumes "renew_precheck e c fr purpose new_cn w = (w1, Inr (ca, next, cert, key))" and "w_db w = Some d0"
  shows "config_ca c purpose = Some ca \<and>
     next = next_generation ca purpose (gn_gen (active_ca (ensure_ca_index c d0) c purpose)) new_cn \<and>
     \<not> cn_is_taken (ensure_ca_index c d0) (active_ca (ensure_ca_index c d0) c ''root'') new_cn \<and>
     mint_ca_generation e c fr ca (active_ca (ensure_ca_index c d0) c ''root'') next (ensure_ca_index c d0)
       (w\<lparr>w_db := Some (ensure_ca_index c d0)\<rparr>) = (w1, Inr (cert, key))"
  using assms unfolding renew_precheck_def Let_def
  by (auto split: sum.split_asm option.split_asm if_split_asm prod.split_asm)

lemma insert_gen_Inr:
  "insert_gen g gs = Inr gs' \<Longrightarrow>
   gs' = gs @ [\<lparr>g_kind = ''signing'', g_purpose = gn_purpose g, g_gen = gn_gen g, g_cn = gn_cn g,
               g_slug = gn_slug g, g_status = ''active''\<rparr>] \<and>
   (\<forall>h \<in> set gs. \<not> (g_kind h = ''signing'' \<and> g_purpose h = gn_purpose g \<and> g_gen h = gn_gen g))"
  by (auto simp: insert_gen_def list_ex_iff split: if_split_asm)

lemma renew_locked_Inr:
  assumes "renew_locked e ca next cert key w = Inr w'" and "w_db w = Some d0"
  shows "\<exists>gs gs'. db_ca_index d0 = Some gs \<and> insert_gen next (retire (gn_purpose next) gs) = Inr gs' \<and>
     w' = w\<lparr>w_db := Some ((record_ca (sec_passphrase (e_secrets e)) ca (gn_purpose next) cert key d0)\<lparr>db_ca_index := Some gs'\<rparr>)\<rparr>"
  using assms unfolding renew_locked_def Let_def
  by (auto simp: rbind_Inr record_ca_def Let_def split: if_split_asm sum.split_asm)

definition active_gens :: "gen_row list \<Rightarrow> string \<Rightarrow> gen_row list" where
  "active_gens gs purpose = filter (\<lambda>g. g_purpose g = purpose \<and> g_status g = ''active'') gs"

lemma active_gens_append [simp]: "active_gens (gs @ hs) p = active_gens gs p @ active_gens hs p"
  by (simp add: active_gens_def)

lemma active_gens_retire [simp]: "active_gens (retire p gs) q = (if q = p then [] else active_gens gs q)"
  by (induction gs) (auto simp: active_gens_def retire_def)

lemma active_ca_gens:
  "active_ca d c p = (case db_ca_index d of None \<Rightarrow> config_gen c p
     | Some gs \<Rightarrow> (case top_by g_gen (active_gens gs p) of None \<Rightarrow> config_gen c p | Some g \<Rightarrow> gen_of_row g))"
  unfolding active_ca_def active_gens_def ..

lemma active_gens_Cons: "active_gens (g # gs) p = (if g_purpose g = p \<and> g_status g = ''active'' then g # active_gens gs p else active_gens gs p)"
  by (simp add: active_gens_def)

lemma active_gens_Nil [simp]: "active_gens [] p = []"
  by (simp add: active_gens_def)

lemma top_by_single [simp]: "top_by f [x] = Some x"
  by (simp add: top_by_def)

lemma ensure_ca_index_Some: "\<exists>gs. db_ca_index (ensure_ca_index c d) = Some gs"
  by (simp add: ensure_ca_index_def)

lemma record_ca_tables [simp]:
  "db_ca_index (record_ca pw ca p cert key d) = db_ca_index d" "db_snapshot (record_ca pw ca p cert key d) = db_snapshot d"
  "db_enrollment (record_ca pw ca p cert key d) = db_enrollment d"
  by (simp_all add: record_ca_def Let_def)

lemma record_ca_row: "cert_row_of cert ''signing'' p ''active'' 0 \<in> set (index_rows (record_ca pw ca p cert key d))"
  by (auto simp: record_ca_def Let_def index_rows_def ensure_cert_index_def index_cert_def split: option.split)

lemma record_ca_key:
  "ca_key_backend ca = ''internal'' \<Longrightarrow> find_key p' cert (db_store (record_ca pw ca p cert key d)) = (if p' = pw then Key key else Key_refused)"
  by (simp add: record_ca_def Let_def ks.ceremony_key)

definition new_row :: "ca_gen \<Rightarrow> gen_row" where
  "new_row nx = \<lparr>g_kind = ''signing'', g_purpose = gn_purpose nx, g_gen = gn_gen nx, g_cn = gn_cn nx,
     g_slug = gn_slug nx, g_status = ''active''\<rparr>"

lemma new_row_simps [simp]:
  "g_purpose (new_row nx) = gn_purpose nx" "g_gen (new_row nx) = gn_gen nx" "g_slug (new_row nx) = gn_slug nx"
  "g_status (new_row nx) = ''active''"
  by (simp_all add: new_row_def)

lemma retire_keys:
  "(\<exists>h \<in> set (retire p gs). g_kind h = k \<and> g_purpose h = q \<and> g_gen h = n) \<longleftrightarrow>
   (\<exists>h \<in> set gs. g_kind h = k \<and> g_purpose h = q \<and> g_gen h = n)"
  by (induction gs) (auto simp: retire_def)

text \<open>The texts of a generation survive the round through the table.\<close>

lemma next_generation_row:
  assumes "config_ok c" and "config_ca c purpose = Some ca" and "nul_free cn"
  shows "gen_of_row (new_row (next_generation ca purpose n cn)) = next_generation ca purpose n cn"
proof -
  from assms(2) have "(purpose, ca) \<in> set (cfg_cas c)" by (simp add: config_ca_def map_of_SomeD)
  from config_ok_ca [OF assms(1) this] have "valid_slug purpose" "ca_fields_ok ca" by (simp_all add: issuing_ok_def)
  then have "nul_free purpose" "nul_free (ca_slug_prefix ca)"
    using ca_fields_nul_free [of ca] by (simp_all add: plain_nul_free plain_slug)
  moreover have "nul_free (show_nat n)" for n
    using show_int_plain [of "int n"] by (simp add: show_int_def plain_nul_free)
  ultimately show ?thesis using assms(3) by (simp add: gen_of_row_def new_row_def next_generation_def)
qed

text \<open>What the locked half of a renewal does to the tables.\<close>

lemma renew_locked_effect:
  assumes "renew_locked e ca nx cert key w = Inr w'" and "w_db w = Some d" and "gen_of_row (new_row nx) = nx"
  shows "\<exists>gs d'. db_ca_index d = Some gs \<and> w' = w\<lparr>w_db := Some d'\<rparr> \<and>
     d' = (record_ca (sec_passphrase (e_secrets e)) ca (gn_purpose nx) cert key d)
            \<lparr>db_ca_index := Some (retire (gn_purpose nx) gs @ [new_row nx])\<rparr> \<and>
     (\<forall>h \<in> set gs. \<not> (g_kind h = ''signing'' \<and> g_purpose h = gn_purpose nx \<and> g_gen h = gn_gen nx)) \<and>
     active_ca d' c (gn_purpose nx) = nx \<and> (\<forall>q. q \<noteq> gn_purpose nx \<longrightarrow> active_ca d' c q = active_ca d c q)"
proof -
  from renew_locked_Inr [OF assms(1,2)] obtain gs gs' where gs: "db_ca_index d = Some gs"
      and ins: "insert_gen nx (retire (gn_purpose nx) gs) = Inr gs'"
      and w': "w' = w\<lparr>w_db := Some ((record_ca (sec_passphrase (e_secrets e)) ca (gn_purpose nx) cert key d)\<lparr>db_ca_index := Some gs'\<rparr>)\<rparr>"
    by blast
  from insert_gen_Inr [OF ins] have gs': "gs' = retire (gn_purpose nx) gs @ [new_row nx]"
    and none: "\<forall>h \<in> set (retire (gn_purpose nx) gs). \<not> (g_kind h = ''signing'' \<and> g_purpose h = gn_purpose nx \<and> g_gen h = gn_gen nx)"
    by (simp_all add: new_row_def)
  have "\<forall>h \<in> set gs. \<not> (g_kind h = ''signing'' \<and> g_purpose h = gn_purpose nx \<and> g_gen h = gn_gen nx)"
    using none retire_keys [of "gn_purpose nx" gs "''signing''" "gn_purpose nx" "gn_gen nx"] by blast
  with gs w' gs' assms(3) show ?thesis
    by (intro exI [of _ gs] exI [of _ "(record_ca (sec_passphrase (e_secrets e)) ca (gn_purpose nx) cert key d)
        \<lparr>db_ca_index := Some gs'\<rparr>"]) (simp add: active_ca_gens active_gens_Cons)
qed

text \<open>C10. A renewal rotates one CA and leaves the others alone. On success the new generation is the only
  active one of its purpose, numbered after the incumbent, under the new name and the numbered artifact
  base name; every generation that was active for the purpose is retiring and no other row is touched, so
  every other purpose keeps its active generation; the certificate is on record, its key is held for the
  passphrase of the ceremony, and the certificate and an empty first list are published under the new base
  name, beside which no file changes.\<close>

theorem renew_rotates:
  "renew_signing_ca e c fr purpose new_cn w = (w', Inr cn) \<Longrightarrow> w_db w = Some d0 \<Longrightarrow> config_ok c \<Longrightarrow> nul_free new_cn \<Longrightarrow>
   \<exists>d' ca cert key crl gs row. w_db w' = Some d' \<and> cn = new_cn \<and> config_ca c purpose = Some ca \<and>
     db_ca_index (ensure_ca_index c d0) = Some gs \<and> db_ca_index d' = Some (retire purpose gs @ [row]) \<and>
     active_gens (retire purpose gs @ [row]) purpose = [row] \<and>
     active_ca d' c purpose = next_generation ca purpose (gn_gen (active_ca (ensure_ca_index c d0) c purpose)) new_cn \<and>
     (\<forall>q. q \<noteq> purpose \<longrightarrow> active_ca d' c q = active_ca (ensure_ca_index c d0) c q) \<and>
     cert_row_of cert ''signing'' purpose ''active'' 0 \<in> set (index_rows d') \<and> cert_cn cert = new_cn \<and> x_pub cert = key \<and>
     (ca_key_backend ca = ''internal'' \<longrightarrow> find_key (sec_passphrase (e_secrets e)) cert (db_store d') = Key key) \<and>
     load_ca_cert w' (g_slug row) = Inr (Some cert) \<and> load_crl w' (g_slug row) = Inr crl \<and> crl_revoked crl = [] \<and> crl_number crl = 1 \<and>
     (\<forall>loc. loc \<notin> slug_files (g_slug row) \<longrightarrow> w_files w' loc = w_files w loc)"
proof -
  assume run: "renew_signing_ca e c fr purpose new_cn w = (w', Inr cn)" and d0: "w_db w = Some d0"
    and ok: "config_ok c" and nf: "nul_free new_cn"
  let ?d = "ensure_ca_index c d0"
  from renew_Inr [OF run] obtain ca nx cert key w1 where pre: "renew_precheck e c fr purpose new_cn w = (w1, Inr (ca, nx, cert, key))"
      and lock: "renew_locked e ca nx cert key w1 = Inr w'" and cn: "cn = gn_cn nx" by blast
  from renew_precheck_Inr [OF pre d0] have ca: "config_ca c purpose = Some ca"
    and nxt: "nx = next_generation ca purpose (gn_gen (active_ca ?d c purpose)) new_cn"
    and mint: "mint_ca_generation e c fr ca (active_ca ?d c ''root'') nx ?d (w\<lparr>w_db := Some ?d\<rparr>) = (w1, Inr (cert, key))"
    by blast+
  note frame = mint_frame [OF mint]
  from mint_Inr [OF mint] obtain rc rk slots where
      cert: "cert = signing_certificate c ca rc rk (gn_slug (active_ca ?d c ''root'')) (fr 1) key (gn_cn nx) (e_clock e 1)"
      and art: "write_ca_artifacts e 2 (gn_slug nx) cert key crl_next_update_days (w\<lparr>w_db := Some ?d, w_tokens := slots\<rparr>) = (w1, True)"
    by auto
  from write_ca_artifacts_cases [OF art] have pub: "load_ca_cert w1 (gn_slug nx) = Inr (Some cert)"
      "load_crl w1 (gn_slug nx) = Inr (make_crl cert key [] 1 (e_clock e (Suc 2)) (crl_next_update cert (e_clock e 2) crl_next_update_days))"
    by simp_all
  from frame have w1: "w_db w1 = Some ?d" by simp
  have np: "gn_purpose nx = purpose" "gn_cn nx = new_cn" by (simp_all add: nxt next_generation_def)
  from renew_locked_effect [OF lock w1 next_generation_row [OF ok ca nf, of "gn_gen (active_ca ?d c purpose)", folded nxt], of c]
  obtain gs d' where gs: "db_ca_index ?d = Some gs" and w': "w' = w1\<lparr>w_db := Some d'\<rparr>"
      and d': "d' = (record_ca (sec_passphrase (e_secrets e)) ca purpose cert key ?d)\<lparr>db_ca_index := Some (retire purpose gs @ [new_row nx])\<rparr>"
      and act: "active_ca d' c purpose = nx" and others: "\<forall>q. q \<noteq> purpose \<longrightarrow> active_ca d' c q = active_ca ?d c q"
    by (auto simp: np)
  have w'd: "w_db w' = Some d'" "w_files w' = w_files w1" by (simp_all add: w')
  have only: "active_gens (retire purpose gs @ [new_row nx]) purpose = [new_row nx]" by (simp add: active_gens_Cons np)
  have "load_ca_cert w' (g_slug (new_row nx)) = Inr (Some cert)" and
    crl: "load_crl w' (g_slug (new_row nx)) = Inr (make_crl cert key [] 1 (e_clock e (Suc 2)) (crl_next_update cert (e_clock e 2) crl_next_update_days))"
    using pub by (simp_all add: load_ca_cert_def load_crl_def w'd)
  moreover have "\<forall>loc. loc \<notin> slug_files (g_slug (new_row nx)) \<longrightarrow> w_files w' loc = w_files w loc"
    using frame by (simp add: w'd)
  moreover have "cert_row_of cert ''signing'' purpose ''active'' 0 \<in> set (index_rows d')"
    using record_ca_row [of cert purpose _ ca key ?d] by (simp add: d' index_rows_def)
  moreover have "ca_key_backend ca = ''internal'' \<longrightarrow> find_key (sec_passphrase (e_secrets e)) cert (db_store d') = Key key"
    by (simp add: d' record_ca_key)
  moreover have "cert_cn cert = new_cn" "x_pub cert = key" by (simp_all add: cert np) (simp add: signing_certificate_def)
  moreover have "crl_revoked (make_crl cert key [] 1 (e_clock e (Suc 2)) (crl_next_update cert (e_clock e 2) crl_next_update_days)) = []"
      "crl_number (make_crl cert key [] 1 (e_clock e (Suc 2)) (crl_next_update cert (e_clock e 2) crl_next_update_days)) = 1"
    by simp_all
  moreover have "db_ca_index d' = Some (retire purpose gs @ [new_row nx])" by (simp add: d')
  moreover have "cn = new_cn" by (simp add: cn np)
  ultimately show ?thesis using w'd(1) ca gs only act [unfolded nxt] others
    by (intro exI [of _ d'] exI [of _ ca] exI [of _ cert] exI [of _ key] exI [of _ gs] exI [of _ "new_row nx"]
        exI [of _ "make_crl cert key [] 1 (e_clock e (Suc 2)) (crl_next_update cert (e_clock e 2) crl_next_update_days)"] conjI)
qed

definition sample_renew :: "world \<times> (ceremony_error + string)" where
  "sample_renew = renew_signing_ca (sample_env 2000) sample_config sample_fresh_of ''tls'' ''CA E3'' sample_pki_world"

theorem renew_rotates_witness:
  "\<exists>d'. snd sample_renew = Inr ''CA E3'' \<and> w_db (fst sample_renew) = Some d' \<and>
     active_ca d' sample_config ''tls'' = \<lparr>gn_purpose = ''tls'', gn_gen = 3, gn_cn = ''CA E3'', gn_slug = ''ca-e3''\<rparr>"
proof -
  have ok: "snd sample_renew = Inr ''CA E3''" by code_simp
  then have run: "renew_signing_ca (sample_env 2000) sample_config sample_fresh_of ''tls'' ''CA E3'' sample_pki_world =
      (fst sample_renew, Inr ''CA E3'')" by (metis prod.collapse sample_renew_def)
  have db: "w_db sample_pki_world = Some sample_pki_db" by (simp add: sample_pki_world_def)
  have "gn_gen (active_ca (ensure_ca_index sample_config sample_pki_db) sample_config ''tls'') = 2" by code_simp
  moreover have "config_ca sample_config ''tls'' = Some sample_tls_ca" by (simp add: config_ca_def sample_config_value)
  moreover have "next_generation sample_tls_ca ''tls'' 2 ''CA E3'' =
      \<lparr>gn_purpose = ''tls'', gn_gen = 3, gn_cn = ''CA E3'', gn_slug = ''ca-e3''\<rparr>" by code_simp
  moreover have "nul_free ''CA E3''" by (simp add: nul_free_def)
  ultimately show ?thesis using ok renew_rotates [OF run db sample_config_ok] by auto
qed

section \<open>add signing-ca\<close>

lemma add_checks_Inr:
  "add_checks e c w purpose = Inr (ca, d) \<Longrightarrow>
   \<exists>d0. w_db w = Some d0 \<and> config_ca c purpose = Some ca \<and> purpose \<noteq> [] \<and>
     d = (ensure_ca_index c d0)\<lparr>db_snapshot := ensure_purpose_table (db_snapshot d0)\<rparr>"
  unfolding add_checks_def Let_def
  by (auto simp: rbind_Inr split: option.split_asm if_split_asm)

lemma add_precheck_Inr:
  assumes "add_precheck e c fr purpose w = (w1, Inr (ca, nx, cert, key))"
  shows "\<exists>d. add_checks e c w purpose = Inr (ca, d) \<and> w_db w1 = Some d \<and>
     nx = \<lparr>gn_purpose = purpose, gn_gen = 1, gn_cn = ca_cn ca, gn_slug = ca_slug ca\<rparr> \<and>
     \<not> cn_is_taken d (active_ca d c ''root'') (ca_cn ca) \<and>
     mint_ca_generation e c fr ca (active_ca d c ''root'') nx d (w\<lparr>w_db := Some d\<rparr>) = (w1, Inr (cert, key))"
proof -
  from assms obtain ca' d where chk: "add_checks e c w purpose = Inr (ca', d)"
    by (auto simp: add_precheck_def split: sum.split_asm)
  with assms have mint: "mint_ca_generation e c fr ca' (active_ca d c ''root'')
      \<lparr>gn_purpose = purpose, gn_gen = 1, gn_cn = ca_cn ca', gn_slug = ca_slug ca'\<rparr> d (w\<lparr>w_db := Some d\<rparr>) = (w1, Inr (cert, key))"
    and "ca' = ca" "nx = \<lparr>gn_purpose = purpose, gn_gen = 1, gn_cn = ca_cn ca', gn_slug = ca_slug ca'\<rparr>"
      "\<not> cn_is_taken d (active_ca d c ''root'') (ca_cn ca')"
    unfolding add_precheck_def Let_def by (auto split: if_split_asm sum.split_asm prod.split_asm)
  with chk mint_frame [OF mint] show ?thesis by auto
qed

lemma add_locked_Inr:
  assumes "add_locked e ca nx cert key w = Inr w'" and "w_db w = Some d"
  shows "\<exists>s gs gs'. lock_purpose_row ca (db_snapshot d) = Inr s \<and> db_ca_index d = Some gs \<and> insert_gen nx gs = Inr gs' \<and>
     w' = w\<lparr>w_db := Some ((record_ca (sec_passphrase (e_secrets e)) ca (gn_purpose nx) cert key d)\<lparr>db_snapshot := s, db_ca_index := Some gs'\<rparr>)\<rparr>"
  using assms unfolding add_locked_def Let_def
  by (auto simp: rbind_Inr split: if_split_asm sum.split_asm)

lemma add_Inr:
  assumes "add_signing_ca e c fr purpose w = (w', Inr cn)"
  shows "\<exists>ca nx cert key w1. add_precheck e c fr purpose w = (w1, Inr (ca, nx, cert, key)) \<and>
     add_locked e ca nx cert key w1 = Inr w' \<and> cn = gn_cn nx"
  using assms unfolding add_signing_ca_def by (auto split: sum.split_asm prod.split_asm)

lemma fold_backfill_mono: "set gs \<subseteq> set (foldl (backfill c certs) gs ps)"
proof (induction ps arbitrary: gs)
  case (Cons p ps)
  have "set gs \<subseteq> set (backfill c certs gs p)" by (auto simp: backfill_def split: option.split)
  with Cons.IH [of "backfill c certs gs p"] show ?case by (simp add: order_trans)
qed simp

lemma ensure_ca_index_mono:
  "db_ca_index d = Some gs \<Longrightarrow> \<exists>gs'. db_ca_index (ensure_ca_index c d) = Some gs' \<and> set gs \<subseteq> set gs'"
  using fold_backfill_mono by (simp add: ensure_ca_index_def del: foldl_Cons)

text \<open>A purpose that already has its first generation cannot be added.\<close>

definition has_first :: "db \<Rightarrow> string \<Rightarrow> bool" where
  "has_first d purpose \<longleftrightarrow> (\<exists>gs. db_ca_index d = Some gs \<and>
     (\<exists>g \<in> set gs. g_kind g = ''signing'' \<and> g_purpose g = purpose \<and> g_gen g = 1))"

lemma has_first_ensure: "has_first d p \<Longrightarrow> has_first (ensure_ca_index c d) p"
proof -
  assume "has_first d p"
  then obtain gs g where gs: "db_ca_index d = Some gs" and g: "g \<in> set gs" "g_kind g = ''signing''" "g_purpose g = p" "g_gen g = 1"
    unfolding has_first_def by blast
  from ensure_ca_index_mono [OF gs] obtain gs' where "db_ca_index (ensure_ca_index c d) = Some gs'" "set gs \<subseteq> set gs'" by blast
  with g show ?thesis unfolding has_first_def by blast
qed

lemma add_needs_room:
  assumes "add_signing_ca e c fr purpose w = (w', Inr cn)" and "w_db w = Some d"
  shows "\<not> has_first (ensure_ca_index c d) purpose"
proof -
  from add_Inr [OF assms(1)] obtain ca nx cert key w1 where pre: "add_precheck e c fr purpose w = (w1, Inr (ca, nx, cert, key))"
    and lock: "add_locked e ca nx cert key w1 = Inr w'" by blast
  from add_precheck_Inr [OF pre] obtain d1 where d1: "add_checks e c w purpose = Inr (ca, d1)" "w_db w1 = Some d1"
    and nx: "gn_purpose nx = purpose" "gn_gen nx = 1" by auto
  from add_checks_Inr [OF d1(1)] assms(2) have gs: "db_ca_index d1 = db_ca_index (ensure_ca_index c d)" by auto
  from add_locked_Inr [OF lock d1(2)] show ?thesis
    using gs nx by (auto simp: has_first_def dest!: insert_gen_Inr)
qed

lemma backfill_takes:
  assumes "\<forall>g \<in> set gs. g_purpose g \<noteq> purpose" and "cert_indexed rs (gn_cn (config_gen c purpose))"
    and "purpose \<in> set ps"
  shows "row_of_gen (config_gen c purpose) \<in> set (foldl (backfill c (Some rs)) gs ps)"
  using assms(1,3)
proof (induction ps arbitrary: gs)
  case Nil
  then show ?case by simp
next
  case (Cons p ps)
  show ?case
  proof (cases "p = purpose")
    case True
    then have "row_of_gen (config_gen c purpose) \<in> set (backfill c (Some rs) gs p)"
      using Cons.prems(1) assms(2) by (auto simp: backfill_def list_ex_iff)
    then show ?thesis using fold_backfill_mono [of "backfill c (Some rs) gs p" c "Some rs" ps] by auto
  next
    case False
    have "\<forall>g \<in> set (backfill c (Some rs) gs p). g_purpose g \<noteq> purpose"
      using Cons.prems(1) False by (auto simp: backfill_def)
    with Cons.IH Cons.prems(2) False show ?thesis by simp
  qed
qed

lemma collect_sections:
  "collect c w now kind h gs = Inr jobs \<Longrightarrow> kind \<noteq> ''root'' \<Longrightarrow> g \<in> set gs \<Longrightarrow> config_ca c (gn_purpose g) \<noteq> None"
  by (induction c w now kind h gs arbitrary: jobs rule: collect.induct)
    (auto simp: rbind_Inr split: option.split_asm sum.split_asm if_split_asm)

lemma refresh_sections:
  assumes "refresh_jobs e c scope w = Inr jobs" and "scope \<noteq> Scope_root" and "w_db w = Some d"
    and "g \<in> set (live_cas d c ''signing'')"
  shows "config_ca c (gn_purpose g) \<noteq> None"
proof -
  from assms(1-3) obtain signs where "collect c w (e_clock e 0) ''signing'' crl_next_update_days (live_cas d c ''signing'') = Inr signs"
    by (auto simp: refresh_jobs_def Let_def rbind_Inr split: option.split_asm)
  from collect_sections [OF this _ assms(4)] show ?thesis by simp
qed

lemma live_row:
  assumes "db_ca_index d = Some gs" and "g \<in> set gs" and "g_kind g = kind" and "g_status g = ''active''"
  shows "gen_of_row g \<in> set (live_cas d c kind)"
proof -
  let ?L = "sort_key (\<lambda>g. (g_purpose g, g_gen g)) (filter (\<lambda>g. g_kind g = kind \<and> (g_status g = ''active'' \<or> g_status g = ''retiring'')) gs)"
  have mem: "g \<in> set ?L" using assms by simp
  then have "?L \<noteq> []" by (metis empty_iff list.set(1))
  then have "live_cas d c kind = map gen_of_row ?L"
    unfolding live_cas_def assms(1) Let_def option.case by (simp only: map_is_Nil_conv not_False_eq_True if_True simp_thms)
  with mem show ?thesis by simp
qed

text \<open>C15. Asking for a new CA under a common name that any generation, a retired or revoked one included,
  already carries is refused, but not without a trace: the store then lists a first generation of the new
  purpose that no ceremony made. From then on that purpose can never be added, under whatever name, and
  no revocation list of the issuing CAs is refreshed any more, because the listed generation belongs to no
  locked section.\<close>

theorem taken_cn_poisons_index:
  "add_signing_ca e c fr purpose w = (w', r) \<Longrightarrow> w_db w = Some d \<Longrightarrow> db_cert_index d = Some rs \<Longrightarrow>
   db_ca_index d = Some gs \<Longrightarrow> \<forall>g \<in> set gs. g_purpose g \<noteq> purpose \<Longrightarrow> config_ca c purpose = Some ca \<Longrightarrow>
   purpose \<notin> {[], ''root''} \<Longrightarrow> nul_free purpose \<Longrightarrow> ceremony_secrets_ok c (e_secrets e) ca = Inr () \<Longrightarrow>
   cert_indexed rs (ca_cn ca) \<Longrightarrow>
   (\<exists>x. r = Inl x) \<and> w_files w' = w_files w \<and>
   (\<exists>d'. w_db w' = Some d' \<and> row_of_gen (config_gen c purpose) \<in> set (the (db_ca_index d'))) \<and>
   (\<forall>e' c' fr' cn. snd (add_signing_ca e' c' fr' purpose w') \<noteq> Inr cn) \<and>
   (\<forall>e' eff scope jobs. config_ca eff purpose = None \<longrightarrow> scope \<noteq> Scope_root \<longrightarrow> refresh_jobs e' eff scope w' \<noteq> Inr jobs)"
proof -
  assume run: "add_signing_ca e c fr purpose w = (w', r)" and d: "w_db w = Some d" "db_cert_index d = Some rs"
    "db_ca_index d = Some gs" and none: "\<forall>g \<in> set gs. g_purpose g \<noteq> purpose" and ca: "config_ca c purpose = Some ca"
    and p: "purpose \<notin> {[], ''root''}" "nul_free purpose" and sec: "ceremony_secrets_ok c (e_secrets e) ca = Inr ()"
    and taken: "cert_indexed rs (ca_cn ca)"
  let ?row = "row_of_gen (config_gen c purpose)"
  have row: "g_kind ?row = ''signing''" "g_gen ?row = 1" "g_cn ?row = ca_cn ca" "g_purpose ?row = purpose"
    using p ca by (simp_all add: row_of_gen_def config_gen_def kind_of_def)
  define d1 where "d1 = (ensure_ca_index c d)\<lparr>db_snapshot := ensure_purpose_table (db_snapshot d)\<rparr>"
  from ca have "purpose \<in> set (''root'' # map fst (cfg_cas c))"
    by (force simp: config_ca_def dest: map_of_SomeD)
  moreover have "cert_indexed rs (gn_cn (config_gen c purpose))" using p ca taken by (simp add: config_gen_def)
  ultimately have "?row \<in> set (foldl (backfill c (Some rs)) gs (''root'' # map fst (cfg_cas c)))"
    using none by (intro backfill_takes) auto
  then obtain gs' where gs': "db_ca_index d1 = Some gs'" "?row \<in> set gs'"
    by (simp add: d1_def ensure_ca_index_def d del: foldl_Cons)
  have chk: "add_checks e c w purpose = Inr (ca, d1)"
    using d p ca sec by (simp add: add_checks_def d1_def)
  have "find (\<lambda>g. g_kind g = ''signing'' \<and> g_cn g = ca_cn ca) gs' \<noteq> None"
    using gs'(2) row by (auto simp: find_None_iff)
  then have "cn_is_taken d1 (active_ca d1 c ''root'') (ca_cn ca)"
    by (auto simp: cn_is_taken_def gen_by_cn_def gs')
  with chk run have w': "w' = w\<lparr>w_db := Some d1\<rparr>" and r: "\<exists>x. r = Inl x"
    by (auto simp: add_signing_ca_def add_precheck_def Let_def split: if_split_asm)
  have first: "has_first d1 purpose" using gs' row unfolding has_first_def by blast
  have stuck: "snd (add_signing_ca e' c' fr' purpose w') \<noteq> Inr cn" for e' c' fr' cn
  proof
    assume "snd (add_signing_ca e' c' fr' purpose w') = Inr cn"
    then have "add_signing_ca e' c' fr' purpose w' = (fst (add_signing_ca e' c' fr' purpose w'), Inr cn)"
      by (metis prod.collapse)
    from add_needs_room [OF this, of d1] has_first_ensure [OF first] show False by (simp add: w')
  qed
  have norefresh: "refresh_jobs e' eff scope w' \<noteq> Inr jobs"
    if "config_ca eff purpose = None" "scope \<noteq> Scope_root" for e' eff scope jobs
  proof
    assume jobs: "refresh_jobs e' eff scope w' = Inr jobs"
    have "gen_of_row ?row \<in> set (live_cas d1 eff ''signing'')"
      by (rule live_row [OF gs']) (simp_all add: row)
    from refresh_sections [OF jobs that(2) _ this] that(1) show False
      using p(2) by (simp add: w' gen_of_row_def row)
  qed
  from r stuck norefresh gs' show ?thesis by (simp add: w')
qed


definition sample_two_cas :: config where
  "sample_two_cas = sample_config\<lparr>cfg_cas := [(''mail'', sample_mail_ca\<lparr>ca_cn := ''CA E2''\<rparr>), (''tls'', sample_tls_ca)]\<rparr>"

definition sample_add :: "world \<times> (ceremony_error + string)" where
  "sample_add = add_signing_ca (sample_env 2000) sample_two_cas sample_fresh_of ''mail'' sample_pki_world"

theorem taken_cn_poisons_index_witness:
  "(\<exists>jobs. refresh_jobs (sample_env 2000) sample_config Scope_all sample_pki_world = Inr jobs) \<and>
   (\<forall>jobs. refresh_jobs (sample_env 2000) sample_config Scope_all (fst sample_add) \<noteq> Inr jobs)"
proof -
  obtain r where run: "add_signing_ca (sample_env 2000) sample_two_cas sample_fresh_of ''mail'' sample_pki_world = (fst sample_add, r)"
    by (metis prod.collapse sample_add_def)
  have ca: "config_ca sample_two_cas ''mail'' = Some (sample_mail_ca\<lparr>ca_cn := ''CA E2''\<rparr>)"
    by (simp add: config_ca_def sample_two_cas_def)
  have db: "w_db sample_pki_world = Some sample_pki_db" by (simp add: sample_pki_world_def)
  have rows: "db_cert_index sample_pki_db = Some (index_rows sample_pki_db)" by (simp add: sample_pki_db_def index_rows_def)
  have gens: "db_ca_index sample_pki_db = Some sample_gens" by (simp add: sample_pki_db_def)
  have none: "\<forall>g \<in> set sample_gens. g_purpose g \<noteq> ''mail''" by (simp add: sample_gens_def)
  have sec: "ceremony_secrets_ok sample_two_cas (e_secrets (sample_env 2000)) (sample_mail_ca\<lparr>ca_cn := ''CA E2''\<rparr>) = Inr ()"
    by code_simp
  have taken: "cert_indexed (index_rows sample_pki_db) (ca_cn (sample_mail_ca\<lparr>ca_cn := ''CA E2''\<rparr>))" by code_simp
  have nf: "nul_free ''mail''" by (simp add: nul_free_def)
  have "config_ca sample_config ''mail'' = None" by (simp add: config_ca_def sample_config_value)
  moreover have "\<exists>jobs. refresh_jobs (sample_env 2000) sample_config Scope_all sample_pki_world = Inr jobs"
    by (rule is_okI) code_simp
  ultimately show ?thesis
    using taken_cn_poisons_index [OF run db rows gens none ca _ nf sec taken] by simp
qed

section \<open>Failed ceremonies\<close>

definition files_but :: "string \<Rightarrow> world \<Rightarrow> world \<Rightarrow> bool" where
  "files_but sl w w' \<longleftrightarrow> (\<forall>loc. loc \<notin> slug_files sl \<longrightarrow> w_files w' loc = w_files w loc)"

lemma files_but_refl [simp]: "files_but sl w (w\<lparr>w_db := x\<rparr>)" "files_but sl w w"
  by (simp_all add: files_but_def)

lemma mint_files_but:
  "mint_ca_generation e c fr ca root nx d (w\<lparr>w_db := Some d\<rparr>) = (w1, r) \<Longrightarrow> w_db w1 = Some d \<and> files_but (gn_slug nx) w w1"
  by (drule mint_frame) (simp add: files_but_def)

text \<open>The slug of the generation a ceremony makes: the first one of a new CA, or the one after the active
  one.\<close>

definition slug_of_next :: "config \<Rightarrow> db \<Rightarrow> string \<Rightarrow> bool \<Rightarrow> string option" where
  "slug_of_next c d purpose adding =
     map_option (\<lambda>ca. if adding then ca_slug ca
         else ca_slug_prefix ca @ show_nat (gn_gen (active_ca (ensure_ca_index c d) c purpose) + 1))
       (config_ca c purpose)"

lemma add_precheck_frame:
  assumes "add_precheck e c fr purpose w = (w1, r)"
  shows "w1 = w \<or> (\<exists>ca d. add_checks e c w purpose = Inr (ca, d) \<and> w_db w1 = Some d \<and> files_but (ca_slug ca) w w1)"
  using assms unfolding add_precheck_def Let_def
  by (auto split: sum.split_asm if_split_asm prod.split_asm dest!: mint_files_but)

lemma add_precheck_slug:
  assumes "add_precheck e c fr purpose w = (w1, r)" and "w_db w = Some d"
  shows "w1 = w \<or> (\<exists>sl. slug_of_next c d purpose True = Some sl \<and> files_but sl w w1 \<and>
    w_db w1 = Some ((ensure_ca_index c d)\<lparr>db_snapshot := ensure_purpose_table (db_snapshot d)\<rparr>))"
  using add_precheck_frame [OF assms(1)] assms(2) by (auto simp: slug_of_next_def dest!: add_checks_Inr)

lemma renew_precheck_frame:
  assumes "renew_precheck e c fr purpose new_cn w = (w1, r)" and "w_db w = Some d"
  shows "w1 = w \<or> (\<exists>sl. slug_of_next c d purpose False = Some sl \<and> files_but sl w w1 \<and> w_db w1 = Some (ensure_ca_index c d))"
  using assms unfolding renew_precheck_def Let_def
  by (auto simp: slug_of_next_def next_generation_def
      split: sum.split_asm if_split_asm prod.split_asm option.split_asm dest!: mint_files_but)

lemma failed_add:
  "add_signing_ca e c fr purpose w = (w', Inl x) \<Longrightarrow> \<exists>r. add_precheck e c fr purpose w = (w', r)"
  by (cases "add_precheck e c fr purpose w") (auto simp: add_signing_ca_def split: sum.split_asm)

lemma failed_renew:
  "renew_signing_ca e c fr purpose new_cn w = (w', Inl x) \<Longrightarrow> \<exists>r. renew_precheck e c fr purpose new_cn w = (w', r)"
  by (cases "renew_precheck e c fr purpose new_cn w") (auto simp: renew_signing_ca_def split: sum.split_asm)

lemma ca_file_parts:
  "ca_file a ext = ca_file b ext' \<Longrightarrow> length ext = length ext' \<Longrightarrow> a = b \<and> ext = ext'"
  by (simp add: ca_file_def)

lemma show_nat_1: "show_nat (Suc 0) = ''1''"
  by code_simp

text \<open>A slug of another CA, whatever the generation, is not the one made.\<close>

lemma other_prefix_slug:
  assumes "config_ok c" and "slug_of_next c d purpose adding = Some sl" and "config_ca c purpose = Some ca"
    and "pre \<in> set (all_prefixes c)" and "pre \<noteq> ca_slug_prefix ca"
  shows "pre @ show_nat n \<noteq> sl"
proof
  assume eq: "pre @ show_nat n = sl"
  from assms(3) have mem: "(purpose, ca) \<in> set (cfg_cas c)" by (simp add: config_ca_def map_of_SomeD)
  then have pre: "ca_slug_prefix ca \<in> set (all_prefixes c)" by (force simp: all_prefixes_def prefixes_of_def)
  from config_ok_ca [OF assms(1) mem] have "ca_slug ca = ca_slug_prefix ca @ show_nat 1"
    by (simp add: issuing_ok_def ca_fields_ok_def show_nat_1)
  with assms(2,3) obtain m where "sl = ca_slug_prefix ca @ show_nat m"
    by (auto simp: slug_of_next_def split: if_splits)
  with config_ok_prefix_apart [OF assms(1,4) pre] eq assms(5) show False by blast
qed

text \<open>What is on record: everything but the index of generations, an empty table of purposes and the first
  generations that are filled in.\<close>

definition same_records :: "config \<Rightarrow> db \<Rightarrow> db \<Rightarrow> bool" where
  "same_records c d d' \<longleftrightarrow> db_cert_index d' = db_cert_index d \<and> db_store d' = db_store d \<and>
     db_enrollment d' = db_enrollment d \<and> snap_config (db_snapshot d') = snap_config (db_snapshot d) \<and>
     (snap_purposes (db_snapshot d') = snap_purposes (db_snapshot d) \<or>
        snap_purposes (db_snapshot d) = None \<and> snap_purposes (db_snapshot d') = Some []) \<and>
     (db_ca_index d' = db_ca_index d \<or> db_ca_index d' = db_ca_index (ensure_ca_index c d))"

lemma same_records_simps [simp]:
  "same_records c d d" "same_records c d (ensure_ca_index c d)"
  "same_records c d ((ensure_ca_index c d)\<lparr>db_snapshot := ensure_purpose_table (db_snapshot d)\<rparr>)"
  by (auto simp: same_records_def ensure_ca_index_def ensure_purpose_table_def split: option.split)

lemma failed_leaves:
  assumes "w_db w = Some d"
    and "if adding then add_signing_ca e c fr purpose w = (w', Inl x) else renew_signing_ca e c fr purpose new_cn w = (w', Inl x)"
  shows "\<exists>d'. w_db w' = Some d' \<and> same_records c d d'"
    and "w_files w' loc \<noteq> w_files w loc \<Longrightarrow> \<exists>sl. slug_of_next c d purpose adding = Some sl \<and> loc \<in> slug_files sl"
proof -
  have "w' = w \<or> (\<exists>sl. slug_of_next c d purpose adding = Some sl \<and> files_but sl w w' \<and> (w_db w' = Some (ensure_ca_index c d) \<or>
      w_db w' = Some ((ensure_ca_index c d)\<lparr>db_snapshot := ensure_purpose_table (db_snapshot d)\<rparr>)))"
    using assms by (auto split: if_split_asm dest!: failed_add failed_renew add_precheck_slug renew_precheck_frame)
  then show "\<exists>d'. w_db w' = Some d' \<and> same_records c d d'"
    and "w_files w' loc \<noteq> w_files w loc \<Longrightarrow> \<exists>sl. slug_of_next c d purpose adding = Some sl \<and> loc \<in> slug_files sl"
    using assms(1) by (auto simp: files_but_def)
qed



section \<open>Two renewals at once\<close>

lemma renew_precheck_published:
  assumes "renew_precheck e c fr purpose new_cn w = (w1, Inr (ca, nx, cert, key))" and "w_db w = Some d"
  shows "w_db w1 = Some (ensure_ca_index c d) \<and> load_ca_cert w1 (gn_slug nx) = Inr (Some cert) \<and>
    config_ca c purpose = Some ca \<and>
    nx = next_generation ca purpose (gn_gen (active_ca (ensure_ca_index c d) c purpose)) new_cn"
proof -
  from renew_precheck_Inr [OF assms] have
      mint: "mint_ca_generation e c fr ca (active_ca (ensure_ca_index c d) c ''root'') nx (ensure_ca_index c d)
       (w\<lparr>w_db := Some (ensure_ca_index c d)\<rparr>) = (w1, Inr (cert, key))"
    and rest: "config_ca c purpose = Some ca" "nx = next_generation ca purpose (gn_gen (active_ca (ensure_ca_index c d) c purpose)) new_cn"
    by blast+
  from mint_Inr [OF mint] show ?thesis using rest mint_frame [OF mint] by (auto dest!: write_ca_artifacts_cases)
qed

lemma taken_number:
  assumes "db_ca_index d = Some gs" and "\<exists>h \<in> set gs. g_kind h = ''signing'' \<and> g_purpose h = gn_purpose nx \<and> g_gen h = gn_gen nx"
    and "w_db w = Some d"
  shows "\<exists>x. renew_locked e ca nx cert key w = Inl x"
  using assms retire_keys [of "gn_purpose nx" gs "''signing''" "gn_purpose nx" "gn_gen nx"]
  by (cases "renew_locked e ca nx cert key w") (auto dest!: renew_locked_Inr insert_gen_Inr)

lemma no_key_of_unknown:
  assumes "cs_certs s (x_fp cert) = None" and "x_fp cert \<noteq> x_fp cert'"
  shows "find_key pw cert (insert_key pw' cert' key (insert_cert cert' s)) = No_key"
    "find_key pw cert (insert_cert cert' s) = No_key"
  using assms by (simp_all add: find_key_def insert_key_def insert_cert_def split: option.split)

text \<open>C11. Two renewals of one purpose at once leave a CA that cannot sign. Both pass their checks before
  either takes the lock, so both mint a generation with the same number and write it to the same files, the
  later over the earlier. Whoever takes the lock first is recorded; the other one fails on the key of the
  table, but its certificate is the one that stays published: the active generation then has the files of a
  certificate whose key the store does not hold, and a CA with an internal key can sign nothing.\<close>

theorem renewal_race:
  "w_db w = Some d \<Longrightarrow> config_ok c \<Longrightarrow> nul_free cn1 \<Longrightarrow>
   renew_precheck e1 c fr1 purpose cn1 w = (w1, Inr (ca, nx1, cert1, key1)) \<Longrightarrow>
   renew_precheck e2 c fr2 purpose cn2 w1 = (w2, Inr (ca2, nx2, cert2, key2)) \<Longrightarrow>
   renew_locked e3 ca nx1 cert1 key1 w2 = Inr w3 \<Longrightarrow>
   x_fp cert2 \<noteq> x_fp cert1 \<Longrightarrow> cs_certs (db_store d) (x_fp cert2) = None \<Longrightarrow>
   (\<exists>x. renew_locked e4 ca2 nx2 cert2 key2 w3 = Inl x) \<and>
   (\<exists>d3. w_db w3 = Some d3 \<and> active_ca d3 c purpose = nx1 \<and>
      cert_row_of cert1 ''signing'' purpose ''active'' 0 \<in> set (index_rows d3) \<and>
      load_ca_cert w3 (gn_slug nx1) = Inr (Some cert2) \<and>
      (ca_key_backend ca = ''internal'' \<longrightarrow>
         signing_key e c w3 d3 cert2 (spec_of ca) (gn_slug nx1) tokens = Inl Key_missing))"
proof -
  assume d: "w_db w = Some d" and c: "config_ok c" "nul_free cn1"
    and p1: "renew_precheck e1 c fr1 purpose cn1 w = (w1, Inr (ca, nx1, cert1, key1))"
    and p2: "renew_precheck e2 c fr2 purpose cn2 w1 = (w2, Inr (ca2, nx2, cert2, key2))"
    and lock: "renew_locked e3 ca nx1 cert1 key1 w2 = Inr w3"
    and fresh: "x_fp cert2 \<noteq> x_fp cert1" "cs_certs (db_store d) (x_fp cert2) = None"
  let ?d = "ensure_ca_index c d"
  note f1 = renew_precheck_published [OF p1 d]
  then have w1: "w_db w1 = Some ?d" by simp
  note f2 = renew_precheck_published [OF p2 w1, unfolded ensure_ca_index_idem]
  then have w2: "w_db w2 = Some ?d" and same: "gn_slug nx2 = gn_slug nx1" "gn_purpose nx2 = purpose" "gn_gen nx2 = gn_gen nx1"
    and np: "gn_purpose nx1 = purpose"
    using f1 by (simp_all add: next_generation_def)
  have row: "gen_of_row (new_row nx1) = nx1" using f1 next_generation_row [OF c(1) _ c(2)] by simp
  from renew_locked_effect [OF lock w2 row, of c] obtain gs d3 where
      w3: "w3 = w2\<lparr>w_db := Some d3\<rparr>" and act: "active_ca d3 c purpose = nx1"
      and d3: "d3 = (record_ca (sec_passphrase (e_secrets e3)) ca purpose cert1 key1 ?d)\<lparr>db_ca_index := Some (retire purpose gs @ [new_row nx1])\<rparr>"
    by (auto simp: np)
  have "\<exists>x. renew_locked e4 ca2 nx2 cert2 key2 w3 = Inl x"
    by (rule taken_number [of d3 "retire purpose gs @ [new_row nx1]"]) (auto simp: d3 w3 same np new_row_def)
  moreover have "load_ca_cert w3 (gn_slug nx1) = Inr (Some cert2)" using f2 by (simp add: w3 same load_ca_cert_def)
  moreover have "cert_row_of cert1 ''signing'' purpose ''active'' 0 \<in> set (index_rows d3)"
    using record_ca_row [of cert1 purpose _ ca key1 ?d] by (simp add: d3 index_rows_def)
  moreover have "signing_key e c w3 d3 cert2 (spec_of ca) (gn_slug nx1) tokens = Inl Key_missing" if "ca_key_backend ca = ''internal''"
  proof -
    have "db_store ?d = db_store d" by (simp add: ensure_ca_index_def)
    then have "find_key (sec_passphrase (e_secrets e)) cert2 (db_store d3) = No_key"
      using fresh that by (simp add: d3 record_ca_def Let_def no_key_of_unknown)
    then show ?thesis using that by (simp add: signing_key_def ca_key_def spec_of_def)
  qed
  ultimately show ?thesis using act w3 by auto
qed

definition sample_race1 :: "world \<times> (ceremony_error + signing_ca \<times> ca_gen \<times> certificate \<times> string)" where
  "sample_race1 = renew_precheck (sample_env 2000) sample_config sample_fresh_of ''tls'' ''CA E3'' sample_pki_world"

definition sample_race2 :: "world \<times> (ceremony_error + signing_ca \<times> ca_gen \<times> certificate \<times> string)" where
  "sample_race2 = renew_precheck (sample_env 2001) sample_config (\<lambda>i. sample_fresh_of (i + 7)) ''tls'' ''CA E3b'' (fst sample_race1)"

definition sample_race3 :: "ceremony_error + world" where
  "sample_race3 = (case snd sample_race1 of Inl x \<Rightarrow> Inl x
     | Inr (ca, nx, cert, key) \<Rightarrow> renew_locked (sample_env 2002) ca nx cert key (fst sample_race2))"

theorem renewal_race_witness:
  "\<exists>w3 d3 cert2. sample_race3 = Inr w3 \<and> w_db w3 = Some d3 \<and>
     load_ca_cert w3 (gn_slug (active_ca d3 sample_config ''tls'')) = Inr (Some cert2) \<and> x_fp cert2 = ''fp-8'' \<and>
     signing_key (sample_env 2010) sample_config w3 d3 cert2 (spec_of sample_tls_ca) ''ca-e3'' [] = Inl Key_missing"
proof -
  have ca: "config_ca sample_config ''tls'' = Some sample_tls_ca" by (simp add: config_ca_def sample_config_value)
  have "case snd sample_race1 of Inr (_, nx, cert, _) \<Rightarrow> x_fp cert = ''fp-1'' \<and> gn_slug nx = ''ca-e3'' | Inl _ \<Rightarrow> False" by code_simp
  then obtain ca1 nx1 cert1 key1 where s1: "snd sample_race1 = Inr (ca1, nx1, cert1, key1)" "x_fp cert1 = ''fp-1''" "gn_slug nx1 = ''ca-e3''"
    by (auto split: sum.split_asm prod.split_asm)
  have "case snd sample_race2 of Inr (_, _, cert, _) \<Rightarrow> x_fp cert = ''fp-8'' | Inl _ \<Rightarrow> False" by code_simp
  then obtain ca2 nx2 cert2 key2 where s2: "snd sample_race2 = Inr (ca2, nx2, cert2, key2)" "x_fp cert2 = ''fp-8''"
    by (auto split: sum.split_asm prod.split_asm)
  have "\<exists>x. sample_race3 = Inr x" by (rule is_okI) code_simp
  then obtain w3 where s3: "sample_race3 = Inr w3" by blast
  have p1: "renew_precheck (sample_env 2000) sample_config sample_fresh_of ''tls'' ''CA E3'' sample_pki_world =
      (fst sample_race1, Inr (ca1, nx1, cert1, key1))" using s1(1) by (metis prod.collapse sample_race1_def)
  have p2: "renew_precheck (sample_env 2001) sample_config (\<lambda>i. sample_fresh_of (i + 7)) ''tls'' ''CA E3b'' (fst sample_race1) =
      (fst sample_race2, Inr (ca2, nx2, cert2, key2))" using s2(1) by (metis prod.collapse sample_race2_def)
  have lock: "renew_locked (sample_env 2002) ca1 nx1 cert1 key1 (fst sample_race2) = Inr w3"
    using s3 by (simp add: sample_race3_def s1(1))
  have db: "w_db sample_pki_world = Some sample_pki_db" by (simp add: sample_pki_world_def)
  have c: "nul_free ''CA E3''" "cs_certs (db_store sample_pki_db) ''fp-8'' = None" by code_simp+
  have "ca1 = sample_tls_ca" using renew_precheck_published [OF p1 db] ca by simp
  moreover have "ca_key_backend sample_tls_ca = ''internal''" by code_simp
  ultimately show ?thesis
    using renewal_race [OF db sample_config_ok c(1) p1 p2 lock, of "sample_env 2009" "sample_env 2010" "[]"] c(2) s1 s2 s3 by auto
qed

end
