(* ===== verification/System.thy ===== *)
theory System
  imports Ceremony
begin

text \<open>
  The commands together. Every command that changes the store makes its checks on the store as it
  finds it, without a lock, and works under the write lock afterwards on whatever the store has become;
  several processes may do so at once. A state is the world, the commands that have made their checks and
  not yet taken the lock, and a log of what was handed out; a step is one half of one command. The
  invariants are those of the tables (their keys, one active generation per purpose) and the account of
  the nonces.
\<close>

section \<open>Requests and tasks\<close>

datatype request =
    Ask_issue string string "request_san list" "int option"
  | Ask_sign string string string "request_error + profile_def \<times> signing_ca \<times> csr \<times> string \<times> san list" "int option"
  | Ask_revoke string string string string
  | Ask_revoke_ca string string
  | Ask_refresh crl_scope
  | Ask_add string
  | Ask_renew string string

text \<open>What a command carries from its checks to the lock.\<close>

datatype task =
    Do_issue string string plan "request_san list"
  | Do_sign string string string plan csr string "san list"
  | Do_revoke string string string crl_plan
  | Do_revoke_ca crl_plan ca_gen certificate
  | Do_refresh "(job \<times> string) list"
  | Do_add signing_ca ca_gen certificate string
  | Do_renew signing_ca ca_gen certificate string

fun prepare ::
  "env \<Rightarrow> config \<Rightarrow> (san \<Rightarrow> san option) \<Rightarrow> fresh_of \<Rightarrow> request \<Rightarrow> world \<Rightarrow> world \<times> task option" where
  "prepare e c canon fr (Ask_issue profile cn extra ov) w =
     (w, case issue_precheck e c w profile cn extra ov of
        Inl _ \<Rightarrow> None | Inr (p, sans) \<Rightarrow> Some (Do_issue profile cn p sans))"
| "prepare e c canon fr (Ask_sign profile who nonce req ov) w =
     (case sign_precheck e c canon w profile who nonce req ov of
        (w', Inl _) \<Rightarrow> (w', None)
      | (w', Inr (p, q, cn, an)) \<Rightarrow> (w', Some (Do_sign profile who nonce p q cn an)))"
| "prepare e c canon fr (Ask_revoke target cn reason serial) w =
     (w, case revoke_precheck e c w target cn reason serial of
        Inl _ \<Rightarrow> None | Inr p \<Rightarrow> Some (Do_revoke target cn serial p))"
| "prepare e c canon fr (Ask_revoke_ca selector reason) w =
     (case revoke_ca_precheck e c w selector reason of
        (w', Inl _) \<Rightarrow> (w', None)
      | (w', Inr (p, victim, vc)) \<Rightarrow> (w', Some (Do_revoke_ca p victim vc)))"
| "prepare e c canon fr (Ask_refresh scope) w =
     (w, case refresh_precheck e c scope w of
        Inl _ \<Rightarrow> None | Inr jobs \<Rightarrow> if jobs = [] then None else Some (Do_refresh jobs))"
| "prepare e c canon fr (Ask_add purpose) w =
     (case add_precheck e c fr purpose w of
        (w', Inl _) \<Rightarrow> (w', None)
      | (w', Inr (ca, nx, cert, key)) \<Rightarrow> (w', Some (Do_add ca nx cert key)))"
| "prepare e c canon fr (Ask_renew purpose new_cn) w =
     (case renew_precheck e c fr purpose new_cn w of
        (w', Inl _) \<Rightarrow> (w', None)
      | (w', Inr (ca, nx, cert, key)) \<Rightarrow> (w', Some (Do_renew ca nx cert key)))"

text \<open>What a step hands out.\<close>

datatype event =
    Leased string string
  | Signed string string string
  | Issued string
  | Revoked crl
  | Generation string string

fun perform ::
  "env \<Rightarrow> config \<Rightarrow> (san \<Rightarrow> san option) \<Rightarrow> fresh \<Rightarrow> task \<Rightarrow> world \<Rightarrow> world \<times> event list" where
  "perform e c canon fr (Do_issue profile cn p sans) w =
     (case issue_locked e c canon fr profile cn p sans w of
        Inl _ \<Rightarrow> (w, []) | Inr (w', cert, _) \<Rightarrow> (w', [Issued (x_fp cert)]))"
| "perform e c canon fr (Do_sign profile who nonce p q cn an) w =
     (case sign_locked e c fr profile who nonce p q cn an w of
        Inl _ \<Rightarrow> (w, []) | Inr (w', cert) \<Rightarrow> (w', [Signed who nonce (x_fp cert)]))"
| "perform e c canon fr (Do_revoke target cn serial p) w =
     (case revoke_locked e target cn serial p w of
        (w', Inl _) \<Rightarrow> (w', []) | (w', Inr crl) \<Rightarrow> (w', [Revoked crl]))"
| "perform e c canon fr (Do_revoke_ca p victim vc) w =
     (case revoke_ca_locked e p victim vc w of
        (w', Inl _) \<Rightarrow> (w', []) | (w', Inr crl) \<Rightarrow> (w', [Revoked crl]))"
| "perform e c canon fr (Do_refresh jobs) w = (fst (refresh_locked e jobs w), [])"
| "perform e c canon fr (Do_add ca nx cert key) w =
     (case add_locked e ca nx cert key w of
        Inl _ \<Rightarrow> (w, []) | Inr w' \<Rightarrow> (w', [Generation (gn_purpose nx) (x_fp cert)]))"
| "perform e c canon fr (Do_renew ca nx cert key) w =
     (case renew_locked e ca nx cert key w of
        Inl _ \<Rightarrow> (w, []) | Inr w' \<Rightarrow> (w', [Generation (gn_purpose nx) (x_fp cert)]))"

section \<open>Steps\<close>

record system =
  sy_world :: world
  sy_tasks :: "task list"
  sy_log :: "event list"

text \<open>What the command line makes sure of first: the store is initialized and the configuration is the
  one it holds; only \<^verbatim>\<open>add\<close> runs on the file, which has then been loaded without an
  error.\<close>

definition runs_on :: "world \<Rightarrow> request \<Rightarrow> config \<Rightarrow> bool" where
  "runs_on w r c \<longleftrightarrow> is_initialized w \<and>
     (case r of Ask_add _ \<Rightarrow> config_ok c
      | _ \<Rightarrow> (\<exists>d. w_db w = Some d \<and> load_config (Some (db_snapshot d)) = Inr (Some c)))"

text \<open>Where an identity stands with its nonce.\<close>

datatype lease = Spent | Pending string

definition lease_of :: "enroll_row \<Rightarrow> lease" where
  "lease_of r = (if n_consumed r = 0 then Pending (row_nonce r) else Spent)"

definition leases :: "world \<Rightarrow> string \<rightharpoonup> lease" where
  "leases w who = (case w_db w of None \<Rightarrow> None | Some d \<Rightarrow> map_option lease_of (enrolled who d))"

text \<open>A nonce that is handed out once more is logged once.\<close>

definition lease_log :: "world \<Rightarrow> string \<Rightarrow> string \<Rightarrow> event list" where
  "lease_log w who nonce = (if leases w who = Some (Pending nonce) then [] else [Leased who nonce])"

inductive sys_step :: "system \<Rightarrow> system \<Rightarrow> bool" where
  Init: "init e n raw c fr (sy_world s) = (w', shown, r) \<Longrightarrow> config_ok c \<Longrightarrow> sys_step s (s\<lparr>sy_world := w'\<rparr>)"
| Enroll: "is_initialized (sy_world s) \<Longrightarrow> enroll e who (sy_world s) = Inr w' \<Longrightarrow> sys_step s (s\<lparr>sy_world := w'\<rparr>)"
| Lease: "is_initialized (sy_world s) \<Longrightarrow> get_nonce e raw who (sy_world s) = Inr (w', nonce) \<Longrightarrow> nul_free raw \<Longrightarrow>
    sys_step s (s\<lparr>sy_world := w', sy_log := lease_log (sy_world s) who nonce @ sy_log s\<rparr>)"
| Start: "runs_on (sy_world s) req c \<Longrightarrow> prepare e c canon fr req (sy_world s) = (w', t) \<Longrightarrow>
    sys_step s (s\<lparr>sy_world := w', sy_tasks := (case t of None \<Rightarrow> sy_tasks s | Some t \<Rightarrow> t # sy_tasks s)\<rparr>)"
| Finish: "t \<in> set (sy_tasks s) \<Longrightarrow> perform e c canon fresh t (sy_world s) = (w', evs) \<Longrightarrow>
    sys_step s (s\<lparr>sy_world := w', sy_tasks := remove1 t (sy_tasks s), sy_log := evs @ sy_log s\<rparr>)"
| Crash: "t \<in> set (sy_tasks s) \<Longrightarrow> sys_step s (s\<lparr>sy_tasks := remove1 t (sy_tasks s)\<rparr>)"

inductive_cases sys_stepE: "sys_step s s'"

fun_cases perform_revokeE: "perform e c canon fr (Do_revoke target cn serial p) w = (w', evs)"
fun_cases perform_issueE: "perform e c canon fr (Do_issue profile cn p sans) w = (w', evs)"
fun_cases perform_signE: "perform e c canon fr (Do_sign profile who nonce p q cn an) w = (w', evs)"

definition new_system :: "world \<Rightarrow> system" where
  "new_system w = \<lparr>sy_world = w, sy_tasks = [], sy_log = []\<rparr>"

definition blank :: "world \<Rightarrow> bool" where
  "blank w \<longleftrightarrow> w_db w = None \<and> w_dir w \<noteq> Dir_used"

text \<open>The invariants of a transition system, for whatever steps it takes.\<close>

locale transitions =
  fixes start :: "'s \<Rightarrow> bool" and move :: "'s \<Rightarrow> 's \<Rightarrow> bool"
begin

definition runs_to :: "'s \<Rightarrow> bool" where
  "runs_to s \<longleftrightarrow> (\<exists>s0. start s0 \<and> move\<^sup>*\<^sup>* s0 s)"

lemma runs_start: "start s \<Longrightarrow> runs_to s"
  unfolding runs_to_def by blast

lemma runs_move: "runs_to s \<Longrightarrow> move s s' \<Longrightarrow> runs_to s'"
  unfolding runs_to_def by (meson rtranclp.rtrancl_into_rtrancl)

lemma runs_induct:
  assumes "runs_to s" and "\<And>s. start s \<Longrightarrow> P s" and "\<And>s s'. runs_to s \<Longrightarrow> P s \<Longrightarrow> move s s' \<Longrightarrow> P s'"
  shows "P s"
proof -
  from assms(1) obtain s0 where s0: "start s0" "move\<^sup>*\<^sup>* s0 s" unfolding runs_to_def by blast
  from s0(2) have "runs_to s \<and> P s"
  proof (induction rule: rtranclp_induct)
    case base
    with s0(1) assms(2) runs_start show ?case by blast
  next
    case (step y z)
    with assms(3) runs_move show ?case by blast
  qed
  then show ?thesis ..
qed

end

locale invariant = transitions +
  fixes good :: "'a \<Rightarrow> bool"
  assumes good_start: "start s \<Longrightarrow> good s"
    and good_move: "good s \<Longrightarrow> move s s' \<Longrightarrow> good s'"
begin

lemma always_good: "runs_to s \<Longrightarrow> good s"
  by (erule runs_induct) (auto intro: good_start good_move)

end

definition sys_start :: "system \<Rightarrow> bool" where
  "sys_start s \<longleftrightarrow> (\<exists>w. blank w \<and> s = new_system w)"

inductive reachable :: "system \<Rightarrow> bool" where
  Begin: "sys_start s \<Longrightarrow> reachable s"
| Step: "reachable s \<Longrightarrow> sys_step s s' \<Longrightarrow> reachable s'"

interpretation sys: transitions sys_start sys_step .

lemma reachable_runs: "reachable s \<longleftrightarrow> sys.runs_to s"
proof
  show "reachable s \<Longrightarrow> sys.runs_to s"
    by (induction rule: reachable.induct) (auto intro: sys.runs_start sys.runs_move)
  show "sys.runs_to s \<Longrightarrow> reachable s"
    by (erule sys.runs_induct) (auto intro: reachable.intros)
qed

section \<open>The keys of the tables\<close>

definition gen_rows :: "db \<Rightarrow> gen_row list" where
  "gen_rows d = (case db_ca_index d of None \<Rightarrow> [] | Some gs \<Rightarrow> gs)"

definition enroll_rows :: "db \<Rightarrow> enroll_row list" where
  "enroll_rows d = (case db_enrollment d of None \<Rightarrow> [] | Some rs \<Rightarrow> rs)"

definition gen_key :: "gen_row \<Rightarrow> string \<times> string \<times> nat" where
  "gen_key g = (g_kind g, g_purpose g, g_gen g)"

definition certs_keyed :: "cert_row list \<Rightarrow> bool" where
  "certs_keyed rs \<longleftrightarrow> distinct (map r_fp rs)"

definition gens_ok :: "gen_row list \<Rightarrow> bool" where
  "gens_ok gs \<longleftrightarrow> distinct (map gen_key gs) \<and> (\<forall>p. length (active_gens gs p) \<le> 1) \<and>
     (\<forall>g \<in> set gs. g_purpose g \<noteq> ''root'' \<longrightarrow>
        (\<exists>h \<in> set gs. g_kind h = ''signing'' \<and> g_purpose h = g_purpose g \<and> g_gen h = 1))"

text \<open>Every certificate of the index is stored, each under its own fingerprint.\<close>

definition stored :: "cert_row list \<Rightarrow> cert_store \<Rightarrow> bool" where
  "stored rs st \<longleftrightarrow> (\<forall>r \<in> set rs. load_cert st (r_fp r) \<noteq> None) \<and>
     (\<forall>fp cert. load_cert st fp = Some cert \<longrightarrow> x_fp cert = fp)"

definition db_ok :: "db \<Rightarrow> bool" where
  "db_ok d \<longleftrightarrow> certs_keyed (index_rows d) \<and> gens_ok (gen_rows d) \<and> distinct (map n_id (enroll_rows d)) \<and>
     stored (index_rows d) (db_store d)"

lemma stored_put:
  "stored rs st \<Longrightarrow> stored rs (insert_cert cert st)" "stored rs st \<Longrightarrow> stored rs (insert_key pw cert key st)"
  "stored rs st \<Longrightarrow> stored rs (store_revoke_cert cert code st)"
  by (auto simp: stored_def ks.get_put_cert ks.get_put_key load_cert_revoke split: if_split_asm)

lemma stored_index:
  "stored rs st \<Longrightarrow> load_cert st (x_fp cert) \<noteq> None \<Longrightarrow> stored (index_cert cert kind p status t rs) st"
  by (auto simp: stored_def index_cert_def cert_row_of_def)

lemma stored_mark [simp]: "stored (mark_revoked fp t code rs) st = stored rs st"
proof -
  have "(\<forall>r \<in> set (mark_revoked fp t code rs). P (r_fp r)) = (\<forall>r \<in> set rs. P (r_fp r))" for P
    by (induction rs) (simp_all add: mark_revoked_def)
  from this [of "\<lambda>fp. load_cert st fp \<noteq> None"] show ?thesis by (simp only: stored_def)
qed

lemma certs_keyed_index_cert: "certs_keyed rs \<Longrightarrow> certs_keyed (index_cert cert kind p st t rs)"
  by (auto simp: certs_keyed_def index_cert_def cert_row_of_def distinct_map_filter)

lemma certs_keyed_mark [simp]: "certs_keyed (mark_revoked fp t code rs) = certs_keyed rs"
proof -
  have "map r_fp (mark_revoked fp t code rs) = map r_fp rs" by (auto simp: mark_revoked_def)
  then show ?thesis by (simp add: certs_keyed_def)
qed

text \<open>Changing a status keeps the keys; raising none to active keeps the rest.\<close>

lemma gens_ok_map:
  assumes "gens_ok gs" and "\<And>g. gen_key (f g) = gen_key g" and "\<And>g. g_status (f g) = ''active'' \<Longrightarrow> g_status g = ''active''"
  shows "gens_ok (map f gs)"
proof -
  have same: "g_kind (f g) = g_kind g" "g_purpose (f g) = g_purpose g" "g_gen (f g) = g_gen g" for g
    using assms(2) [of g] by (simp_all add: gen_key_def)
  have "length (active_gens (map f xs) p) \<le> length (active_gens xs p)" for xs p
    by (induction xs) (use assms(3) same in \<open>auto simp: active_gens_Cons\<close>)
  then have "\<forall>p. length (active_gens (map f gs) p) \<le> 1"
    using assms(1) unfolding gens_ok_def by (meson le_trans)
  moreover have "map gen_key (map f gs) = map gen_key gs" using assms(2) by simp
  then have "distinct (map gen_key (map f gs))" using assms(1) by (simp only: gens_ok_def)
  moreover have "\<forall>g \<in> set (map f gs). g_purpose g \<noteq> ''root'' \<longrightarrow>
      (\<exists>h \<in> set (map f gs). g_kind h = ''signing'' \<and> g_purpose h = g_purpose g \<and> g_gen h = 1)"
    using assms(1) same unfolding gens_ok_def by auto
  ultimately show ?thesis unfolding gens_ok_def by blast
qed

lemma gens_ok_retire: "gens_ok gs \<Longrightarrow> gens_ok (retire p gs)"
  unfolding retire_def by (rule gens_ok_map) (auto simp: gen_key_def split: if_split_asm)

lemma gens_ok_mark: "gens_ok gs \<Longrightarrow> gens_ok (mark_generation p n ''revoked'' gs)"
  unfolding mark_generation_def by (rule gens_ok_map) (auto simp: gen_key_def split: if_splits)

lemma gens_ok_add:
  assumes "gens_ok gs" and "gen_key g \<notin> gen_key ` set gs" and "g_status g = ''active'' \<Longrightarrow> active_gens gs (g_purpose g) = []"
    and "g_purpose g \<noteq> ''root'' \<Longrightarrow> \<exists>h \<in> insert g (set gs). g_kind h = ''signing'' \<and> g_purpose h = g_purpose g \<and> g_gen h = 1"
  shows "gens_ok (gs @ [g])"
  using assms unfolding gens_ok_def by (auto simp: active_gens_Cons)

lemma gens_ok_backfill: "gens_ok gs \<Longrightarrow> gens_ok (backfill c certs gs p)"
proof -
  assume ok: "gens_ok gs"
  show ?thesis
  proof (cases "backfill c certs gs p = gs")
    case False
    then have new: "backfill c certs gs p = gs @ [row_of_gen (config_gen c p)]" and none: "\<forall>g \<in> set gs. g_purpose g \<noteq> p"
      by (auto simp: backfill_def list_ex_iff split: option.splits if_splits)
    have "gens_ok (gs @ [row_of_gen (config_gen c p)])"
    proof (rule gens_ok_add [OF ok])
      show "gen_key (row_of_gen (config_gen c p)) \<notin> gen_key ` set gs" using none by (auto simp: gen_key_def)
      show "active_gens gs (g_purpose (row_of_gen (config_gen c p))) = []"
        using none by (auto simp: active_gens_def filter_empty_conv)
      show "\<exists>h \<in> insert (row_of_gen (config_gen c p)) (set gs). g_kind h = ''signing'' \<and>
          g_purpose h = g_purpose (row_of_gen (config_gen c p)) \<and> g_gen h = 1"
        if "g_purpose (row_of_gen (config_gen c p)) \<noteq> ''root''"
        using that by (auto simp: row_of_gen_def config_gen_def kind_of_def split: option.splits)
    qed
    with new show ?thesis by simp
  qed (use ok in simp)
qed

lemma gens_ok_fold: "gens_ok gs \<Longrightarrow> gens_ok (foldl (backfill c certs) gs ps)"
  by (induction ps arbitrary: gs) (simp_all add: gens_ok_backfill)

lemma gens_ok_Nil [simp]: "gens_ok []"
  by (simp add: gens_ok_def)

section \<open>What the operations do to the tables\<close>

lemma gen_rows_ensure: "gen_rows (ensure_ca_index c d) = foldl (backfill c (db_cert_index d)) (gen_rows d) (''root'' # map fst (cfg_cas c))"
  by (simp add: gen_rows_def ensure_ca_index_def del: foldl_Cons)

lemma enroll_rows_simps [simp]:
  "enroll_rows (ensure_ca_index c d) = enroll_rows d" "enroll_rows (ensure_cert_index d) = enroll_rows d"
  "enroll_rows (ensure_enrollment d) = enroll_rows d" "enroll_rows (record_cert cert kind p d) = enroll_rows d"
  "enroll_rows (record_ca pw ca p cert key d) = enroll_rows d"
  "enroll_rows (d\<lparr>db_snapshot := sn\<rparr>) = enroll_rows d" "enroll_rows (d\<lparr>db_store := st\<rparr>) = enroll_rows d"
  "enroll_rows (d\<lparr>db_cert_index := rs\<rparr>) = enroll_rows d" "enroll_rows (d\<lparr>db_ca_index := gs\<rparr>) = enroll_rows d"
  by (simp_all add: enroll_rows_def ensure_ca_index_def ensure_cert_index_def ensure_enrollment_def record_cert_def
      record_ca_def Let_def split: option.split)

lemma gen_rows_simps [simp]:
  "gen_rows (ensure_cert_index d) = gen_rows d" "gen_rows (ensure_enrollment d) = gen_rows d"
  "gen_rows (record_cert cert kind p d) = gen_rows d" "gen_rows (record_ca pw ca p cert key d) = gen_rows d"
  "gen_rows (consume who d) = gen_rows d" "gen_rows (set_enrollment who f d) = gen_rows d"
  "gen_rows (d\<lparr>db_snapshot := sn\<rparr>) = gen_rows d" "gen_rows (d\<lparr>db_store := st\<rparr>) = gen_rows d"
  "gen_rows (d\<lparr>db_cert_index := rs\<rparr>) = gen_rows d" "gen_rows (d\<lparr>db_ca_index := Some gs\<rparr>) = gs"
  "gen_rows (d\<lparr>db_enrollment := es\<rparr>) = gen_rows d"
  by (simp_all add: gen_rows_def ensure_cert_index_def ensure_enrollment_def record_cert_def consume_def
      set_enrollment_def record_ca_def Let_def)

lemma index_rows_simps [simp]:
  "index_rows (ensure_enrollment d) = index_rows d" "index_rows (consume who d) = index_rows d"
  "index_rows (set_enrollment who f d) = index_rows d"
  "index_rows (d\<lparr>db_snapshot := sn\<rparr>) = index_rows d" "index_rows (d\<lparr>db_store := st\<rparr>) = index_rows d"
  "index_rows (d\<lparr>db_ca_index := gs\<rparr>) = index_rows d" "index_rows (d\<lparr>db_cert_index := Some rs\<rparr>) = rs"
  "index_rows (d\<lparr>db_enrollment := es\<rparr>) = index_rows d"
  by (simp_all add: index_rows_def ensure_enrollment_def consume_def set_enrollment_def)

lemma index_rows_record: "index_rows (record_cert cert kind p (ensure_cert_index d)) = index_cert cert kind p ''active'' 0 (index_rows d)"
  by (simp add: index_rows_def record_cert_def ensure_cert_index_def split: option.split)

lemma index_rows_record_ca: "index_rows (record_ca pw ca p cert key d) = index_cert cert ''signing'' p ''active'' 0 (index_rows d)"
  by (simp add: index_rows_def record_ca_def Let_def ensure_cert_index_def split: option.split)

lemma enroll_rows_set:
  "(\<And>r. n_id (f r) = n_id r) \<Longrightarrow> map n_id (enroll_rows (set_enrollment who f d)) = map n_id (enroll_rows d)"
  by (auto simp: enroll_rows_def set_enrollment_def split: option.split)

lemma db_store_simps [simp]:
  "db_store (ensure_ca_index c d) = db_store d" "db_store (ensure_cert_index d) = db_store d"
  "db_store (ensure_enrollment d) = db_store d" "db_store (consume who d) = db_store d"
  "db_store (set_enrollment who f d) = db_store d"
  by (simp_all add: ensure_ca_index_def ensure_cert_index_def ensure_enrollment_def consume_def set_enrollment_def Let_def)

lemma stored_record:
  "stored rs (db_store d) \<Longrightarrow> stored (index_cert cert kind p ''active'' 0 rs) (db_store (record_cert cert kind p d))"
  by (simp add: record_cert_def stored_index stored_put ks.get_put_cert)

lemma stored_record_ca:
  "stored rs (db_store d) \<Longrightarrow>
   stored (index_cert cert ''signing'' p ''active'' 0 rs) (db_store (record_ca pw ca p cert key d))"
  by (simp add: record_ca_def Let_def stored_index stored_put ks.get_put_cert ks.get_put_key)

lemma db_ok_ensure [simp]:
  "db_ok (ensure_cert_index d) = db_ok d" "db_ok (ensure_enrollment d) = db_ok d"
  by (simp_all add: db_ok_def)

lemma db_ok_ensure_ca: "db_ok d \<Longrightarrow> db_ok (ensure_ca_index c d)"
  by (simp add: db_ok_def gen_rows_ensure gens_ok_fold del: foldl_Cons)

lemma db_ok_snapshot [simp]: "db_ok (d\<lparr>db_snapshot := sn\<rparr>) = db_ok d"
  by (simp add: db_ok_def)

lemma db_ok_record: "db_ok d \<Longrightarrow> db_ok (record_cert cert kind p (ensure_cert_index d))"
  by (simp add: db_ok_def index_rows_record certs_keyed_index_cert stored_record)

lemma db_ok_consume: "db_ok d \<Longrightarrow> db_ok (consume who d)"
  unfolding consume_def using enroll_rows_set [of "\<lambda>r. r\<lparr>n_consumed := 1\<rparr>" who d] by (simp add: db_ok_def)


text \<open>Rows of the generations are never deleted and keep their keys.\<close>

definition has_row :: "db \<Rightarrow> string \<Rightarrow> bool" where
  "has_row d p \<longleftrightarrow> (\<exists>g \<in> set (gen_rows d). g_purpose g = p)"

lemma has_row_ensure: "has_row d p \<Longrightarrow> has_row (ensure_ca_index c d) p"
  using fold_backfill_mono [of "gen_rows d" c "db_cert_index d" "''root'' # map fst (cfg_cas c)"]
  unfolding has_row_def gen_rows_ensure by blast

lemma has_row_map:
  "(\<And>g. g_purpose (f g) = g_purpose g) \<Longrightarrow> (\<exists>g \<in> set (map f gs). g_purpose g = p) \<longleftrightarrow> (\<exists>g \<in> set gs. g_purpose g = p)"
  by auto

lemma has_row_retire: "(\<exists>g \<in> set (retire q gs). g_purpose g = p) \<longleftrightarrow> (\<exists>g \<in> set gs. g_purpose g = p)"
  unfolding retire_def by (rule has_row_map) simp

lemma has_row_mark: "(\<exists>g \<in> set (mark_generation q n st gs). g_purpose g = p) \<longleftrightarrow> (\<exists>g \<in> set gs. g_purpose g = p)"
  unfolding mark_generation_def by (rule has_row_map) simp

text \<open>What every step does to a store that exists: the tables stay in order and no generation is lost.
  The renewal needs its purpose to have a generation.\<close>

definition task_ok :: "db \<Rightarrow> task \<Rightarrow> bool" where
  "task_ok d t \<longleftrightarrow> (case t of
      Do_renew ca nx cert key \<Rightarrow> gn_purpose nx \<noteq> ''root'' \<longrightarrow> has_row d (gn_purpose nx)
    | Do_add ca nx cert key \<Rightarrow> gn_purpose nx \<noteq> ''root'' \<and> gn_gen nx = 1
    | _ \<Rightarrow> True)"

definition keeps :: "db \<Rightarrow> db \<Rightarrow> bool" where
  "keeps d d' \<longleftrightarrow> db_ok d' \<and> (\<forall>p. has_row d p \<longrightarrow> has_row d' p)"

lemma keeps_refl: "db_ok d \<Longrightarrow> keeps d d"
  by (simp add: keeps_def)

lemma keeps_same_gens: "db_ok d' \<Longrightarrow> gen_rows d' = gen_rows d \<Longrightarrow> keeps d d'"
  by (simp add: keeps_def has_row_def)

lemma keeps_ensure_ca: "db_ok d \<Longrightarrow> keeps d (ensure_ca_index c d)"
  by (simp add: keeps_def db_ok_ensure_ca has_row_ensure)

lemma gens_ok_insert:
  assumes "gens_ok gs" and "insert_gen nx gs = Inr gs'" and "active_gens gs (gn_purpose nx) = []"
    and "gn_purpose nx \<noteq> ''root'' \<Longrightarrow> gn_gen nx = 1 \<or> (\<exists>g \<in> set gs. g_purpose g = gn_purpose nx)"
  shows "gens_ok gs'"
proof -
  let ?g = "\<lparr>g_kind = ''signing'', g_purpose = gn_purpose nx, g_gen = gn_gen nx, g_cn = gn_cn nx,
               g_slug = gn_slug nx, g_status = ''active''\<rparr>"
  from insert_gen_Inr [OF assms(2)] have gs': "gs' = gs @ [?g]"
    and new: "\<forall>h \<in> set gs. \<not> (g_kind h = ''signing'' \<and> g_purpose h = gn_purpose nx \<and> g_gen h = gn_gen nx)" by blast+
  show ?thesis
    unfolding gs'
  proof (rule gens_ok_add [OF assms(1)])
    show "gen_key ?g \<notin> gen_key ` set gs" using new by (auto simp: gen_key_def)
    show "active_gens gs (g_purpose ?g) = []" using assms(3) by simp
    show "\<exists>h \<in> insert ?g (set gs). g_kind h = ''signing'' \<and> g_purpose h = g_purpose ?g \<and> g_gen h = 1"
      if "g_purpose ?g \<noteq> ''root''"
    proof (cases "gn_gen nx = 1")
      case False
      with assms(4) that obtain g where "g \<in> set gs" "g_purpose g = gn_purpose nx" by auto
      with assms(1) that obtain h where "h \<in> set gs" "g_kind h = ''signing''" "g_purpose h = gn_purpose nx" "g_gen h = 1"
        unfolding gens_ok_def by (metis gen_row.select_convs(2))
      then show ?thesis by auto
    qed auto
  qed
qed

text \<open>A generation 1 can be inserted only where no other row of its purpose is.\<close>

lemma no_row_of_new_first:
  assumes "gens_ok gs" and "insert_gen nx gs = Inr gs'" and "gn_gen nx = 1" and "gn_purpose nx \<noteq> ''root''"
  shows "active_gens gs (gn_purpose nx) = []"
proof -
  from insert_gen_Inr [OF assms(2)] assms(3) have
    "\<forall>h \<in> set gs. \<not> (g_kind h = ''signing'' \<and> g_purpose h = gn_purpose nx \<and> g_gen h = 1)" by simp
  then have "\<forall>g \<in> set gs. g_purpose g \<noteq> gn_purpose nx" using assms(1,4) unfolding gens_ok_def by metis
  then show ?thesis by (auto simp: active_gens_def filter_empty_conv)
qed

section \<open>Each half of a command keeps the tables in order\<close>

lemma record_keeps: "db_ok d \<Longrightarrow> keeps d (record_cert cert kind p (ensure_cert_index d))"
  by (rule keeps_same_gens) (simp_all add: db_ok_record)

lemma issue_keeps:
  assumes "issue_locked e c canon fr profile cn p sans w = Inr (w', cert, ok)" and "w_db w = Some d" and "db_ok d"
  shows "\<exists>d'. w_db w' = Some d' \<and> keeps d d'"
proof -
  from issue_locked_Inr [OF assms(1)] assms(2) have "(w', ok) = write_leaf e cn cert (f_pub fr)
       (w\<lparr>w_db := Some (record_cert cert profile (gn_purpose (pl_gen p)) (ensure_cert_index d))\<rparr>)" by auto
  then have "w_db w' = Some (record_cert cert profile (gn_purpose (pl_gen p)) (ensure_cert_index d))"
    by (auto simp: write_leaf_def Let_def put_file_def split: if_splits)
  with record_keeps [OF assms(3)] show ?thesis by blast
qed

lemma sign_keeps:
  assumes "sign_locked e c fr profile who nonce p q cn an w = Inr (w', cert)" and "w_db w = Some d" and "db_ok d"
  shows "\<exists>d'. w_db w' = Some d' \<and> keeps d d'"
proof -
  have eq: "ensure_enrollment (ensure_cert_index d) = ensure_cert_index (ensure_enrollment d)"
    by (simp add: ensure_enrollment_def ensure_cert_index_def)
  from sign_locked_Inr [OF assms(1)] assms(2) have "w_db w' =
      Some (consume who (record_cert cert profile (gn_purpose (pl_gen p)) (ensure_cert_index (ensure_enrollment d))))"
    by (auto simp: eq)
  moreover have "keeps d (consume who (record_cert cert profile (gn_purpose (pl_gen p)) (ensure_cert_index (ensure_enrollment d))))"
    using assms(3) by (intro keeps_same_gens) (simp_all add: db_ok_consume db_ok_record)
  ultimately show ?thesis by blast
qed

lemma publish_db:
  "publish e sl res w = (w', r) \<Longrightarrow> w_db w' = w_db w \<or> w_db w' = Some (fst res)"
  by (drule publish_cases) auto

lemma revoke_keeps:
  assumes "revoke_locked e target cn serial p w = (w', r)" and "w_db w = Some d" and "db_ok d"
  shows "\<exists>d'. w_db w' = Some d' \<and> keeps d d'"
proof (cases "revoke_next e target cn serial p w")
  case (Inl x)
  with assms show ?thesis by (auto simp: revoke_locked_def intro: keeps_refl)
next
  case (Inr res)
  obtain d1 crl where res: "res = (d1, crl)" by fastforce
  from revoke_next_Inr [OF Inr [unfolded res]] assms(2) obtain fp victim where
    d1: "d1 = d\<lparr>db_store := store_revoke_cert victim (cp_code p) (db_store d),
             db_cert_index := Some (mark_revoked fp (e_clock e 4) (cp_code p) (index_rows d))\<rparr>" by auto
  have "keeps d d1" using assms(3) by (intro keeps_same_gens) (simp_all add: d1 db_ok_def stored_put)
  with assms Inr show ?thesis by (auto simp: revoke_locked_def res dest!: publish_db intro: keeps_refl)
qed

lemma revoke_ca_keeps:
  assumes "revoke_ca_locked e p victim vc w = (w', r)" and "w_db w = Some d" and "db_ok d"
  shows "\<exists>d'. w_db w' = Some d' \<and> keeps d d'"
proof (cases "revoke_ca_next e p victim vc w")
  case (Inl x)
  with assms show ?thesis by (auto simp: revoke_ca_locked_def intro: keeps_refl)
next
  case (Inr res)
  obtain d1 crl where res: "res = (d1, crl)" by fastforce
  let ?gs = "map_option (mark_generation (gn_purpose victim) (gn_gen victim) ''revoked'') (db_ca_index d)"
  from revoke_ca_next_Inr [OF Inr [unfolded res]] assms(2) have
    d1: "d1 = d\<lparr>db_store := store_revoke_cert vc (cp_code p) (db_store d),
             db_cert_index := Some (mark_revoked (x_fp vc) (e_clock e 4) (cp_code p) (index_rows d)),
             db_ca_index := ?gs\<rparr>" by auto
  have gens: "gen_rows d1 = mark_generation (gn_purpose victim) (gn_gen victim) ''revoked'' (gen_rows d)"
    by (simp add: gen_rows_def d1 mark_generation_def split: option.split)
  have "index_rows d1 = mark_revoked (x_fp vc) (e_clock e 4) (cp_code p) (index_rows d)" "enroll_rows d1 = enroll_rows d"
    "db_store d1 = store_revoke_cert vc (cp_code p) (db_store d)"
    by (simp_all add: d1)
  with assms(3) gens have "keeps d d1" by (simp add: keeps_def db_ok_def gens_ok_mark has_row_def has_row_mark stored_put)
  with assms Inr show ?thesis by (auto simp: revoke_ca_locked_def res dest!: publish_db intro: keeps_refl)
qed

lemma refresh_keeps:
  assumes "refresh_locked e jobs w = (w', r)" and "w_db w = Some d" and "db_ok d"
  shows "\<exists>d'. w_db w' = Some d' \<and> keeps d d'"
proof -
  have "w_db w' = w_db w"
    using assms(1) refresh_loop_db [of e "db_cert_index d" True jobs w] assms(2)
    by (auto simp: refresh_locked_def split: if_split_asm sum.split_asm prod.split_asm)
  with assms show ?thesis by (auto intro: keeps_refl)
qed

lemma add_keeps:
  assumes run: "add_locked e ca nx cert key w = Inr w'" and d: "w_db w = Some d" "db_ok d"
    and task: "gn_purpose nx \<noteq> ''root''" "gn_gen nx = 1"
  shows "\<exists>d'. w_db w' = Some d' \<and> keeps d d'"
proof -
  from add_locked_Inr [OF run d(1)] obtain s gs gs' where gs: "db_ca_index d = Some gs" and ins: "insert_gen nx gs = Inr gs'"
    and w': "w_db w' = Some ((record_ca (sec_passphrase (e_secrets e)) ca (gn_purpose nx) cert key d)\<lparr>db_snapshot := s, db_ca_index := Some gs'\<rparr>)"
    by auto
  have rows: "gen_rows d = gs" by (simp add: gen_rows_def gs)
  with d(2) have ok: "gens_ok gs" by (simp add: db_ok_def)
  from gens_ok_insert [OF ok ins no_row_of_new_first [OF ok ins task(2,1)]] task(2) have "gens_ok gs'" by simp
  moreover have "set gs \<subseteq> set gs'" using insert_gen_Inr [OF ins] by auto
  ultimately have "keeps d ((record_ca (sec_passphrase (e_secrets e)) ca (gn_purpose nx) cert key d)\<lparr>db_snapshot := s, db_ca_index := Some gs'\<rparr>)"
    using d(2) rows by (auto simp: keeps_def db_ok_def has_row_def index_rows_record_ca certs_keyed_index_cert stored_record_ca)
  with w' show ?thesis by blast
qed

lemma renew_keeps:
  assumes run: "renew_locked e ca nx cert key w = Inr w'" and d: "w_db w = Some d" "db_ok d"
    and task: "gn_purpose nx \<noteq> ''root'' \<Longrightarrow> has_row d (gn_purpose nx)"
  shows "\<exists>d'. w_db w' = Some d' \<and> keeps d d'"
proof -
  from renew_locked_Inr [OF run d(1)] obtain gs gs' where gs: "db_ca_index d = Some gs"
    and ins: "insert_gen nx (retire (gn_purpose nx) gs) = Inr gs'"
    and w': "w_db w' = Some ((record_ca (sec_passphrase (e_secrets e)) ca (gn_purpose nx) cert key d)\<lparr>db_ca_index := Some gs'\<rparr>)"
    by auto
  have rows: "gen_rows d = gs" by (simp add: gen_rows_def gs)
  with d(2) have ok: "gens_ok (retire (gn_purpose nx) gs)" by (simp add: db_ok_def gens_ok_retire)
  have "\<exists>g \<in> set (retire (gn_purpose nx) gs). g_purpose g = gn_purpose nx" if "gn_purpose nx \<noteq> ''root''"
    using task [OF that] by (simp add: has_row_def rows has_row_retire)
  with gens_ok_insert [OF ok ins] have "gens_ok gs'" by simp
  moreover have "(\<exists>g \<in> set gs. g_purpose g = p) \<longrightarrow> (\<exists>g \<in> set gs'. g_purpose g = p)" for p
    using insert_gen_Inr [OF ins] has_row_retire [of "gn_purpose nx" gs p] by auto
  ultimately have "keeps d ((record_ca (sec_passphrase (e_secrets e)) ca (gn_purpose nx) cert key d)\<lparr>db_ca_index := Some gs'\<rparr>)"
    using d(2) rows by (simp add: keeps_def db_ok_def has_row_def index_rows_record_ca certs_keyed_index_cert stored_record_ca)
  with w' show ?thesis by blast
qed

lemma perform_keeps:
  assumes "perform e c canon fr t w = (w', evs)" and d: "w_db w = Some d" "db_ok d" and "task_ok d t"
  shows "\<exists>d'. w_db w' = Some d' \<and> keeps d d'"
proof (cases t)
  case (Do_issue profile cn p sans)
  with assms show ?thesis by (auto split: sum.split_asm intro: keeps_refl dest: issue_keeps)
next
  case (Do_sign profile who nonce p q cn an)
  with assms show ?thesis by (auto split: sum.split_asm intro: keeps_refl dest: sign_keeps)
next
  case (Do_revoke target cn serial p)
  with assms show ?thesis by (auto split: sum.split_asm prod.split_asm dest: revoke_keeps)
next
  case (Do_revoke_ca p victim vc)
  with assms show ?thesis by (auto split: sum.split_asm prod.split_asm dest: revoke_ca_keeps)
next
  case (Do_refresh jobs)
  with assms show ?thesis using refresh_keeps [of e jobs w w' "snd (refresh_locked e jobs w)" d] by auto
next
  case (Do_add ca nx cert key)
  with assms show ?thesis by (auto simp: task_ok_def split: sum.split_asm intro: keeps_refl dest: add_keeps)
next
  case (Do_renew ca nx cert key)
  with assms show ?thesis by (auto simp: task_ok_def split: sum.split_asm intro: keeps_refl dest: renew_keeps)
qed

text \<open>Every purpose of the configuration in the store has a generation once the table is filled in.\<close>

lemma locked_purpose_has_row:
  assumes init: "initialized d" and load: "load_config (Some (db_snapshot d)) = Inr (Some c)"
    and ca: "config_ca c p = Some ca" and p: "p \<noteq> ''root''"
  shows "has_row (ensure_ca_index c d) p"
proof (cases "has_row d p")
  case True
  then show ?thesis by (rule has_row_ensure)
next
  case False
  from load obtain ps cas where ps: "snap_purposes (db_snapshot d) = Some ps" and cas: "map_res read_purpose ps = Inr cas"
    and c: "cfg_cas c = foldl (\<lambda>m (k, v). omap_emplace k v m) [] (map (\<lambda>ca. (ca_purpose ca, ca)) cas)"
    by (auto simp: load_config_def Let_def rbind_Inr split: option.split_asm if_split_asm)
  from ca have "map_of (map (\<lambda>ca. (ca_purpose ca, ca)) cas) p = Some ca"
    by (simp only: config_ca_def c omap.lookup_emplace_empty)
  then have "(p, ca) \<in> set (map (\<lambda>ca. (ca_purpose ca, ca)) cas)" by (rule map_of_SomeD)
  then have "ca \<in> set cas" by auto
  with map_res_member [OF cas] obtain r where r: "r \<in> set ps" "read_purpose r = Inr ca" by blast
  from r(2) have cn: "column_str (r ! 2) = Inr (ca_cn ca)"
    unfolding read_purpose_def rbind_Inr by (elim exE conjE) auto
  from init ps obtain rs where rs: "db_cert_index d = Some rs" and all: "anchored rs False ps"
    by (auto simp: initialized_def split: sum.split_asm if_split_asm option.split_asm)
  from all r(1) cn have "anchor rs ''signing'' (ca_cn ca)" by (auto simp: anchored_iff)
  then have "cert_indexed rs (gn_cn (config_gen c p))"
    using p ca by (auto simp: anchor_def cert_indexed_def config_gen_def list_ex_iff)
  moreover have "p \<in> set (''root'' # map fst (cfg_cas c))" using ca by (force simp: config_ca_def dest: map_of_SomeD)
  ultimately have "row_of_gen (config_gen c p) \<in> set (foldl (backfill c (Some rs)) (gen_rows d) (''root'' # map fst (cfg_cas c)))"
    using False by (intro backfill_takes) (auto simp: has_row_def)
  then show ?thesis unfolding has_row_def gen_rows_ensure rs by force
qed

lemma config_ca_not_root: "config_ok c \<Longrightarrow> config_ca c p = Some ca \<Longrightarrow> p \<noteq> ''root''"
  using config_ok_facts(3) [of c p ca] by (auto simp: config_ca_def dest: map_of_SomeD)

lemma mint_dir:
  "mint_ca_generation e c fr ca root nx d w = (w', r) \<Longrightarrow> w_dir w' = w_dir w"
  by (drule mint_frame) simp

lemma add_precheck_dir: "add_precheck e c fr purpose w = (w1, r) \<Longrightarrow> w_dir w1 = w_dir w"
  unfolding add_precheck_def Let_def
  by (auto split: sum.split_asm if_split_asm prod.split_asm dest!: mint_dir)

lemma renew_precheck_dir: "renew_precheck e c fr purpose cn w = (w1, r) \<Longrightarrow> w_dir w1 = w_dir w"
  unfolding renew_precheck_def Let_def
  by (auto split: sum.split_asm if_split_asm prod.split_asm option.split_asm dest!: mint_dir)

lemma revoke_ca_precheck_cases:
  "revoke_ca_precheck e c w sel reason = (w1, r) \<Longrightarrow>
   w1 = w \<or> (\<exists>d. w_db w = Some d \<and> w1 = w\<lparr>w_db := Some (ensure_ca_index c d)\<rparr>)"
  unfolding revoke_ca_precheck_def by (auto split: option.split_asm if_split_asm)

lemma refresh_loop_dir: "refresh_loop e tab ok js w = (w', r) \<Longrightarrow> w_dir w' = w_dir w"
proof (induction js arbitrary: ok w)
  case (Cons jk js)
  obtain j key where "jk = (j, key)" by fastforce
  with refresh_loop_Cons [OF Cons.prems [unfolded this]] Cons.IH show ?case
    by (auto dest!: put_file_cases)
qed simp

lemma prepare_dir: "prepare e c canon fr req w = (w', t) \<Longrightarrow> w_dir w' = w_dir w"
  by (cases req) (auto simp: ensure_sign_tables_def split: prod.split_asm sum.split_asm
      dest!: sign_precheck_world revoke_ca_precheck_cases add_precheck_dir renew_precheck_dir)

lemma publish_dir: "publish e sl res w = (w', r) \<Longrightarrow> w_dir w' = w_dir w"
  by (auto simp: publish_def put_file_def split: if_splits)

lemma perform_dir:
  assumes "perform e c canon fr t w = (w', evs)" and "w_db w = Some d"
  shows "w_dir w' = w_dir w"
proof (cases t)
  case (Do_issue profile cn p sans)
  with assms show ?thesis
    by (auto simp: write_leaf_def Let_def put_file_def split: sum.split_asm if_split_asm dest!: issue_locked_Inr)
next
  case (Do_sign profile who nonce p q cn an)
  with assms show ?thesis by (auto split: sum.split_asm dest!: sign_locked_Inr)
next
  case (Do_revoke target cn serial p)
  with assms show ?thesis
    by (auto simp: revoke_locked_def split: sum.split_asm prod.split_asm dest!: publish_dir)
next
  case (Do_revoke_ca p victim vc)
  with assms show ?thesis
    by (auto simp: revoke_ca_locked_def split: sum.split_asm prod.split_asm dest!: publish_dir)
next
  case (Do_refresh jobs)
  with assms show ?thesis
    by (auto simp: refresh_locked_def split: if_splits sum.splits prod.splits dest!: refresh_loop_dir)
next
  case (Do_add ca nx cert key)
  with assms show ?thesis by (auto split: sum.split_asm dest!: add_locked_Inr)
next
  case (Do_renew ca nx cert key)
  with assms show ?thesis by (auto split: sum.split_asm dest!: renew_locked_Inr)
qed

lemma keeps_purpose_table: "keeps d d' \<Longrightarrow> keeps d (d'\<lparr>db_snapshot := s\<rparr>)"
  by (simp add: keeps_def has_row_def)

text \<open>The checks of a command: what they leave of the store, and what its second half may rely on.\<close>

lemma prepare_add_keeps:
  assumes run: "prepare e c canon fr (Ask_add purpose) w = (w', t)" and d: "w_db w = Some d" "db_ok d" and c: "config_ok c"
  shows "\<exists>d'. w_db w' = Some d' \<and> keeps d d' \<and> (\<forall>u. t = Some u \<longrightarrow> task_ok d' u)"
proof -
  obtain v r where pre: "add_precheck e c fr purpose w = (v, r)" by fastforce
  with run have w': "v = w'" by (auto split: sum.split_asm)
  note pre = pre [unfolded w']
  show ?thesis
  proof (cases r)
    case (Inl x)
    have "w' = w \<or> (\<exists>d'. w_db w' = Some d' \<and> d' = (ensure_ca_index c d)\<lparr>db_snapshot := ensure_purpose_table (db_snapshot d)\<rparr>)"
      using add_precheck_frame [OF pre] d(1) by (auto dest!: add_checks_Inr)
    moreover have "t = None" using run pre by (simp add: Inl)
    moreover have "keeps d ((ensure_ca_index c d)\<lparr>db_snapshot := ensure_purpose_table (db_snapshot d)\<rparr>)"
      by (intro keeps_purpose_table keeps_ensure_ca d(2))
    ultimately show ?thesis using d keeps_refl [OF d(2)] by auto
  next
    case (Inr a)
    obtain ca nx cert key where a: "a = (ca, nx, cert, key)" by (cases a) auto
    from add_precheck_Inr [OF pre [unfolded Inr a]] obtain d1 where chk: "add_checks e c w purpose = Inr (ca, d1)"
        and db: "w_db w' = Some d1" and nx: "nx = \<lparr>gn_purpose = purpose, gn_gen = 1, gn_cn = ca_cn ca, gn_slug = ca_slug ca\<rparr>"
      by blast
    from add_checks_Inr [OF chk] d(1) have ca: "config_ca c purpose = Some ca"
        and d1: "d1 = (ensure_ca_index c d)\<lparr>db_snapshot := ensure_purpose_table (db_snapshot d)\<rparr>" by auto
    have "keeps d d1" unfolding d1 by (intro keeps_purpose_table keeps_ensure_ca d(2))
    moreover have "t = Some (Do_add ca nx cert key)" using run pre by (simp add: Inr a)
    moreover have "task_ok d1 (Do_add ca nx cert key)" using config_ca_not_root [OF c ca] by (simp add: task_ok_def nx)
    ultimately show ?thesis using db by auto
  qed
qed

lemma prepare_renew_keeps:
  assumes run: "prepare e c canon fr (Ask_renew purpose new_cn) w = (w', t)" and d: "w_db w = Some d" "db_ok d"
    and c: "initialized d" "load_config (Some (db_snapshot d)) = Inr (Some c)"
  shows "\<exists>d'. w_db w' = Some d' \<and> keeps d d' \<and> (\<forall>u. t = Some u \<longrightarrow> task_ok d' u)"
proof -
  obtain v r where pre: "renew_precheck e c fr purpose new_cn w = (v, r)" by fastforce
  with run have w': "v = w'" by (auto split: sum.split_asm)
  note pre = pre [unfolded w']
  have frame: "w' = w \<or> w_db w' = Some (ensure_ca_index c d)" using renew_precheck_frame [OF pre d(1)] by auto
  show ?thesis
  proof (cases r)
    case (Inl x)
    with run pre have "t = None" by simp
    with frame d keeps_refl [OF d(2)] keeps_ensure_ca [OF d(2)] show ?thesis by auto
  next
    case (Inr a)
    obtain ca nx cert key where a: "a = (ca, nx, cert, key)" by (cases a) auto
    note checked = renew_precheck_Inr [OF pre [unfolded Inr a] d(1)]
    then have db: "w_db w' = Some (ensure_ca_index c d)" by (auto dest!: mint_frame)
    have "gn_purpose nx = purpose" using checked by (simp add: next_generation_def)
    then have "task_ok (ensure_ca_index c d) (Do_renew ca nx cert key)"
      using locked_purpose_has_row [OF c] checked by (simp add: task_ok_def)
    moreover have "t = Some (Do_renew ca nx cert key)" using run pre by (simp add: Inr a)
    ultimately show ?thesis using db keeps_ensure_ca [OF d(2)] by auto
  qed
qed

lemma prepare_keeps:
  assumes run: "prepare e c canon fr req w = (w', t)" and d: "w_db w = Some d" "db_ok d" and on: "runs_on w req c"
  shows "\<exists>d'. w_db w' = Some d' \<and> keeps d d' \<and> (\<forall>u. t = Some u \<longrightarrow> task_ok d' u)"
proof (cases req)
  case (Ask_issue profile cn extra ov)
  with run d show ?thesis by (auto simp: task_ok_def intro: keeps_refl split: sum.split_asm prod.split_asm)
next
  case (Ask_sign profile who nonce q ov)
  then have "w' = w \<or> w' = ensure_sign_tables w" using run
    by (auto split: prod.split_asm sum.split_asm dest!: sign_precheck_world)
  moreover have "keeps d (ensure_enrollment (ensure_cert_index d))" using d(2) by (intro keeps_same_gens) simp_all
  moreover have "\<forall>u. t = Some u \<longrightarrow> task_ok d' u" for d'
    using Ask_sign run by (auto simp: task_ok_def split: prod.split_asm sum.split_asm)
  ultimately show ?thesis using d keeps_refl [OF d(2)] by (auto simp: ensure_sign_tables_def)
next
  case (Ask_revoke target cn reason serial)
  with run d show ?thesis by (auto simp: task_ok_def intro: keeps_refl split: sum.split_asm)
next
  case (Ask_revoke_ca sel reason)
  then have "w' = w \<or> w' = w\<lparr>w_db := Some (ensure_ca_index c d)\<rparr>" using run d(1)
    by (auto split: prod.split_asm sum.split_asm dest!: revoke_ca_precheck_cases)
  moreover have "\<forall>u. t = Some u \<longrightarrow> task_ok d' u" for d'
    using Ask_revoke_ca run by (auto simp: task_ok_def split: prod.split_asm sum.split_asm)
  ultimately show ?thesis using d keeps_refl [OF d(2)] keeps_ensure_ca [OF d(2)] by auto
next
  case (Ask_refresh scope)
  with run d show ?thesis by (auto simp: task_ok_def intro: keeps_refl split: sum.split_asm if_split_asm)
next
  case (Ask_add purpose)
  with prepare_add_keeps run d on show ?thesis by (simp add: runs_on_def)
next
  case (Ask_renew purpose new_cn)
  with prepare_renew_keeps run d on show ?thesis by (simp add: runs_on_def is_initialized_def)
qed

section \<open>Init\<close>

lemma index_ca_Inr: "index_ca cert kind p d = Inr d' \<Longrightarrow>
   \<exists>rs. db_cert_index d = Some rs \<and> d' = d\<lparr>db_cert_index := Some (index_cert cert kind p ''active'' 0 rs)\<rparr>"
  by (auto simp: index_ca_def rbind_Inr split: option.split_asm)

text \<open>The certificates are stored before the first of them is indexed.\<close>

definition holds :: "certificate list \<Rightarrow> db \<Rightarrow> bool" where
  "holds certs d \<longleftrightarrow> (\<forall>cert \<in> set certs. load_cert (db_store d) (x_fp cert) \<noteq> None)"

lemma index_statement_ok:
  assumes "st \<in> set (index_statements root ms @ [\<lambda>d. Inr (ensure_ca_index c d)])"
    and "db_ok d \<and> enroll_rows d = [] \<and> holds (root # map mi_cert ms) d" and "st d = Inr d'"
  shows "db_ok d' \<and> enroll_rows d' = [] \<and> holds (root # map mi_cert ms) d'"
proof -
  have idx: "db_ok (d\<lparr>db_cert_index := Some (index_cert cert kind pu ''active'' 0 rs)\<rparr>) \<and>
      holds (root # map mi_cert ms) (d\<lparr>db_cert_index := Some (index_cert cert kind pu ''active'' 0 rs)\<rparr>)"
    if "db_cert_index d = Some rs" and "cert \<in> set (root # map mi_cert ms)" for cert kind pu rs
    using assms(2) that by (auto simp: db_ok_def index_rows_def certs_keyed_index_cert holds_def intro!: stored_index)
  show ?thesis
    using assms idx unfolding index_statements_def
    by (auto simp: db_ok_ensure_ca holds_def dest!: index_ca_Inr)
qed

lemma before_statement:
  assumes "st \<in> set (before_index c p root root_key ms)" and "st d = Inr d'"
  shows "index_rows d' = index_rows d \<and> gen_rows d' = gen_rows d \<and> enroll_rows d' = enroll_rows d \<and>
     (stored rs (db_store d) \<longrightarrow> stored rs (db_store d')) \<and> (holds certs d \<longrightarrow> holds certs d')"
  using assms unfolding before_index_def
  by (auto simp: store_ca_def in_store_def in_snapshot_def rbind_Inr holds_def ks.get_put_cert ks.get_put_key
      stored_put split: if_split_asm)

lemma before_index_ok:
  assumes "run_statements n (before_index c p root root_key ms) fresh_db = (d, ok)"
  shows "db_ok d \<and> enroll_rows d = []"
proof -
  let ?P = "\<lambda>d. index_rows d = [] \<and> gen_rows d = [] \<and> enroll_rows d = [] \<and> stored [] (db_store d)"
  have "?P fresh_db"
    by (simp add: fresh_db_def index_rows_def gen_rows_def enroll_rows_def stored_def load_cert_def)
  then have "?P (fst (run_statements n (before_index c p root root_key ms) fresh_db))"
    by (rule run_statements_keeps [rotated]) (use before_statement in metis)
  with assms show ?thesis by (simp add: db_ok_def certs_keyed_def)
qed

lemma before_index_holds:
  assumes run: "run_statements (length (before_index c p root root_key ms)) (before_index c p root root_key ms) fresh_db = (d, True)"
  shows "holds (root # map mi_cert ms) d"
proof -
  have "holds [cert] d" if "cert \<in> set (root # map mi_cert ms)" for cert
  proof (rule run_statements_reaches [OF run])
    show "in_store (insert_cert cert) \<in> set (before_index c p root root_key ms)"
      using that by (auto simp: before_index_def store_ca_def)
    show "holds [cert] b" if "in_store (insert_cert cert) a = Inr b" for a b
      using that by (auto simp: in_store_def holds_def ks.get_put_cert)
    show "holds [cert] b" if "s \<in> set (before_index c p root root_key ms)" "holds [cert] a" "s a = Inr b" for s a b
      using before_statement [OF that(1,3)] that(2) by blast
  qed
  then show ?thesis by (auto simp: holds_def)
qed

lemma create_store_world:
  assumes "create_store e n c root key ms w = (w', r)"
  shows "w_dir w' = Dir_used \<and> (\<exists>d. w_db w' = Some d \<and> db_ok d \<and> enroll_rows d = [])"
proof -
  let ?A = "before_index c (sec_passphrase (e_secrets e)) root key ms"
  let ?B = "index_statements root ms @ [\<lambda>d. Inr (ensure_ca_index c d)]"
  obtain d ok where run: "run_statements n (create_statements c (sec_passphrase (e_secrets e)) root key ms) fresh_db = (d, ok)"
    by fastforce
  have "db_ok d \<and> enroll_rows d = []"
  proof (cases "run_statements n ?A fresh_db = (d, ok)")
    case True
    then show ?thesis by (rule before_index_ok)
  next
    case False
    with run_statements_parts [of n ?A ?B fresh_db] run obtain d1 m where d1: "run_statements (length ?A) ?A fresh_db = (d1, True)"
        and rest: "run_statements m ?B d1 = (d, ok)"
      by (auto simp: create_statements_split)
    have "db_ok d1 \<and> enroll_rows d1 = [] \<and> holds (root # map mi_cert ms) d1"
      using before_index_ok [OF d1] before_index_holds [OF d1] by blast
    then have "db_ok (fst (run_statements m ?B d1)) \<and> enroll_rows (fst (run_statements m ?B d1)) = [] \<and>
        holds (root # map mi_cert ms) (fst (run_statements m ?B d1))"
      by (rule run_statements_keeps [rotated]) (rule index_statement_ok)
    with rest show ?thesis by simp
  qed
  with assms run show ?thesis
    by (auto simp: create_store_def split: bool.split_asm dest!: write_minted_result)
qed

lemma create_world:
  assumes "create e n c fr w = (w', r)"
  shows "w_db w' = w_db w \<or> w_dir w' = Dir_used \<and> (\<exists>d. w_db w' = Some d \<and> db_ok d \<and> enroll_rows d = [])"
  using assms unfolding create_def Let_def
  by (auto split: sum.split_asm if_split_asm prod.split_asm dest!: create_store_world)

lemma init_world:
  assumes "init e n raw c fr w = (w', shown, r)" and "w_db w \<noteq> None \<Longrightarrow> w_dir w = Dir_used"
  shows "w' = w \<or> w_db w = None \<and>
    (w_db w' = None \<or> w_dir w' = Dir_used \<and> (\<exists>d. w_db w' = Some d \<and> db_ok d \<and> enroll_rows d = []))"
proof (cases "w' = w")
  case False
  with assms(1) have run: "init_run e n raw c fr w = (w', shown, r)" and "w_dir w = Dir_absent \<or> w_dir w = Dir_empty"
    by (auto simp: init_def split: if_split_asm option.split_asm)
  with assms(2) have none: "w_db w = None" by (cases "w_db w") auto
  obtain e' v s where cr: "create e' n c fr (w\<lparr>w_dir := Dir_empty\<rparr>) = (v, s)" and "v = w'"
    using run unfolding init_run_def Let_def by (auto split: prod.split_asm sum.split_asm)
  with create_world [OF cr] none show ?thesis by auto
qed simp

section \<open>Tables in order\<close>

definition sys_ok :: "system \<Rightarrow> bool" where
  "sys_ok s \<longleftrightarrow> (case w_db (sy_world s) of None \<Rightarrow> sy_tasks s = []
     | Some d \<Rightarrow> w_dir (sy_world s) = Dir_used \<and> db_ok d \<and> (\<forall>t \<in> set (sy_tasks s). task_ok d t))"

lemma task_ok_keeps: "task_ok d t \<Longrightarrow> keeps d d' \<Longrightarrow> task_ok d' t"
  by (auto simp: task_ok_def keeps_def split: task.splits)

lemma sys_ok_keeps:
  assumes "sys_ok s" and "w_db (sy_world s) = Some d" and "w_db w' = Some d'" and "w_dir w' = w_dir (sy_world s)"
    and "keeps d d'" and "\<And>t. t \<in> set ts \<Longrightarrow> t \<in> set (sy_tasks s) \<or> task_ok d' t"
  shows "sys_ok \<lparr>sy_world = w', sy_tasks = ts, sy_log = l\<rparr>"
  using assms task_ok_keeps [OF _ assms(5)] by (fastforce simp: sys_ok_def keeps_def)

lemma enroll_Inr:
  assumes "enroll e who w = Inr w'"
  shows "\<exists>d rs r. w_db w = Some d \<and> db_enrollment (ensure_enrollment d) = Some rs \<and>
     enrolled who d = None \<and> n_id r = who \<and> n_consumed r = 1 \<and>
     w' = w\<lparr>w_db := Some ((ensure_enrollment d)\<lparr>db_enrollment := Some (rs @ [r])\<rparr>)\<rparr>"
proof -
  let ?r = "\<lparr>n_id = who, n_role = ''ee'', n_created = e_clock e 0, n_nonce = None, n_issued = 0, n_validity = 0, n_consumed = 1\<rparr>"
  from assms obtain d where d: "w_db w = Some d" "enrolled who d = None"
    and w': "w' = w\<lparr>w_db := Some ((ensure_enrollment d)\<lparr>db_enrollment := map_option (\<lambda>rs. rs @ [?r]) (db_enrollment (ensure_enrollment d))\<rparr>)\<rparr>"
    by (auto simp: enroll_def Let_def split: if_split_asm option.split_asm)
  obtain rs where "db_enrollment (ensure_enrollment d) = Some rs" by (simp add: ensure_enrollment_def)
  with d w' show ?thesis by (intro exI [of _ d] exI [of _ rs] exI [of _ ?r]) simp
qed

lemma get_nonce_Inr:
  "get_nonce e raw who w = Inr (w', n) \<Longrightarrow> \<exists>d0 r. w_db w = Some d0 \<and> enrolled who d0 = Some r \<and>
     (reusable r (e_clock e 0) \<and> n = row_nonce r \<and> w' = w\<lparr>w_db := Some (ensure_enrollment d0)\<rparr> \<or>
      n = raw \<and> w' = w\<lparr>w_db := Some (set_enrollment who (\<lambda>r. r\<lparr>n_nonce := Some raw,
                       n_issued := e_clock e 0, n_validity := max_nonce_validity, n_consumed := 0\<rparr>) (ensure_enrollment d0))\<rparr>)"
  by (auto simp: get_nonce_def Let_def split: if_split_asm option.split_asm)

lemma enroll_rows_ensure_Some: "db_enrollment (ensure_enrollment d) = Some rs \<Longrightarrow> enroll_rows d = rs"
  by (auto simp: enroll_rows_def ensure_enrollment_def split: option.split_asm)

lemma enrolled_rows: "enrolled who d = find (\<lambda>r. n_id r = who) (enroll_rows d)"
  by (simp add: enrolled_def enroll_rows_def split: option.split)

lemma enroll_keeps:
  assumes "enroll e who w = Inr w'" and "w_db w = Some d" "db_ok d"
  shows "w_dir w' = w_dir w \<and> (\<exists>d'. w_db w' = Some d' \<and> keeps d d')"
proof -
  from enroll_Inr [OF assms(1)] assms(2) obtain rs r where rs: "db_enrollment (ensure_enrollment d) = Some rs"
      and new: "enrolled who d = None" "n_id r = who"
      and w': "w' = w\<lparr>w_db := Some ((ensure_enrollment d)\<lparr>db_enrollment := Some (rs @ [r])\<rparr>)\<rparr>" by auto
  have "who \<notin> n_id ` set rs" using new(1) enroll_rows_ensure_Some [OF rs] by (auto simp: enrolled_rows find_None_iff)
  then have "db_ok ((ensure_enrollment d)\<lparr>db_enrollment := Some (rs @ [r])\<rparr>)"
    using assms(3) enroll_rows_ensure_Some [OF rs] new(2) by (simp add: db_ok_def enroll_rows_def)
  then show ?thesis by (simp add: w' keeps_same_gens)
qed

lemma get_nonce_keeps:
  assumes "get_nonce e raw who w = Inr (w', n)" and "w_db w = Some d" "db_ok d"
  shows "w_dir w' = w_dir w \<and> (\<exists>d'. w_db w' = Some d' \<and> keeps d d')"
proof -
  have "db_ok (set_enrollment who f (ensure_enrollment d))" if "\<And>r. n_id (f r) = n_id r" for f
    using assms(3) by (simp add: db_ok_def enroll_rows_set [OF that])
  moreover have "db_ok (ensure_enrollment d)" using assms(3) by simp
  ultimately show ?thesis using get_nonce_Inr [OF assms(1)] assms(2) by (fastforce intro!: keeps_same_gens)
qed

lemma sys_ok_start: "sys_start s \<Longrightarrow> sys_ok s"
  by (auto simp: sys_start_def blank_def new_system_def sys_ok_def)

lemma sys_ok_task:
  assumes "sys_ok s" and "t \<in> set (sy_tasks s)"
  shows "\<exists>d. w_db (sy_world s) = Some d \<and> db_ok d \<and> task_ok d t"
  using assms by (cases "w_db (sy_world s)") (auto simp: sys_ok_def)

lemma system_upd:
  "s\<lparr>sy_world := w\<rparr> = \<lparr>sy_world = w, sy_tasks = sy_tasks s, sy_log = sy_log s\<rparr>"
  "s\<lparr>sy_world := w, sy_tasks := ts\<rparr> = \<lparr>sy_world = w, sy_tasks = ts, sy_log = sy_log s\<rparr>"
  "s\<lparr>sy_world := w, sy_log := l\<rparr> = \<lparr>sy_world = w, sy_tasks = sy_tasks s, sy_log = l\<rparr>"
  "s\<lparr>sy_world := w, sy_tasks := ts, sy_log := l\<rparr> = \<lparr>sy_world = w, sy_tasks = ts, sy_log = l\<rparr>"
  by simp_all

lemma sys_ok_step: "sys_ok s \<Longrightarrow> sys_step s s' \<Longrightarrow> sys_ok s'"
proof (erule sys_stepE)
  fix e n raw c fr w' shown r
  assume ok: "sys_ok s" and run: "init e n raw c fr (sy_world s) = (w', shown, r)" and s': "s' = s\<lparr>sy_world := w'\<rparr>"
  have dir: "w_db (sy_world s) \<noteq> None \<Longrightarrow> w_dir (sy_world s) = Dir_used"
    using ok by (auto simp: sys_ok_def)
  from init_world [OF run dir] ok s' show "sys_ok s'"
    by (auto simp: sys_ok_def split: option.split_asm)
next
  fix e who w'
  assume ok: "sys_ok s" and init: "is_initialized (sy_world s)" and run: "enroll e who (sy_world s) = Inr w'" and s': "s' = s\<lparr>sy_world := w'\<rparr>"
  from init obtain d where d: "w_db (sy_world s) = Some d" by (auto simp: is_initialized_def split: option.split_asm)
  with ok have "db_ok d" by (simp add: sys_ok_def)
  from enroll_keeps [OF run d this] obtain d' where "w_dir w' = w_dir (sy_world s)" "w_db w' = Some d'" "keeps d d'" by blast
  then show "sys_ok s'" unfolding s' system_upd(1) by (intro sys_ok_keeps [OF ok d]) auto
next
  fix e raw who w' nonce
  assume ok: "sys_ok s" and init: "is_initialized (sy_world s)" and run: "get_nonce e raw who (sy_world s) = Inr (w', nonce)"
    and s': "s' = s\<lparr>sy_world := w', sy_log := lease_log (sy_world s) who nonce @ sy_log s\<rparr>"
  from init obtain d where d: "w_db (sy_world s) = Some d" by (auto simp: is_initialized_def split: option.split_asm)
  with ok have "db_ok d" by (simp add: sys_ok_def)
  from get_nonce_keeps [OF run d this] obtain d' where "w_dir w' = w_dir (sy_world s)" "w_db w' = Some d'" "keeps d d'" by blast
  then show "sys_ok s'" unfolding s' system_upd(3) by (intro sys_ok_keeps [OF ok d]) auto
next
  fix req c e canon fr w' t
  assume ok: "sys_ok s" and on: "runs_on (sy_world s) req c" and run: "prepare e c canon fr req (sy_world s) = (w', t)"
    and s': "s' = s\<lparr>sy_world := w', sy_tasks := (case t of None \<Rightarrow> sy_tasks s | Some t \<Rightarrow> t # sy_tasks s)\<rparr>"
  from on obtain d where d: "w_db (sy_world s) = Some d" by (auto simp: runs_on_def is_initialized_def split: option.split_asm)
  with ok have "db_ok d" by (simp add: sys_ok_def)
  from prepare_keeps [OF run d this on] obtain d' where "w_db w' = Some d'" "keeps d d'" "\<forall>u. t = Some u \<longrightarrow> task_ok d' u" by blast
  then show "sys_ok s'" unfolding s' system_upd(2)
    by (intro sys_ok_keeps [OF ok d] prepare_dir [OF run]) (auto split: option.split_asm)
next
  fix t e c canon fresh w' evs
  assume ok: "sys_ok s" and t: "t \<in> set (sy_tasks s)" and run: "perform e c canon fresh t (sy_world s) = (w', evs)"
    and s': "s' = s\<lparr>sy_world := w', sy_tasks := remove1 t (sy_tasks s), sy_log := evs @ sy_log s\<rparr>"
  from sys_ok_task [OF ok t] obtain d where d: "w_db (sy_world s) = Some d" "db_ok d" "task_ok d t" by blast
  from perform_keeps [OF run d] obtain d' where "w_db w' = Some d'" "keeps d d'" by blast
  then show "sys_ok s'" unfolding s' system_upd(4)
    by (intro sys_ok_keeps [OF ok d(1)] perform_dir [OF run d(1)]) (auto dest: notin_set_remove1 set_remove1_subset [THEN subsetD])
next
  fix t
  assume ok: "sys_ok s" and "s' = s\<lparr>sy_tasks := remove1 t (sy_tasks s)\<rparr>"
  then show "sys_ok s'" using set_remove1_subset [of t "sy_tasks s"] by (auto simp: sys_ok_def split: option.splits)
qed

interpretation tables: invariant sys_start sys_step sys_ok
  by unfold_locales (auto intro: sys_ok_start sys_ok_step)

section \<open>The account of the nonces\<close>

text \<open>An identity has no nonce, or one that is pending; one is granted at a time and each is spent at most
  once.\<close>

fun lease_event :: "event \<Rightarrow> bool" where
  "lease_event (Leased _ _) = True"
| "lease_event (Signed _ _ _) = True"
| "lease_event _ = False"

inductive lease_step :: "(string \<rightharpoonup> lease) \<Rightarrow> event list \<Rightarrow> (string \<rightharpoonup> lease) \<Rightarrow> bool" where
  Stay: "\<forall>ev \<in> set evs. \<not> lease_event ev \<Longrightarrow> lease_step L evs L"
| Enrol: "L who = None \<Longrightarrow> lease_step L [] (L(who \<mapsto> Spent))"
| Grant: "L who = Some l \<Longrightarrow> l \<noteq> Pending n \<Longrightarrow> lease_step L [Leased who n] (L(who \<mapsto> Pending n))"
| Spend: "L who = Some (Pending n) \<Longrightarrow> lease_step L [Signed who n fp] (L(who \<mapsto> Spent))"

inductive_cases lease_stepE: "lease_step L evs L'"

lemma leases_Some: "w_db w = Some d \<Longrightarrow> leases w who = map_option lease_of (enrolled who d)"
  by (simp add: leases_def)

lemma leases_cong:
  assumes "w_db w = Some d" and "w_db w' = Some d'" and "enroll_rows d' = enroll_rows d"
  shows "leases w' = leases w"
  using assms by (simp add: fun_eq_iff leases_Some enrolled_rows)

lemma enrolled_upd:
  assumes "w_db w = Some d" and "w_db w' = Some d'" and "\<And>who2. who2 \<noteq> who \<Longrightarrow> enrolled who2 d' = enrolled who2 d"
    and "map_option lease_of (enrolled who d') = Some l"
  shows "leases w' = (leases w)(who \<mapsto> l)"
  using assms by (auto simp: fun_eq_iff leases_Some)

lemma prepare_leases:
  assumes run: "prepare e c canon fr req w = (w', t)" and d: "w_db w = Some d"
  shows "leases w' = leases w"
proof -
  have "w' = w \<or> (\<exists>d'. w_db w' = Some d' \<and> enroll_rows d' = enroll_rows d)"
  proof (cases req)
    case (Ask_sign profile who nonce q ov)
    with run d show ?thesis by (auto simp: ensure_sign_tables_def split: prod.split_asm sum.split_asm dest!: sign_precheck_world)
  next
    case (Ask_revoke_ca sel reason)
    with run d show ?thesis by (auto split: prod.split_asm sum.split_asm dest!: revoke_ca_precheck_cases)
  next
    case (Ask_add purpose)
    with run d show ?thesis by (auto split: prod.split_asm sum.split_asm dest!: add_precheck_frame add_checks_Inr)
  next
    case (Ask_renew purpose new_cn)
    have "w1 = w \<or> (\<exists>d'. w_db w1 = Some d' \<and> enroll_rows d' = enroll_rows d)"
      if "renew_precheck e c fr purpose new_cn w = (w1, r)" for w1 r
      using renew_precheck_frame [OF that d] by auto
    with run Ask_renew show ?thesis by (auto split: prod.split_asm sum.split_asm)
  qed (use run in auto)
  with leases_cong [OF d] show ?thesis by auto
qed

lemma revoke_rows:
  "revoke_locked e target cn serial p w = (w', r) \<Longrightarrow> w_db w = Some d \<Longrightarrow>
   \<exists>d'. w_db w' = Some d' \<and> enroll_rows d' = enroll_rows d"
  by (cases "revoke_next e target cn serial p w")
    (auto simp: revoke_locked_def dest!: publish_db revoke_next_Inr)

lemma revoke_ca_rows:
  "revoke_ca_locked e p victim vc w = (w', r) \<Longrightarrow> w_db w = Some d \<Longrightarrow>
   \<exists>d'. w_db w' = Some d' \<and> enroll_rows d' = enroll_rows d"
  by (cases "revoke_ca_next e p victim vc w")
    (auto simp: revoke_ca_locked_def dest!: publish_db revoke_ca_next_Inr)

lemma refresh_rows:
  "refresh_locked e jobs w = (w', r) \<Longrightarrow> w_db w = Some d \<Longrightarrow> w_db w' = Some d"
  by (auto simp: refresh_locked_def split: if_split_asm sum.split_asm prod.split_asm dest!: refresh_loop_db)

lemma issue_rows:
  assumes "issue_locked e c canon fr profile cn p sans w = Inr (w', cert, ok)" and "w_db w = Some d"
  shows "\<exists>d'. w_db w' = Some d' \<and> enroll_rows d' = enroll_rows d"
proof -
  from issue_locked_Inr [OF assms(1)] assms(2) have "(w', ok) = write_leaf e cn cert (f_pub fr)
       (w\<lparr>w_db := Some (record_cert cert profile (gn_purpose (pl_gen p)) (ensure_cert_index d))\<rparr>)" by auto
  then show ?thesis by (auto simp: write_leaf_def Let_def put_file_def split: if_splits)
qed

lemma sign_leases:
  assumes run: "sign_locked e c fr profile who nonce p q cn an w = Inr (w', cert)"
  shows "leases w who = Some (Pending nonce) \<and> leases w' = (leases w)(who \<mapsto> Spent)"
proof -
  from sign_locked_Inr [OF run] obtain d0 where d0: "w_db w = Some d0"
    and chk: "check_nonce (ensure_enrollment (ensure_cert_index d0)) who nonce (e_clock e 3) = Inr ()"
    and w': "w_db w' = Some (consume who (record_cert cert profile (gn_purpose (pl_gen p)) (ensure_enrollment (ensure_cert_index d0))))"
    by auto
  from chk obtain r where r: "enrolled who d0 = Some r" "nonce_valid r nonce (e_clock e 3)"
    by (auto simp: check_nonce_Inr)
  let ?d = "record_cert cert profile (gn_purpose (pl_gen p)) (ensure_enrollment (ensure_cert_index d0))"
  have "enrolled who (consume who ?d) = Some (r\<lparr>n_consumed := 1\<rparr>)"
    unfolding consume_def by (subst enrolled_set) (simp_all add: r(1))
  then have "leases w' = (leases w)(who \<mapsto> Spent)"
    by (intro enrolled_upd [OF d0 w']) (simp_all add: enrolled_consume lease_of_def)
  moreover have "leases w who = Some (Pending nonce)"
    using r by (simp add: leases_Some [OF d0] lease_of_def nonce_valid_def)
  ultimately show ?thesis by simp
qed

lemma perform_leases:
  assumes run: "perform e c canon fr t w = (w', evs)" and d: "w_db w = Some d"
  shows "lease_step (leases w) evs (leases w')"
proof -
  have "(\<forall>ev \<in> set evs. \<not> lease_event ev) \<and> (\<exists>d'. w_db w' = Some d' \<and> enroll_rows d' = enroll_rows d) \<or>
      (\<exists>who n fp. leases w who = Some (Pending n) \<and> evs = [Signed who n fp] \<and> leases w' = (leases w)(who \<mapsto> Spent))"
  proof (cases t)
    case (Do_issue profile cn p sans)
    with run d show ?thesis by (auto split: sum.split_asm dest!: issue_rows)
  next
    case (Do_sign profile who nonce p q cn an)
    with run d show ?thesis by (auto split: sum.split_asm dest!: sign_leases)
  next
    case (Do_revoke target cn serial p)
    with run d show ?thesis by (auto split: sum.split_asm prod.split_asm dest!: revoke_rows)
  next
    case (Do_revoke_ca p victim vc)
    with run d show ?thesis by (auto split: sum.split_asm prod.split_asm dest!: revoke_ca_rows)
  next
    case (Do_refresh jobs)
    with run d refresh_rows [of e jobs w w' "snd (refresh_locked e jobs w)" d] show ?thesis by auto
  next
    case (Do_add ca nx cert key)
    with run d show ?thesis by (auto simp: enroll_rows_def split: sum.split_asm dest!: add_locked_Inr)
  next
    case (Do_renew ca nx cert key)
    with run d show ?thesis by (auto simp: enroll_rows_def split: sum.split_asm dest!: renew_locked_Inr)
  qed
  with leases_cong [OF d] show ?thesis by (auto intro: lease_step.intros)
qed

lemma enroll_leases:
  assumes "enroll e who w = Inr w'"
  shows "lease_step (leases w) [] (leases w')"
proof -
  from enroll_Inr [OF assms] obtain d rs r where d: "w_db w = Some d" and rs: "db_enrollment (ensure_enrollment d) = Some rs"
      and new: "enrolled who d = None" "n_id r = who" "n_consumed r = 1"
      and w': "w_db w' = Some ((ensure_enrollment d)\<lparr>db_enrollment := Some (rs @ [r])\<rparr>)" by auto
  have rows: "enroll_rows d = rs" by (rule enroll_rows_ensure_Some [OF rs])
  have find: "find P (xs @ [x]) = (case find P xs of None \<Rightarrow> if P x then Some x else None | Some y \<Rightarrow> Some y)" for P :: "enroll_row \<Rightarrow> bool" and xs x
    by (induction xs) auto
  have "enroll_rows ((ensure_enrollment d)\<lparr>db_enrollment := Some (rs @ [r])\<rparr>) = rs @ [r]" by (simp add: enroll_rows_def)
  then have "leases w' = (leases w)(who \<mapsto> Spent)"
    using new by (intro enrolled_upd [OF d w']) (simp_all add: enrolled_rows rows find lease_of_def split: option.split)
  moreover have "leases w who = None" using new(1) by (simp add: leases_Some [OF d])
  ultimately show ?thesis by (simp add: Enrol)
qed

lemma get_nonce_leases:
  assumes run: "get_nonce e raw who w = Inr (w', n)" and raw: "nul_free raw"
  shows "\<exists>l. leases w who = Some l \<and> leases w' = (leases w)(who \<mapsto> Pending n)"
proof -
  from get_nonce_Inr [OF run] obtain d r where d: "w_db w = Some d" and r: "enrolled who d = Some r"
    and cases: "reusable r (e_clock e 0) \<and> n = row_nonce r \<and> w_db w' = Some (ensure_enrollment d) \<or>
      n = raw \<and> w_db w' = Some (set_enrollment who (\<lambda>r. r\<lparr>n_nonce := Some raw,
                       n_issued := e_clock e 0, n_validity := max_nonce_validity, n_consumed := 0\<rparr>) (ensure_enrollment d))"
    by auto
  let ?f = "\<lambda>r. r\<lparr>n_nonce := Some raw, n_issued := e_clock e 0, n_validity := max_nonce_validity, n_consumed := 0\<rparr>"
  have "enrolled who (set_enrollment who ?f (ensure_enrollment d)) = Some (?f r)"
    by (subst enrolled_set) (simp_all add: r)
  note own = this
  have others: "who2 \<noteq> who \<Longrightarrow> enrolled who2 (set_enrollment who ?f (ensure_enrollment d)) = enrolled who2 d" for who2
    by (subst enrolled_set) simp_all
  from cases have "leases w' = (leases w)(who \<mapsto> Pending n)"
  proof (elim disjE conjE)
    assume "reusable r (e_clock e 0)" "n = row_nonce r" "w_db w' = Some (ensure_enrollment d)"
    then show ?thesis by (intro enrolled_upd [OF d, where d' = "ensure_enrollment d"]) (simp_all add: r lease_of_def reusable_def Let_def)
  next
    assume "n = raw" "w_db w' = Some (set_enrollment who ?f (ensure_enrollment d))"
    then show ?thesis using own others raw
      by (intro enrolled_upd [OF d, where d' = "set_enrollment who ?f (ensure_enrollment d)"]) (simp_all add: lease_of_def row_nonce_def)
  qed
  then show ?thesis by (simp add: leases_Some [OF d] r)
qed

lemma leases_empty: "enroll_rows d = [] \<Longrightarrow> w_db w = Some d \<Longrightarrow> leases w = Map.empty"
  by (simp add: fun_eq_iff leases_Some enrolled_rows)

section \<open>Properties of the running system\<close>

lemma sys_step_leases:
  "sys_ok s \<Longrightarrow> sys_step s s' \<Longrightarrow>
   \<exists>evs. sy_log s' = evs @ sy_log s \<and> lease_step (leases (sy_world s)) evs (leases (sy_world s'))"
proof -
  assume ok: "sys_ok s" and step: "sys_step s s'"
  have stay: "lease_step L [] L" for L by (simp add: Stay)
  from step show ?thesis
  proof cases
    case (Init e n raw c fr w' shown r)
    have dir: "w_db (sy_world s) \<noteq> None \<Longrightarrow> w_dir (sy_world s) = Dir_used" using ok by (auto simp: sys_ok_def)
    have "leases w' = leases (sy_world s)"
      using init_world [OF Init(2) dir] leases_empty [of _ w'] by (auto simp: leases_def fun_eq_iff)
    with Init(1) stay show ?thesis by simp
  next
    case (Enroll e who w')
    with enroll_leases show ?thesis by auto
  next
    case (Lease e raw who w' nonce)
    from get_nonce_leases [OF Lease(3,4)] obtain l where l: "leases (sy_world s) who = Some l"
        "leases w' = (leases (sy_world s))(who \<mapsto> Pending nonce)" by blast
    show ?thesis
    proof (cases "l = Pending nonce")
      case True
      with l stay show ?thesis by (simp add: Lease(1) lease_log_def fun_upd_idem)
    next
      case False
      with l Grant [of "leases (sy_world s)" who l nonce] show ?thesis by (simp add: Lease(1) lease_log_def)
    qed
  next
    case (Start req c e canon fr w' t)
    from Start(2) obtain d where "w_db (sy_world s) = Some d" by (auto simp: runs_on_def is_initialized_def split: option.split_asm)
    from prepare_leases [OF Start(3) this] stay show ?thesis by (simp add: Start(1))
  next
    case (Finish t e c canon fresh w' evs)
    from sys_ok_task [OF ok Finish(2)] obtain d where "w_db (sy_world s) = Some d" by blast
    from perform_leases [OF Finish(3) this] show ?thesis by (simp add: Finish(1))
  next
    case (Crash t)
    with stay show ?thesis by simp
  qed
qed

lemma reachable_ok: "reachable s \<Longrightarrow> sys_ok s"
  unfolding reachable_runs by (rule tables.always_good)

text \<open>C4. The tables stay in order under every interleaving of commands, crashes and failures: in every
  reachable state no two certificates share a fingerprint, no two generations share purpose and number, no
  two enrollments share an identity, no purpose has two active generations, every purpose that has a
  generation has its first one, and every certificate of the index is stored under its fingerprint.\<close>

theorem tables_in_order:
  "reachable s \<Longrightarrow> w_db (sy_world s) = Some d \<Longrightarrow>
   distinct (map r_fp (index_rows d)) \<and>
   distinct (map (\<lambda>g. (g_kind g, g_purpose g, g_gen g)) (gen_rows d)) \<and>
   distinct (map n_id (enroll_rows d)) \<and>
   (\<forall>p. length (filter (\<lambda>g. g_purpose g = p \<and> g_status g = ''active'') (gen_rows d)) \<le> 1) \<and>
   (\<forall>g \<in> set (gen_rows d). g_purpose g \<noteq> ''root'' \<longrightarrow>
      (\<exists>h \<in> set (gen_rows d). g_kind h = ''signing'' \<and> g_purpose h = g_purpose g \<and> g_gen h = 1)) \<and>
   (\<forall>r \<in> set (index_rows d). \<exists>cert. load_cert (db_store d) (r_fp r) = Some cert \<and> x_fp cert = r_fp r)"
proof -
  assume s: "reachable s" and d: "w_db (sy_world s) = Some d"
  from s have "sys_ok s" by (rule reachable_ok)
  then have "db_ok d" using d by (simp add: sys_ok_def)
  then show ?thesis unfolding db_ok_def gens_ok_def certs_keyed_def active_gens_def gen_key_def stored_def by blast
qed

text \<open>C5. The store implements the account of nonces: whatever step of whatever command is taken in a
  reachable state, the account stands still, enrolls one identity without a nonce, grants one identity the
  one nonce that is logged as handed out, or spends the one pending nonce that is logged as having bought a
  certificate.\<close>

theorem lease_refinement:
  "reachable s \<Longrightarrow> sys_step s s' \<Longrightarrow>
   \<exists>evs. sy_log s' = evs @ sy_log s \<and> lease_step (leases (sy_world s)) evs (leases (sy_world s'))"
  by (intro sys_step_leases reachable_ok)

fun spends :: "string \<Rightarrow> string \<Rightarrow> event \<Rightarrow> bool" where
  "spends who n (Signed who2 m fp) \<longleftrightarrow> who2 = who \<and> m = n"
| "spends who n _ \<longleftrightarrow> False"

definition times_signed :: "string \<Rightarrow> string \<Rightarrow> event list \<Rightarrow> nat" where
  "times_signed who n log = length (filter (spends who n) log)"

definition times_leased :: "string \<Rightarrow> string \<Rightarrow> event list \<Rightarrow> nat" where
  "times_leased who n log = length (filter (\<lambda>ev. ev = Leased who n) log)"

definition pending :: "(string \<rightharpoonup> lease) \<Rightarrow> string \<Rightarrow> string \<Rightarrow> nat" where
  "pending L who n = (if L who = Some (Pending n) then 1 else 0)"

lemma no_lease_event:
  assumes "\<forall>ev \<in> set evs. \<not> lease_event ev"
  shows "times_signed who n evs = 0 \<and> times_leased who n evs = 0"
proof -
  have "\<not> spends who n ev \<and> ev \<noteq> Leased who n" if "\<not> lease_event ev" for ev
    using that by (cases ev) auto
  with assms show ?thesis by (auto simp: times_signed_def times_leased_def filter_empty_conv)
qed

lemma lease_step_account:
  "lease_step L evs L' \<Longrightarrow> times_signed who n evs + pending L' who n \<le> times_leased who n evs + pending L who n"
proof (erule lease_stepE)
  assume "L' = L" and "\<forall>ev \<in> set evs. \<not> lease_event ev"
  with no_lease_event [of evs who n] show ?thesis by simp
qed (auto simp: times_signed_def times_leased_def pending_def)

text \<open>C2. No nonce buys two certificates, however the commands of several processes interleave: in every
  reachable state an identity has had at most as many certificates signed on a nonce as it was handed that
  nonce, counting a nonce that is still pending as one to come.\<close>

theorem nonce_account:
  "reachable s \<Longrightarrow>
   times_signed who n (sy_log s) + pending (leases (sy_world s)) who n \<le> times_leased who n (sy_log s)"
proof (induction rule: reachable.induct)
  case (Begin s)
  then show ?case
    by (auto simp: sys_start_def blank_def new_system_def times_signed_def pending_def leases_def)
next
  case (Step s s')
  from sys_step_leases [OF reachable_ok [OF Step.hyps(1)] Step.hyps(2)] obtain evs where log: "sy_log s' = evs @ sy_log s"
      and step: "lease_step (leases (sy_world s)) evs (leases (sy_world s'))" by blast
  from lease_step_account [OF step, of who n] Step.IH show ?case
    by (simp add: log times_signed_def times_leased_def)
qed

section \<open>A run\<close>

definition run1 :: world where
  "run1 = fst sample_init"

definition run2 :: world where
  "run2 = (case enroll (sample_env 2100) ''acme'' run1 of Inr w \<Rightarrow> w | Inl _ \<Rightarrow> run1)"

definition run3 :: world where
  "run3 = (case get_nonce (sample_env 2200) ''c0ffee'' ''acme'' run2 of Inr (w, _) \<Rightarrow> w | Inl _ \<Rightarrow> run2)"

definition run_ask :: request where
  "run_ask = Ask_sign ''server'' ''acme'' ''c0ffee''
     (csr_request sample_config (\<lambda>_. Some sample_csr) ''server'' (Inr ''-----BEGIN'') None) None"

definition run4 :: "world \<times> task option" where
  "run4 = prepare (sample_env 2210) sample_config Some sample_fresh_of run_ask run3"

definition run5 :: "world \<times> event list" where
  "run5 = (case snd run4 of Some t \<Rightarrow> perform (sample_env 2220) sample_config Some (sample_fresh_of 9) t (fst run4)
     | None \<Rightarrow> (fst run4, []))"

lemma run2: "enroll (sample_env 2100) ''acme'' run1 = Inr run2"
proof -
  have "\<exists>x. enroll (sample_env 2100) ''acme'' run1 = Inr x" by (rule is_okI) code_simp
  then show ?thesis by (auto simp: run2_def)
qed

lemma run3: "get_nonce (sample_env 2200) ''c0ffee'' ''acme'' run2 = Inr (run3, ''c0ffee'')"
proof -
  have "case get_nonce (sample_env 2200) ''c0ffee'' ''acme'' run2 of Inr (_, n) \<Rightarrow> n = ''c0ffee'' | Inl _ \<Rightarrow> False" by code_simp
  then show ?thesis by (auto simp: run3_def split: sum.splits prod.splits)
qed

lemma run5: "snd run5 = [Signed ''acme'' ''c0ffee'' ''fp-9'']"
  by code_simp

lemma run3_ready: "is_initialized run3 \<and> (case w_db run3 of None \<Rightarrow> False | Some d \<Rightarrow>
    (case load_config (Some (db_snapshot d)) of Inr (Some c) \<Rightarrow> c = sample_config | _ \<Rightarrow> False))"
  by code_simp

lemma run2_lease: "lease_log run2 ''acme'' ''c0ffee'' = [Leased ''acme'' ''c0ffee'']"
proof -
  have "leases run2 ''acme'' = Some Spent" by code_simp
  then show ?thesis by (simp add: lease_log_def)
qed

definition run_done :: system where
  "run_done = \<lparr>sy_world = fst run5, sy_tasks = [],
     sy_log = [Signed ''acme'' ''c0ffee'' ''fp-9'', Leased ''acme'' ''c0ffee'']\<rparr>"

definition run_leased :: system where
  "run_leased = \<lparr>sy_world = run3, sy_tasks = [], sy_log = [Leased ''acme'' ''c0ffee'']\<rparr>"

lemma reachable_leased: "reachable run_leased"
proof -
  let ?s = "\<lambda>w log. \<lparr>sy_world = w, sy_tasks = [], sy_log = log\<rparr>"
  have "reachable (?s sample_empty_world [])"
    by (rule Begin) (auto simp: sys_start_def blank_def new_system_def sample_empty_world_def)
  moreover have "sys_step (?s sample_empty_world []) (?s run1 [])"
    using Init [of "sample_env 2000" 100 "''raw''" sample_config sample_fresh_of "?s sample_empty_world []" run1
        "fst (snd sample_init)" "snd (snd sample_init)"] sample_config_ok
    by (simp add: run1_def sample_init_def)
  ultimately have r1: "reachable (?s run1 [])" by (rule Step)
  have i1: "is_initialized run1" by code_simp
  have "sys_step (?s run1 []) (?s run2 [])" using Enroll [of "?s run1 []", OF _ _, simplified, OF i1 run2] by simp
  with r1 have r2: "reachable (?s run2 [])" by (rule Step)
  have i2: "is_initialized run2" by code_simp
  have "nul_free ''c0ffee''" by code_simp
  then have "sys_step (?s run2 []) (?s run3 [Leased ''acme'' ''c0ffee''])"
    using Lease [of "?s run2 []", simplified, OF i2 run3] by (simp add: run2_lease)
  with r2 show ?thesis unfolding run_leased_def by (rule Step)
qed

lemma run_to_done: "\<exists>s. reachable s \<and> sys_step s run_done"
proof -
  obtain t where t: "snd run4 = Some t"
    using run5 by (auto simp: run5_def split: option.split_asm)
  let ?s4 = "run_leased\<lparr>sy_world := fst run4, sy_tasks := [t]\<rparr>"
  from run3_ready obtain d where d: "w_db run3 = Some d" "load_config (Some (db_snapshot d)) = Inr (Some sample_config)"
    by (auto split: option.split_asm sum.split_asm)
  then have "runs_on run3 run_ask sample_config" using run3_ready by (simp add: runs_on_def run_ask_def)
  moreover have "prepare (sample_env 2210) sample_config Some sample_fresh_of run_ask run3 = (fst run4, Some t)"
    using t by (metis prod.collapse run4_def)
  ultimately have "sys_step run_leased ?s4"
    using Start [of run_leased run_ask sample_config "sample_env 2210" Some sample_fresh_of "fst run4" "Some t"]
    by (simp add: run_leased_def)
  with reachable_leased have r4: "reachable ?s4" by (rule Step)
  have "perform (sample_env 2220) sample_config Some (sample_fresh_of 9) t (fst run4) = (fst run5, [Signed ''acme'' ''c0ffee'' ''fp-9''])"
    using run5 t by (metis option.simps(5) prod.collapse run5_def)
  then have "sys_step ?s4 run_done"
    using Finish [of t ?s4 "sample_env 2220" sample_config Some "sample_fresh_of 9" "fst run5"]
    by (simp add: run_done_def run_leased_def)
  with r4 show ?thesis by blast
qed

lemma reachable_done: "reachable run_done"
  using run_to_done by (blast intro: Step)

theorem tables_in_order_witness:
  "\<exists>d. w_db (fst run5) = Some d \<and> gen_rows d \<noteq> [] \<and> enroll_rows d \<noteq> [] \<and> distinct (map r_fp (index_rows d))"
proof -
  have "case w_db (fst run5) of None \<Rightarrow> False | Some d \<Rightarrow> gen_rows d \<noteq> [] \<and> enroll_rows d \<noteq> []" by code_simp
  then obtain d where d: "w_db (fst run5) = Some d" "gen_rows d \<noteq> []" "enroll_rows d \<noteq> []" by (auto split: option.split_asm)
  with tables_in_order [OF reachable_done, of d] show ?thesis by (simp add: run_done_def)
qed

theorem nonce_account_witness:
  "times_signed ''acme'' ''c0ffee'' (sy_log run_done) = 1 \<and> times_leased ''acme'' ''c0ffee'' (sy_log run_done) = 1 \<and>
   leases (fst run5) ''acme'' \<noteq> Some (Pending ''c0ffee'')"
proof -
  have counts: "times_signed ''acme'' ''c0ffee'' (sy_log run_done) = 1" "times_leased ''acme'' ''c0ffee'' (sy_log run_done) = 1"
    by (simp_all add: run_done_def times_signed_def times_leased_def)
  with nonce_account [OF reachable_done, of "''acme''" "''c0ffee''"] show ?thesis
    by (auto simp: pending_def run_done_def split: if_split_asm)
qed

theorem lease_refinement_witness:
  "\<exists>s evs. reachable s \<and> sy_log run_done = evs @ sy_log s \<and> lease_step (leases (sy_world s)) evs (leases (fst run5))"
proof -
  from run_to_done obtain s where s: "reachable s" "sys_step s run_done" by blast
  from lease_refinement [OF s] s(1) show ?thesis by (auto simp: run_done_def)
qed

end
