(* ===== verification/History.thy ===== *)
theory History
  imports System
begin

text \<open>
  The published revocation lists over time: what a step of the running system may do to the list at the
  place of a generation. Relying parties see nothing of the store but these files, so this is what a
  revocation is worth.
\<close>

section \<open>One list after another\<close>

definition follows :: "cert_row list \<Rightarrow> crl \<Rightarrow> crl \<Rightarrow> bool" where
  "follows rs prev crl \<longleftrightarrow>
     crl_number crl = crl_number prev + 1 \<and> (\<exists>new. crl_revoked crl = prune_crl_entries rs prev @ new)"

definition first_list :: "crl \<Rightarrow> bool" where
  "first_list crl \<longleftrightarrow> crl_number crl = 1 \<and> crl_revoked crl = []"

text \<open>An entry leaves a list only when the index has a revoked certificate of its serial number that had
  expired when a list carrying the entry came out.\<close>

definition run_out :: "cert_row list \<Rightarrow> crl \<Rightarrow> crl_entry \<Rightarrow> bool" where
  "run_out rs crl en \<longleftrightarrow> en \<in> set (crl_revoked crl) \<and>
     (\<exists>r \<in> set rs. r_status r = ''revoked'' \<and> c_str (r_serial r) = ce_serial en \<and> r_na r < crl_this_update crl)"

lemma prune_drops:
  "en \<in> set (crl_revoked prev) \<Longrightarrow> en \<in> set (prune_crl_entries rs prev) \<or> run_out rs prev en"
  by (auto simp: prune_crl_entries_def run_out_def list_ex_iff Let_def)

lemma follows_entries:
  "follows rs prev crl \<Longrightarrow> en \<in> set (crl_revoked prev) \<Longrightarrow> en \<in> set (crl_revoked crl) \<or> run_out rs prev en"
  using prune_drops [of en prev rs] by (auto simp: follows_def)

lemma republished_entries:
  assumes "(follows rs)\<^sup>*\<^sup>* L L'"
  shows "(L' = L \<or> crl_number L < crl_number L') \<and>
    (\<forall>en \<in> set (crl_revoked L). en \<in> set (crl_revoked L') \<or> (\<exists>M. (follows rs)\<^sup>*\<^sup>* L M \<and> run_out rs M en))"
  using assms
proof (induction rule: rtranclp_induct)
  case (step M N)
  then have "crl_number N = crl_number M + 1" by (simp add: follows_def)
  with step show ?case using follows_entries [OF step.hyps(2)] by fastforce
qed simp

section \<open>What the operations do to the files\<close>

definition same_lists :: "world \<Rightarrow> world \<Rightarrow> bool" where
  "same_lists w w' \<longleftrightarrow> (\<forall>sl. w_files w' (ca_file sl ''.crl'') = w_files w (ca_file sl ''.crl''))"

definition lists_follow :: "cert_row list \<Rightarrow> world \<Rightarrow> world \<Rightarrow> bool" where
  "lists_follow rs w w' \<longleftrightarrow>
     (\<forall>sl L. load_crl w sl = Inr L \<longrightarrow> (\<exists>L'. load_crl w' sl = Inr L' \<and> (follows rs)\<^sup>*\<^sup>* L L'))"

text \<open>The same with an exception: the first list of a generation may appear at the slugs of a set.\<close>

definition lists_kept :: "string set \<Rightarrow> cert_row list \<Rightarrow> world \<Rightarrow> world \<Rightarrow> bool" where
  "lists_kept S rs w w' \<longleftrightarrow>
     (\<forall>sl L. load_crl w sl = Inr L \<longrightarrow>
        (\<exists>L'. load_crl w' sl = Inr L' \<and> ((follows rs)\<^sup>*\<^sup>* L L' \<or> sl \<in> S \<and> first_list L')))"

lemma same_follow: "same_lists w w' \<Longrightarrow> lists_follow rs w w'"
  by (auto simp: same_lists_def lists_follow_def load_crl_def)

lemma follow_kept: "lists_follow rs w w' \<Longrightarrow> lists_kept S rs w w'"
  by (auto simp: lists_follow_def lists_kept_def)

lemma same_lists_files: "w_files w' = w_files w \<Longrightarrow> same_lists w w'"
  by (simp add: same_lists_def)

lemma lists_follow_trans: "lists_follow rs u v \<Longrightarrow> lists_follow rs v w \<Longrightarrow> lists_follow rs u w"
  unfolding lists_follow_def by (meson rtranclp_trans)

lemma lists_follow_refl [simp]: "lists_follow rs w w"
  by (auto simp: lists_follow_def)

lemma lists_follow_put:
  assumes "load_crl w sl = Inr prev" and "follows rs prev crl"
    and "w_files w' = (w_files w)(ca_file sl ''.crl'' \<mapsto> Crl_der crl)"
  shows "lists_follow rs w w'"
  using assms by (auto simp: lists_follow_def load_crl_def)

lemma next_crl_follows: "next_crl e rs prev p victim horizon = Inr crl \<Longrightarrow> follows rs prev crl"
  by (auto simp: follows_def dest: next_crl_Inr)

lemma refreshed_crl_follows: "refreshed_crl e rs prev j key = Inr crl \<Longrightarrow> follows rs prev crl"
  by (auto simp: refreshed_crl_def sign_crl_Inr follows_def)

lemma revoke_follows:
  assumes "revoke_locked e target cn serial p w = (w', r)" and "w_db w = Some d"
  shows "lists_follow (index_rows d) w w'"
proof (cases "revoke_next e target cn serial p w")
  case (Inl x)
  with assms show ?thesis by (auto simp: revoke_locked_def intro: same_follow same_lists_files)
next
  case (Inr res)
  obtain d1 crl where res: "res = (d1, crl)" by fastforce
  from revoke_next_Inr [OF Inr [unfolded res]] assms(2) obtain prev victim where
      prev: "load_crl w (gn_slug (cp_gen p)) = Inr prev"
      and "next_crl e (index_rows d) prev p victim crl_next_update_days = Inr crl" by auto
  then have "follows (index_rows d) prev crl" by (simp add: next_crl_follows)
  with prev assms(1) Inr show ?thesis
    by (auto simp: revoke_locked_def res dest!: publish_cases
        intro: same_follow same_lists_files lists_follow_put)
qed

lemma revoke_ca_follows:
  assumes "revoke_ca_locked e p victim vc w = (w', r)" and "w_db w = Some d"
  shows "lists_follow (index_rows d) w w'"
proof (cases "revoke_ca_next e p victim vc w")
  case (Inl x)
  with assms show ?thesis by (auto simp: revoke_ca_locked_def intro: same_follow same_lists_files)
next
  case (Inr res)
  obtain d1 crl where res: "res = (d1, crl)" by fastforce
  from revoke_ca_next_Inr [OF Inr [unfolded res]] assms(2) obtain prev where
      prev: "load_crl w (gn_slug (cp_gen p)) = Inr prev"
      and "next_crl e (index_rows d) prev p vc root_crl_next_update_days = Inr crl" by auto
  then have "follows (index_rows d) prev crl" by (simp add: next_crl_follows)
  with prev assms(1) Inr show ?thesis
    by (auto simp: revoke_ca_locked_def res dest!: publish_cases
        intro: same_follow same_lists_files lists_follow_put)
qed

lemma refresh_loop_follows:
  "refresh_loop e (Some rs) ok js w = (w', r) \<Longrightarrow> lists_follow rs w w'"
proof (induction js arbitrary: ok w)
  case Nil
  then show ?case by (auto intro: same_follow same_lists_files)
next
  case (Cons jk js)
  obtain j key where jk: "jk = (j, key)" by fastforce
  let ?loc = "ca_file (gn_slug (jb_ca j)) ''.crl''"
  have "w' = w \<or> (\<exists>prev crl. load_crl w (gn_slug (jb_ca j)) = Inr prev \<and> refreshed_crl e rs prev j key = Inr crl \<and>
      refresh_loop e (Some rs) (snd (put_file e ?loc (Crl_der crl) w) \<and> ok) js (fst (put_file e ?loc (Crl_der crl) w)) = (w', r))"
    using Cons.prems unfolding jk refresh_loop.simps(2) by (auto split: sum.split_asm prod.split_asm)
  then show ?case
  proof (elim disjE exE conjE)
    assume "w' = w"
    then show ?thesis by (auto intro: same_follow same_lists_files)
  next
    fix prev crl
    let ?put = "put_file e ?loc (Crl_der crl) w"
    assume prev: "load_crl w (gn_slug (jb_ca j)) = Inr prev" and crl: "refreshed_crl e rs prev j key = Inr crl"
      and rest: "refresh_loop e (Some rs) (snd ?put \<and> ok) js (fst ?put) = (w', r)"
    have "lists_follow rs w (fst ?put)"
      using put_file_cases [of e ?loc "Crl_der crl" w "fst ?put" "snd ?put"] lists_follow_put [OF prev refreshed_crl_follows [OF crl]]
      by auto
    with Cons.IH [OF rest] show ?thesis by (rule lists_follow_trans [rotated])
  qed
qed

lemma refresh_follows:
  assumes "refresh_locked e jobs w = (w', r)" and d: "w_db w = Some d"
  shows "lists_follow (index_rows d) w w'"
proof (cases "db_cert_index d")
  case None
  have "w' = w" using assms None
    by (cases jobs) (auto simp: refresh_locked_def refresh_loop.simps(2) split: if_split_asm sum.split_asm prod.split_asm)
  then show ?thesis by (auto intro: same_follow same_lists_files)
next
  case (Some rs)
  then have "index_rows d = rs" by (simp add: index_rows_def)
  moreover have "w' = w \<or> (\<exists>ok. refresh_loop e (Some rs) True jobs w = (w', ok))"
    using assms Some by (auto simp: refresh_locked_def split: if_split_asm sum.split_asm prod.split_asm)
  ultimately show ?thesis by (auto intro: same_follow same_lists_files dest: refresh_loop_follows)
qed

text \<open>A leaf is written under its own name or elsewhere, never at the place of a list.\<close>

lemma split_on_last: "c \<notin> set b \<Longrightarrow> \<exists>xs y. split_on c (a @ b) = xs @ [y @ b]"
proof (induction a)
  case Nil
  then show ?case by (intro exI [of _ "[]"]) (simp add: split_on_no_sep)
next
  case (Cons x a)
  then obtain xs y where *: "split_on c (a @ b) = xs @ [y @ b]" by blast
  show ?case
  proof (cases "x = c")
    case True
    with * show ?thesis by (intro exI [of _ "[] # xs"]) simp
  next
    case False
    show ?thesis
    proof (cases xs)
      case Nil
      with * False show ?thesis by (intro exI [of _ "[]"] exI [of _ "x # y"]) simp
    next
      case (Cons f fs)
      with * False show ?thesis by (intro exI [of _ "(x # f) # fs"]) simp
    qed
  qed
qed

lemma resolve_last:
  "resolve base (xs @ [y]) = Some cs \<Longrightarrow> y \<notin> {[], ''.'', ''..''} \<Longrightarrow> last cs = y"
  by (induction base xs rule: resolve.induct) (auto split: if_split_asm)

lemma ee_file_ext:
  assumes "CHR ''/'' \<notin> set ext" and "length ext = 4" and "ee_file n ext = In_store cs"
  shows "\<exists>s. last cs = s @ ext"
proof -
  obtain xs y where split: "split_on CHR ''/'' (n @ ext) = xs @ [y @ ext]" using split_on_last [OF assms(1)] by blast
  have "length (y @ ext) \<ge> 4" using assms(2) by simp
  then have "y @ ext \<notin> {[], ''.'', ''..''}" by (auto simp del: length_append)
  with assms(3) show ?thesis by (auto simp: ee_file_def split split: if_split_asm option.split_asm dest: resolve_last)
qed

lemma ee_file_no_list: "ee_file n ''.crt'' \<noteq> ca_file sl ''.crl''" "ee_file n ''.key'' \<noteq> ca_file sl ''.crl''"
proof -
  have "s @ ''.crt'' \<noteq> sl @ ''.crl''" "s @ ''.key'' \<noteq> sl @ ''.crl''" for s
    by (auto dest: arg_cong [where f = last])
  then show "ee_file n ''.crt'' \<noteq> ca_file sl ''.crl''" "ee_file n ''.key'' \<noteq> ca_file sl ''.crl''"
    using ee_file_ext [of "''.crt''" n "[''ca'', sl @ ''.crl'']"] ee_file_ext [of "''.key''" n "[''ca'', sl @ ''.crl'']"]
    by (auto simp: ca_file_def)
qed

lemma perform_follows:
  assumes "perform e c canon fr t w = (w', evs)" and "w_db w = Some d"
  shows "lists_follow (index_rows d) w w'"
proof (cases t)
  case (Do_issue profile cn p sans)
  have "same_lists w w1" if "issue_locked e c canon fr profile cn p sans w = Inr (w1, cert, ok)" for w1 cert ok
  proof -
    from issue_locked_Inr [OF that] obtain k w0 where "(w1, ok) = write_leaf e cn cert k w0" and "w_files w0 = w_files w"
      by fastforce
    then show ?thesis
      using write_leaf_other [of _ cn e cert k w0] ee_file_no_list
      by (metis fst_conv same_lists_def)
  qed
  with Do_issue assms show ?thesis by (auto intro: same_follow split: sum.split_asm)
next
  case (Do_sign profile who nonce p q cn an)
  with assms show ?thesis by (auto intro!: same_follow same_lists_files split: sum.split_asm dest!: sign_locked_Inr)
next
  case (Do_revoke target cn serial p)
  with assms show ?thesis by (auto split: prod.split_asm sum.split_asm dest: revoke_follows)
next
  case (Do_revoke_ca p victim vc)
  with assms show ?thesis by (auto split: prod.split_asm sum.split_asm dest: revoke_ca_follows)
next
  case (Do_refresh jobs)
  with assms show ?thesis using refresh_follows [of e jobs w w' "snd (refresh_locked e jobs w)" d] by auto
next
  case (Do_add ca nx cert key)
  with assms show ?thesis by (auto intro!: same_follow same_lists_files split: sum.split_asm dest!: add_locked_Inr)
next
  case (Do_renew ca nx cert key)
  with assms show ?thesis by (auto intro!: same_follow same_lists_files split: sum.split_asm dest!: renew_locked_Inr)
qed

section \<open>The checks\<close>

lemma artifacts_kept:
  "write_ca_artifacts e i sl cert key horizon w = (w', ok) \<Longrightarrow> lists_kept {sl} rs w w'"
  by (auto simp: write_ca_artifacts_def put_file_def lists_kept_def load_crl_def first_list_def ca_file_def
      split: prod.split_asm bool.split_asm if_split_asm)

lemma lists_kept_simps [simp]:
  "lists_kept S rs w w" "lists_kept S rs (w\<lparr>w_db := x\<rparr>) v = lists_kept S rs w v"
  "lists_kept S rs w (v\<lparr>w_db := x\<rparr>) = lists_kept S rs w v"
  "lists_kept S rs (w\<lparr>w_tokens := y\<rparr>) v = lists_kept S rs w v" "lists_kept S rs w (v\<lparr>w_tokens := y\<rparr>) = lists_kept S rs w v"
  by (auto simp: lists_kept_def load_crl_def)

lemma mint_kept:
  "mint_ca_generation e c fr ca root nx d w = (w', r) \<Longrightarrow> lists_kept {gn_slug nx} rs w w'"
  unfolding mint_ca_generation_def Let_def
  by (auto split: sum.split_asm option.split_asm if_split_asm prod.split_asm bool.split_asm
      dest!: artifacts_kept [where rs = rs])

lemma add_precheck_kept:
  assumes "add_precheck e c fr purpose w = (v, r)" and "w_db w = Some d"
  shows "v = w \<or> (\<exists>sl. slug_of_next c d purpose True = Some sl \<and> lists_kept {sl} rs w v)"
  using assms unfolding add_precheck_def Let_def
  by (auto simp: slug_of_next_def split: sum.split_asm if_split_asm prod.split_asm dest!: mint_kept [where rs = rs] add_checks_Inr)

lemma renew_precheck_kept:
  assumes "renew_precheck e c fr purpose cn w = (v, r)" and "w_db w = Some d"
  shows "v = w \<or> (\<exists>sl. slug_of_next c d purpose False = Some sl \<and> lists_kept {sl} rs w v)"
  using assms unfolding renew_precheck_def Let_def
  by (auto simp: slug_of_next_def next_generation_def
      split: sum.split_asm if_split_asm prod.split_asm option.split_asm dest!: mint_kept [where rs = rs])

text \<open>The commands that mint a generation, and its slug.\<close>

fun mints :: "config \<Rightarrow> db \<Rightarrow> request \<Rightarrow> string option" where
  "mints c d (Ask_add purpose) = slug_of_next c d purpose True"
| "mints c d (Ask_renew purpose cn) = slug_of_next c d purpose False"
| "mints c d _ = None"

lemma prepare_kept:
  assumes "prepare e c canon fr req w = (w', t)" and d: "w_db w = Some d"
  shows "lists_kept {sl. mints c d req = Some sl} rs w w'"
proof (cases req)
  case (Ask_sign profile who nonce q ov)
  with assms show ?thesis
    by (auto simp: ensure_sign_tables_def split: prod.split_asm sum.split_asm dest!: sign_precheck_world)
next
  case (Ask_revoke_ca sel reason)
  with assms show ?thesis
    by (auto split: prod.split_asm sum.split_asm dest!: revoke_ca_precheck_cases)
next
  case (Ask_add purpose)
  with assms show ?thesis
    by (auto split: prod.split_asm sum.split_asm dest!: add_precheck_kept [OF _ d, where rs = rs])
next
  case (Ask_renew purpose cn)
  with assms show ?thesis
    by (auto split: prod.split_asm sum.split_asm dest!: renew_precheck_kept [OF _ d, where rs = rs])
qed (use assms in auto)

text \<open>A step in which an \<^verbatim>\<open>add\<close> or a \<^verbatim>\<open>renew\<close> makes its checks and mints the
  generation of a slug.\<close>

definition minting :: "system \<Rightarrow> system \<Rightarrow> string \<Rightarrow> bool" where
  "minting s s' sl \<longleftrightarrow>
     (\<exists>e c canon fr req t d. runs_on (sy_world s) req c \<and> w_db (sy_world s) = Some d \<and> mints c d req = Some sl \<and>
        prepare e c canon fr req (sy_world s) = (sy_world s', t))"

lemma sys_step_lists:
  assumes ok: "sys_ok s" and step: "sys_step s s'" and d: "w_db (sy_world s) = Some d"
  shows "lists_kept {sl. minting s s' sl} (index_rows d) (sy_world s) (sy_world s')"
proof -
  have same: "lists_kept S (index_rows d) (sy_world s) v" if "w_files v = w_files (sy_world s)" for v S
    using that by (intro follow_kept same_follow same_lists_files)
  from step show ?thesis
  proof cases
    case (Init e n raw c fr w' shown r)
    have dir: "w_db (sy_world s) \<noteq> None \<Longrightarrow> w_dir (sy_world s) = Dir_used" using ok by (auto simp: sys_ok_def)
    have "w' = sy_world s" using init_world [OF Init(2) dir] d by auto
    with Init(1) same show ?thesis by simp
  next
    case (Enroll e who w')
    with enroll_Inr [OF Enroll(3)] same show ?thesis by auto
  next
    case (Lease e raw who w' nonce)
    with get_nonce_Inr [OF Lease(3)] same show ?thesis by auto
  next
    case (Start req c e canon fr w' t)
    then have "{sl. mints c d req = Some sl} \<subseteq> {sl. minting s s' sl}" using d unfolding minting_def by fastforce
    with prepare_kept [OF Start(3) d, of "index_rows d"] Start(1) show ?thesis by (fastforce simp: lists_kept_def)
  next
    case (Finish t e c canon fresh w' evs)
    with perform_follows [OF Finish(3) d] follow_kept show ?thesis by simp
  next
    case (Crash t)
    with same show ?thesis by simp
  qed
qed

text \<open>C3. A revocation that is published stays published: whatever step of whatever command is taken in a
  reachable state, a list that is at the place of a generation is afterwards the same list or a later one. A
  later list has a higher number and every entry of the one before, except entries whose certificates the
  index has as revoked and which had expired when a list that still carried them came out. There is one
  exception: an \<^verbatim>\<open>add\<close> or \<^verbatim>\<open>renew\<close> that mints the generation of this very
  slug puts its first list, number 1 without entries, there.\<close>

theorem lists_grow:
  "reachable s \<Longrightarrow> sys_step s s' \<Longrightarrow> w_db (sy_world s) = Some d \<Longrightarrow> load_crl (sy_world s) sl = Inr L \<Longrightarrow>
   \<exists>L'. load_crl (sy_world s') sl = Inr L' \<and>
     (minting s s' sl \<and> crl_number L' = 1 \<and> crl_revoked L' = [] \<or>
      (L' = L \<or> crl_number L < crl_number L') \<and>
      (\<forall>en \<in> set (crl_revoked L). en \<in> set (crl_revoked L') \<or>
         (\<exists>M. (follows (index_rows d))\<^sup>*\<^sup>* L M \<and> en \<in> set (crl_revoked M) \<and>
            (\<exists>r \<in> set (index_rows d). r_status r = ''revoked'' \<and> c_str (r_serial r) = ce_serial en \<and>
               r_na r < crl_this_update M))))"
proof -
  assume "reachable s" and step: "sys_step s s'" and d: "w_db (sy_world s) = Some d" and L: "load_crl (sy_world s) sl = Inr L"
  then have "lists_kept {sl. minting s s' sl} (index_rows d) (sy_world s) (sy_world s')" by (intro sys_step_lists reachable_ok)
  with L obtain L' where L': "load_crl (sy_world s') sl = Inr L'"
      and "(follows (index_rows d))\<^sup>*\<^sup>* L L' \<or> minting s s' sl \<and> first_list L'"
    unfolding lists_kept_def by blast
  then consider "minting s s' sl" "first_list L'" | "(follows (index_rows d))\<^sup>*\<^sup>* L L'" by blast
  then show ?thesis
  proof cases
    case 1
    with L' show ?thesis unfolding first_list_def by blast
  next
    case 2
    from L' republished_entries [OF this] show ?thesis unfolding run_out_def by blast
  qed
qed

section \<open>A revocation\<close>

definition run6 :: "world \<times> task option" where
  "run6 = prepare (sample_env 2300) sample_config Some sample_fresh_of
     (Ask_revoke ''server'' ''www.example.org'' ''superseded'' []) (fst run5)"

definition run7 :: "world \<times> event list" where
  "run7 = (case snd run6 of Some t \<Rightarrow> perform (sample_env 2310) sample_config Some (sample_fresh_of 0) t (fst run6)
     | None \<Rightarrow> (fst run6, []))"

lemma run5_ready: "is_initialized (fst run5) \<and> (case w_db (fst run5) of None \<Rightarrow> False | Some d \<Rightarrow>
    (case load_config (Some (db_snapshot d)) of Inr (Some c) \<Rightarrow> c = sample_config | _ \<Rightarrow> False))"
  by code_simp

lemma run6: "snd run6 \<noteq> None \<and> fst run6 = fst run5"
proof -
  have "case snd run6 of None \<Rightarrow> False | Some t \<Rightarrow> True" by code_simp
  then show ?thesis by (auto simp: run6_def split: option.split_asm)
qed

lemma run7: "(case load_crl (fst run5) ''ca-e1'' of Inr crl \<Rightarrow> crl_number crl = 1 | Inl _ \<Rightarrow> False) \<and>
    (case load_crl (fst run7) ''ca-e1'' of Inr crl \<Rightarrow> crl_number crl = 2 | Inl _ \<Rightarrow> False)"
  by code_simp

theorem lists_grow_witness:
  "\<exists>s s' L L'. reachable s \<and> sys_step s s' \<and> load_crl (sy_world s) ''ca-e1'' = Inr L \<and>
     load_crl (sy_world s') ''ca-e1'' = Inr L' \<and> crl_number L < crl_number L'"
proof -
  obtain t where t: "snd run6 = Some t" using run6 by auto
  obtain L where L: "load_crl (fst run5) ''ca-e1'' = Inr L" "crl_number L = 1" using run7 by (auto split: sum.split_asm)
  from run5_ready obtain d where d: "w_db (fst run5) = Some d" "load_config (Some (db_snapshot d)) = Inr (Some sample_config)"
    by (auto split: option.split_asm sum.split_asm)
  let ?req = "Ask_revoke ''server'' ''www.example.org'' ''superseded'' []"
  let ?s = "run_done\<lparr>sy_world := fst run5, sy_tasks := [t]\<rparr>"
  have "runs_on (fst run5) ?req sample_config" using run5_ready d by (simp add: runs_on_def)
  moreover have "prepare (sample_env 2300) sample_config Some sample_fresh_of ?req (fst run5) = (fst run5, Some t)"
    using t run6 by (metis prod.collapse run6_def)
  ultimately have "sys_step run_done ?s"
    using Start [of run_done ?req sample_config "sample_env 2300" Some sample_fresh_of "fst run5" "Some t"]
    by (simp add: run_done_def)
  with reachable_done have s: "reachable ?s" by (rule Step)
  let ?s' = "?s\<lparr>sy_world := fst run7, sy_tasks := [], sy_log := snd run7 @ sy_log run_done\<rparr>"
  have "perform (sample_env 2310) sample_config Some (sample_fresh_of 0) t (fst run5) = (fst run7, snd run7)"
    using t run6 by (simp add: run7_def)
  then have step: "sys_step ?s ?s'"
    using Finish [of t ?s "sample_env 2310" sample_config Some "sample_fresh_of 0" "fst run7" "snd run7"] by simp
  from lists_grow [OF s step, of d "''ca-e1''" L] d L(1) obtain L' where L': "load_crl (fst run7) ''ca-e1'' = Inr L'"
      and "crl_number L' = 1 \<or> L' = L \<or> crl_number L < crl_number L'" by auto
  moreover have "crl_number L' = 2" using run7 L' by simp
  ultimately have "crl_number L < crl_number L'" using L(2) by auto
  with s step L(1) L' show ?thesis by (intro exI [of _ ?s] exI [of _ ?s'] exI [of _ L] exI [of _ L']) simp
qed

end
