(* ===== verification/Query.thy ===== *)
theory Query
  imports Crl
begin

text \<open>
  The commands that only read, \<^verbatim>\<open>get\<close> and \<^verbatim>\<open>list\<close> of
  \<^verbatim>\<open>src/ca.cpp\<close>. What they print is the value of the function: the objects
  \<^verbatim>\<open>get\<close> writes, the lines of the configuration, the rows of the table. Columns are padded by
  the number of characters, which is what the formatter does for one-byte characters.
\<close>

section \<open>Dates\<close>

definition leap_year :: "nat \<Rightarrow> bool" where
  "leap_year y \<longleftrightarrow> y mod 4 = 0 \<and> (y mod 100 \<noteq> 0 \<or> y mod 400 = 0)"

definition year_days :: "nat \<Rightarrow> nat" where
  "year_days y = (if leap_year y then 366 else 365)"

definition month_days :: "nat \<Rightarrow> nat list" where
  "month_days y = [31, if leap_year y then 29 else 28, 31, 30, 31, 30, 31, 31, 30, 31, 30, 31]"

text \<open>\<^verbatim>\<open>gmtime_r\<close>: year by year, then month by month.\<close>

function year_of :: "nat \<Rightarrow> nat \<Rightarrow> nat \<times> nat" where
  "year_of y d = (if d < year_days y then (y, d) else year_of (Suc y) (d - year_days y))"
  by pat_completeness auto
termination
  by (relation "measure snd") (auto simp: year_days_def)

declare year_of.simps [simp del]

fun month_of :: "nat list \<Rightarrow> nat \<Rightarrow> nat \<Rightarrow> nat \<times> nat" where
  "month_of (m # n # ms) i d = (if d < m then (i, d) else month_of (n # ms) (Suc i) (d - m))"
| "month_of _ i d = (i, d)"

record civil =
  tm_year :: nat
  tm_mon :: nat
  tm_mday :: nat
  tm_hour :: nat
  tm_min :: nat

definition gmtime :: "nat \<Rightarrow> civil" where
  "gmtime t =
     (let (y, yd) = year_of 1970 (t div 86400); (m, md) = month_of (month_days y) 1 yd; s = t mod 86400
      in \<lparr>tm_year = y, tm_mon = m, tm_mday = Suc md, tm_hour = s div 3600, tm_min = s mod 3600 div 60\<rparr>)"

definition two_digits :: "nat \<Rightarrow> string" where
  "two_digits n = [digit_char (n div 10 mod 10), digit_char (n mod 10)]"

definition fmt_epoch :: "nat \<Rightarrow> string" where
  "fmt_epoch t =
     (let c = gmtime t in show_nat (tm_year c) @ ''-'' @ two_digits (tm_mon c) @ ''-'' @ two_digits (tm_mday c) @ '' '' @
        two_digits (tm_hour c) @ '':'' @ two_digits (tm_min c) @ '' UTC'')"

section \<open>get\<close>

datatype query_error =
    Store_missing
  | Selector_unresolved
  | Crl_selector
  | Crl_not_found
  | No_match
  | Query_throws store_error
  | Query_throws_load load_error

datatype encoding = Der | Pem

datatype shown = Shown_cert encoding certificate | Shown_crl encoding crl | Shown_line string

text \<open>\<^verbatim>\<open>emit\<close>.\<close>

definition emit_encoding :: "string \<Rightarrow> encoding" where
  "emit_encoding s = (if s = ''der'' then Der else Pem)"

definition quoted :: "string \<Rightarrow> string" where
  "quoted s = [CHR 0x22] @ s @ [CHR 0x22]"

definition setting :: "string \<Rightarrow> string \<Rightarrow> string" where
  "setting key value = key @ '' = '' @ quoted value"

definition string_list :: "string list \<Rightarrow> string" where
  "string_list xs = ''['' @ join_with '', '' (map quoted xs) @ '']''"

definition print_ca :: "string \<Rightarrow> 'a ca_fields_scheme \<Rightarrow> string list" where
  "print_ca section ca =
     [[], ''['' @ section @ '']'', setting ''cn'' (ca_cn ca), setting ''curve'' (ca_curve ca),
      setting ''digest'' (ca_digest ca), ''valid_days = '' @ show_int (ca_valid_days ca),
      setting ''slug_prefix'' (ca_slug_prefix ca) @ ''  # slug: '' @ ca_slug ca,
      setting ''key_backend'' (ca_key_backend ca)] @
     (if ca_key_backend ca = ''pkcs11'' then [setting ''token_label'' (ca_token_label ca)] else [])"

definition print_subtrees :: "string \<Rightarrow> string list \<Rightarrow> string list" where
  "print_subtrees key v = (if v = [] then [] else [key @ '' = '' @ string_list v])"

definition print_policies :: "signing_ca \<Rightarrow> string list" where
  "print_policies ca =
     (if ca_policies_map ca = [] then []
      else [''policies = { '' @ join_with '', '' (concat (map (\<lambda>prof.
              case map_of (ca_policies_map ca) prof of None \<Rightarrow> [] | Some oids \<Rightarrow> [prof @ '' = '' @ string_list oids])
            (ca_profiles ca))) @ '' }''])"

definition print_signing_ca :: "string \<Rightarrow> signing_ca \<Rightarrow> string list" where
  "print_signing_ca purpose ca =
     print_ca (''ca.'' @ purpose) ca @
     [''profiles = '' @ string_list (ca_profiles ca), setting ''ee_curve'' (ca_ee_curve ca),
      setting ''ee_digest'' (ca_ee_digest ca), ''ee_valid_days = '' @ show_int (ca_ee_valid_days ca)] @
     (if ca_simple_dn ca then [''simple_dn = true''] else []) @
     print_subtrees ''permitted_dns'' (ca_permitted_dns ca) @
     print_subtrees ''permitted_email'' (ca_permitted_email ca) @ print_policies ca"

definition config_lines :: "config \<Rightarrow> string list" where
  "config_lines c =
     [''# showing configuration stored in database'', [], ''[pki]'', setting ''org_name'' (pki_org_name (cfg_pki c)),
      setting ''country_code'' (pki_country_code (cfg_pki c)),
      setting ''repository_host'' (pki_repository_host (cfg_pki c))] @
     (if ca_key_backend (cfg_root c) = ''pkcs11'' \<or> list_ex (\<lambda>(_, ca). ca_key_backend ca = ''pkcs11'') (cfg_cas c)
      then [[], ''[pkcs11]'', setting ''module'' (p11_module (cfg_pkcs11 c))] @
           (if p11_token_label (cfg_pkcs11 c) \<noteq> [] then [setting ''token_label'' (p11_token_label (cfg_pkcs11 c))] else [])
      else []) @
     print_ca ''root'' (cfg_root c) @ concat (map (\<lambda>(purpose, ca). print_signing_ca purpose ca) (cfg_cas c))"

definition get_crl :: "config \<Rightarrow> world \<Rightarrow> db \<Rightarrow> string \<Rightarrow> string \<Rightarrow> query_error + shown list" where
  "get_crl c w d selector enc =
     (let cn = resolve_ca_cn d c selector; root = active_ca d c ''root''
      in if cn = [] then Inl Selector_unresolved
         else case (if cn = gn_cn root then Some (gn_slug root)
                    else map_option gn_slug (gen_by_cn d ''signing'' cn)) of
             None \<Rightarrow> Inl Crl_selector
           | Some sl \<Rightarrow>
               if w_files w (ca_file sl ''.crl'') = None then Inl Crl_not_found
               else (case load_crl w sl of Inl x \<Rightarrow> Inl (Query_throws_load x)
                 | Inr crl \<Rightarrow> Inr [Shown_crl (emit_encoding enc) crl]))"

definition ca_fp :: "cert_row list \<Rightarrow> config \<Rightarrow> db \<Rightarrow> string \<Rightarrow> query_error + string option" where
  "ca_fp rs c d selector =
     (let cn = resolve_ca_cn d c selector;
          kind = (if selector = ''root-ca'' then ''root'' else if selector \<noteq> cn then ''signing'' else [])
      in if cn = [] then Inl Selector_unresolved
         else Inr (map_option (\<lambda>r. c_str (r_fp r)) (find (\<lambda>r. r_cn r = cn \<and>
                (if kind = [] then r_kind r = ''root'' \<or> r_kind r = ''signing'' else r_kind r = kind)) rs)))"

definition show_cert ::
  "cert_row list \<Rightarrow> db \<Rightarrow> encoding \<Rightarrow> bool \<Rightarrow> string option \<Rightarrow> query_error + shown list" where
  "show_cert rs d enc chain fp =
     (case Option.bind fp (load_cert (db_store d)) of
        None \<Rightarrow> Inl No_match
      | Some cert \<Rightarrow> Inr (Shown_cert enc cert #
          (if chain then map (Shown_cert enc) (issuers_above rs (db_store d) cert) else [])))"

definition get_cert ::
  "nat \<Rightarrow> config \<Rightarrow> world \<Rightarrow> string \<Rightarrow> string \<Rightarrow> string \<Rightarrow> bool \<Rightarrow> query_error + shown list" where
  "get_cert now c w target selector enc chain =
     (case w_db w of None \<Rightarrow> Inl Store_missing
      | Some d \<Rightarrow>
          if target = ''config'' then Inr (map Shown_line (config_lines c))
          else if target = ''crl'' then get_crl c w d selector enc
          else (case db_cert_index d of
              None \<Rightarrow> if target = ''ca'' \<and> resolve_ca_cn d c selector = [] then Inl Selector_unresolved
                      else Inl (Query_throws Prepare_failed)
            | Some rs \<Rightarrow>
                if target = ''ca''
                then (case ca_fp rs c d selector of Inl x \<Rightarrow> Inl x
                  | Inr fp \<Rightarrow> show_cert rs d (emit_encoding enc) chain fp)
                else show_cert rs d (emit_encoding enc) chain (active_fp rs selector target now)))"

section \<open>list\<close>

record list_row =
  lr_cn :: string
  lr_kind :: string
  lr_serial :: string
  lr_expires :: string
  lr_status :: string

text \<open>The bounds are bound as 64-bit integers, so a window longer than the time since 1970 reaches
  back before it.\<close>

definition bound_time :: "u64 \<Rightarrow> int" where
  "bound_time t = sint t"

definition list_query :: "cert_row list \<Rightarrow> string \<Rightarrow> nat \<Rightarrow> u64 \<Rightarrow> string \<Rightarrow> (cert_row \<Rightarrow> bool) \<times> (cert_row \<Rightarrow> nat)" where
  "list_query rs filt now win cn =
     (if filt = ''expiring'' then
        (\<lambda>r. r_status r = ''active'' \<and> now < r_na r \<and> int (r_na r) \<le> bound_time (of_nat now + win), r_na)
      else if filt = ''expired'' then
        (\<lambda>r. r_status r = ''active'' \<and> r_na r < now \<and> bound_time (of_nat now - win) \<le> int (r_na r), r_na)
      else if filt = ''revoked'' then
        (\<lambda>r. r_status r = ''revoked'' \<and> bound_time (of_nat now - win) \<le> int (r_revoked_at r), r_revoked_at)
      else if filt = ''last'' then
        (\<lambda>r. r_nb r \<le> now \<and> bound_time (of_nat now - win) \<le> int (r_nb r), r_nb)
      else
        (let purpose = (if ends_with cn ''-ca'' \<and>
               list_ex (\<lambda>r. r_kind r = ''signing'' \<and> r_purpose r = take (length cn - 3) cn) rs
             then take (length cn - 3) cn else [])
         in if cn = ''root-ca'' \<or> cn = ''signing-ca''
            then (\<lambda>r. r_kind r = (if cn = ''root-ca'' then ''root'' else ''signing''), r_nb)
            else if purpose \<noteq> [] then (\<lambda>r. r_kind r = ''signing'' \<and> r_purpose r = purpose, r_nb)
            else (\<lambda>r. r_cn r = cn, r_nb)))"

text \<open>\<^verbatim>\<open>ORDER BY \<dots> DESC\<close>.\<close>

definition sort_desc :: "('a \<Rightarrow> nat) \<Rightarrow> 'a list \<Rightarrow> 'a list" where
  "sort_desc f = sort_key (\<lambda>x. - int (f x))"

definition show_row :: "nat \<Rightarrow> cert_row \<Rightarrow> list_row" where
  "show_row now r =
     \<lparr>lr_cn = c_str (r_cn r), lr_kind = c_str (r_kind r),
      lr_serial = (let s = c_str (r_serial r) in if length s > list_serial_hex then take list_serial_hex s else s),
      lr_expires = fmt_epoch (r_na r),
      lr_status = (if c_str (r_status r) = ''revoked'' then ''revoked'' else if r_na r < now then ''expired'' else ''active'')\<rparr>"

definition list_rows :: "nat \<Rightarrow> cert_row list \<Rightarrow> string \<Rightarrow> int \<Rightarrow> string \<Rightarrow> int \<Rightarrow> list_row list \<times> bool" where
  "list_rows now rs filt days cn limit =
     (let (sel, key) = list_query rs filt now (ucast (days_to_seconds days)) cn;
          q = sort_desc key (filter sel rs);
          q = (if limit > 0 then take (nat (limit + 1)) q else q);
          rows = map (show_row now) q
      in if limit > 0 \<and> length rows > nat limit then (take (nat limit) rows, True) else (rows, False))"

definition tab :: string where
  "tab = [CHR 0x09]"

definition tsv_lines :: "list_row list \<Rightarrow> string list" where
  "tsv_lines rs = join_with tab [''CN'', ''KIND'', ''SERIAL'', ''EXPIRES'', ''STATUS''] #
     map (\<lambda>r. join_with tab [lr_cn r, lr_kind r, lr_serial r, lr_expires r, lr_status r]) rs"

definition pad :: "nat \<Rightarrow> string \<Rightarrow> string" where
  "pad n s = s @ replicate (n - length s) CHR '' ''"

definition column_width :: "nat \<Rightarrow> string list \<Rightarrow> nat" where
  "column_width w xs = foldl (\<lambda>w s. max w (length s)) w xs"

definition table_lines :: "list_row list \<Rightarrow> string list" where
  "table_lines rs =
     (let wc = column_width 2 (map lr_cn rs); wk = column_width 4 (map lr_kind rs);
          ws = column_width 6 (map lr_serial rs); we = column_width 7 (map lr_expires rs);
          line = (\<lambda>a b c d e. join_with ''  '' [pad wc a, pad wk b, pad ws c, pad we d, e])
      in line ''CN'' ''KIND'' ''SERIAL'' ''EXPIRES'' ''STATUS'' #
         map (\<lambda>r. line (lr_cn r) (lr_kind r) (lr_serial r) (lr_expires r) (lr_status r)) rs)"

definition list_certs ::
  "nat \<Rightarrow> world \<Rightarrow> string \<Rightarrow> int \<Rightarrow> string \<Rightarrow> bool \<Rightarrow> int \<Rightarrow> query_error + string list \<times> bool" where
  "list_certs now w filt days cn tsv limit =
     (case w_db w of None \<Rightarrow> Inl Store_missing
      | Some d \<Rightarrow>
          (case db_cert_index d of None \<Rightarrow> Inl (Query_throws Prepare_failed)
           | Some rs \<Rightarrow> (case list_rows now rs filt days cn limit of
               (shown, truncated) \<Rightarrow> Inr (if tsv then tsv_lines shown else table_lines shown, truncated))))"

lemma sint_small: "- (2 ^ 63) \<le> i \<Longrightarrow> i < 2 ^ 63 \<Longrightarrow> sint (word_of_int i :: u64) = i"
  by (simp add: signed_of_int signed_take_bit_int_eq_self)

lemma window_seconds: "0 \<le> days \<Longrightarrow> days \<le> max_valid_days \<Longrightarrow> unat (days_to_seconds days) = nat days * 86400"
proof -
  assume d: "0 \<le> days" "days \<le> max_valid_days"
  then have "days_to_seconds days = of_nat (nat days * 86400)" by (simp add: days_to_seconds_def)
  moreover have "nat days * 86400 < 2 ^ 32" using d by (simp add: max_valid_days_eq)
  ultimately show ?thesis by (simp only: unat_of_nat len_num1 len_bit0) simp
qed

lemma bound_times:
  assumes "0 \<le> days" "days \<le> max_valid_days" and "now < 2 ^ 62"
  shows "bound_time (of_nat now + ucast (days_to_seconds days)) = int now + days * 86400"
    and "bound_time (of_nat now - ucast (days_to_seconds days)) = int now - days * 86400"
proof -
  have u: "(ucast (days_to_seconds days) :: u64) = word_of_int (days * 86400)"
  proof -
    have "(ucast (days_to_seconds days) :: u64) = of_nat (unat (days_to_seconds days))" by simp
    also have "\<dots> = of_nat (nat days * 86400)" by (simp only: window_seconds [OF assms(1,2)])
    also have "\<dots> = word_of_int (days * 86400)" using assms(1) by simp
    finally show ?thesis .
  qed
  have r: "days \<le> 825" using assms(2) by (simp add: max_valid_days_eq)
  have n: "(of_nat now :: u64) = word_of_int (int now)" by simp
  have "(of_nat now + ucast (days_to_seconds days) :: u64) = word_of_int (int now + days * 86400)"
    unfolding u n by (simp only: of_int_add)
  then show "bound_time (of_nat now + ucast (days_to_seconds days)) = int now + days * 86400"
    unfolding bound_time_def using r assms by (simp only:) (rule sint_small; simp)
  have "(of_nat now - ucast (days_to_seconds days) :: u64) = word_of_int (int now - days * 86400)"
    unfolding u n by (simp only: of_int_diff)
  then show "bound_time (of_nat now - ucast (days_to_seconds days)) = int now - days * 86400"
    unfolding bound_time_def using r assms by (simp only:) (rule sint_small; simp)
qed

section \<open>What list shows\<close>

text \<open>Which certificates a filter asks for, and what they are ordered by.\<close>

definition asked :: "cert_row list \<Rightarrow> string \<Rightarrow> nat \<Rightarrow> int \<Rightarrow> string \<Rightarrow> cert_row \<Rightarrow> bool" where
  "asked rs filt now days cn r \<longleftrightarrow>
     (let since = int now - days * 86400 in
      if filt = ''expiring'' then r_status r = ''active'' \<and> now < r_na r \<and> int (r_na r) \<le> int now + days * 86400
      else if filt = ''expired'' then r_status r = ''active'' \<and> r_na r < now \<and> since \<le> int (r_na r)
      else if filt = ''revoked'' then r_status r = ''revoked'' \<and> since \<le> int (r_revoked_at r)
      else if filt = ''last'' then r_nb r \<le> now \<and> since \<le> int (r_nb r)
      else if cn = ''root-ca'' then r_kind r = ''root''
      else if cn = ''signing-ca'' then r_kind r = ''signing''
      else if \<exists>p s. cn = p @ ''-ca'' \<and> p \<noteq> [] \<and> s \<in> set rs \<and> r_kind s = ''signing'' \<and> r_purpose s = p
        then r_kind r = ''signing'' \<and> r_purpose r @ ''-ca'' = cn
      else r_cn r = cn)"

definition order_key :: "string \<Rightarrow> cert_row \<Rightarrow> nat" where
  "order_key filt = (if filt = ''expiring'' \<or> filt = ''expired'' then r_na
     else if filt = ''revoked'' then r_revoked_at else r_nb)"

lemma asked_window:
  "asked rs ''expiring'' now days cn r \<longleftrightarrow> r_status r = ''active'' \<and> now < r_na r \<and> int (r_na r) \<le> int now + days * 86400"
  "asked rs ''expired'' now days cn r \<longleftrightarrow> r_status r = ''active'' \<and> r_na r < now \<and> int now - days * 86400 \<le> int (r_na r)"
  "asked rs ''revoked'' now days cn r \<longleftrightarrow> r_status r = ''revoked'' \<and> int now - days * 86400 \<le> int (r_revoked_at r)"
  by (simp_all add: asked_def Let_def)

definition named_lineage :: "cert_row list \<Rightarrow> string \<Rightarrow> string" where
  "named_lineage rs cn =
     (if ends_with cn ''-ca'' \<and> list_ex (\<lambda>r. r_kind r = ''signing'' \<and> r_purpose r = take (length cn - 3) cn) rs
      then take (length cn - 3) cn else [])"

lemma named_lineage:
  "p \<noteq> [] \<Longrightarrow> named_lineage rs cn = p \<longleftrightarrow> cn = p @ ''-ca'' \<and> (\<exists>s \<in> set rs. r_kind s = ''signing'' \<and> r_purpose s = p)"
  by (auto simp: named_lineage_def list_ex_iff ends_with_iff)

lemma list_query_asked:
  assumes "0 \<le> days" "days \<le> max_valid_days" and "now < 2 ^ 62"
  shows "list_query rs filt now (ucast (days_to_seconds days)) cn = (asked rs filt now days cn, order_key filt)"
proof (cases "filt \<in> {''expiring'', ''expired'', ''revoked'', ''last''}")
  case True
  then show ?thesis
    unfolding list_query_def asked_def order_key_def Let_def bound_times [OF assms]
    by (elim insertE emptyE) simp_all
next
  case False
  have lineage: "(\<exists>p s. cn = p @ ''-ca'' \<and> p \<noteq> [] \<and> s \<in> set rs \<and> r_kind s = ''signing'' \<and> r_purpose s = p) \<longleftrightarrow> named_lineage rs cn \<noteq> []"
  proof
    assume "\<exists>p s. cn = p @ ''-ca'' \<and> p \<noteq> [] \<and> s \<in> set rs \<and> r_kind s = ''signing'' \<and> r_purpose s = p"
    then obtain p where "p \<noteq> []" "cn = p @ ''-ca'' \<and> (\<exists>s \<in> set rs. r_kind s = ''signing'' \<and> r_purpose s = p)" by blast
    with named_lineage [of p rs cn] show "named_lineage rs cn \<noteq> []" by simp
  next
    assume "named_lineage rs cn \<noteq> []"
    with named_lineage [OF this, of rs cn] show "\<exists>p s. cn = p @ ''-ca'' \<and> p \<noteq> [] \<and> s \<in> set rs \<and> r_kind s = ''signing'' \<and> r_purpose s = p"
      by (intro exI [of _ "named_lineage rs cn"]) blast
  qed
  have row: "r_purpose r @ ''-ca'' = cn \<longleftrightarrow> r_purpose r = named_lineage rs cn" if "named_lineage rs cn \<noteq> []" for r
  proof -
    from named_lineage [OF that, of rs cn] have "cn = named_lineage rs cn @ ''-ca''" by blast
    then show ?thesis by (metis append_same_eq)
  qed
  from False have q: "list_query rs filt now (ucast (days_to_seconds days)) cn =
      (if cn = ''root-ca'' \<or> cn = ''signing-ca'' then (\<lambda>r. r_kind r = (if cn = ''root-ca'' then ''root'' else ''signing''), r_nb)
       else if named_lineage rs cn \<noteq> [] then (\<lambda>r. r_kind r = ''signing'' \<and> r_purpose r = named_lineage rs cn, r_nb)
       else (\<lambda>r. r_cn r = cn, r_nb))"
    unfolding list_query_def Let_def named_lineage_def [symmetric] by simp
  from False have "asked rs filt now days cn = (\<lambda>r. if cn = ''root-ca'' then r_kind r = ''root''
      else if cn = ''signing-ca'' then r_kind r = ''signing''
      else if named_lineage rs cn \<noteq> [] then r_kind r = ''signing'' \<and> r_purpose r @ ''-ca'' = cn else r_cn r = cn)"
    unfolding fun_eq_iff asked_def Let_def lineage by simp
  moreover from False have "order_key filt = r_nb" by (simp add: order_key_def)
  ultimately show ?thesis unfolding q by (simp add: fun_eq_iff row)
qed

lemma sort_desc_props [simp]:
  "mset (sort_desc f xs) = mset xs" "set (sort_desc f xs) = set xs" "length (sort_desc f xs) = length xs"
  "sorted_wrt (\<lambda>x y. f y \<le> f x) (sort_desc f xs)"
proof -
  have "sorted (map (\<lambda>x. - int (f x)) (sort_desc f xs))" by (simp add: sort_desc_def)
  then show "sorted_wrt (\<lambda>x y. f y \<le> f x) (sort_desc f xs)" by (simp add: sorted_map)
qed (simp_all add: sort_desc_def)

lemma take_cap:
  "0 < limit \<Longrightarrow> map f (take (nat (limit + 1)) q) = xs \<Longrightarrow>
   take (nat limit) xs = map f (take (nat limit) q) \<and> (nat limit < length xs \<longleftrightarrow> nat limit < length q)"
proof -
  assume limit: "0 < limit" and xs: "map f (take (nat (limit + 1)) q) = xs"
  then have "nat (limit + 1) = Suc (nat limit)" by simp
  with xs show ?thesis by (auto simp: take_map min_def split: if_split_asm)
qed

lemma list_rows_eq:
  assumes "list_query rs filt now (ucast (days_to_seconds days)) cn = (sel, key)" and "0 \<le> limit"
  shows "list_rows now rs filt days cn limit =
    (let q = sort_desc key (filter sel rs) in
     (map (show_row now) (if limit = 0 then q else take (nat limit) q), 0 < limit \<and> nat limit < length q))"
proof (cases "limit = 0")
  case True
  then show ?thesis by (simp add: list_rows_def assms(1))
next
  case False
  with assms(2) have limit: "0 < limit" by simp
  let ?q = "sort_desc key (filter sel rs)"
  from take_cap [OF limit refl, of "show_row now" ?q] limit show ?thesis
    by (auto simp: list_rows_def assms(1) Let_def)
qed

text \<open>C19. \<^verbatim>\<open>list\<close> shows what was asked for. Of the certificates in the filter's window the latest
  come first, as many as the limit admits; that the answer was cut is reported exactly when there are more.
  The status shown follows from the filter, and no certificate is both expiring and expired. (One whose end
  is the present second is neither, although its status is shown as active.)\<close>

theorem list_shows_asked:
  "list_rows now rs filt days cn limit = (shown, truncated) \<Longrightarrow>
   0 \<le> days \<Longrightarrow> days \<le> max_valid_days \<Longrightarrow> now < 2 ^ 62 \<Longrightarrow> 0 \<le> limit \<Longrightarrow>
   (\<exists>q. mset q = mset (filter (asked rs filt now days cn) rs) \<and>
      sorted_wrt (\<lambda>x y. order_key filt y \<le> order_key filt x) q \<and>
      shown = map (show_row now) (if limit = 0 then q else take (nat limit) q) \<and>
      (truncated \<longleftrightarrow> 0 < limit \<and> nat limit < length q)) \<and>
   (filt = ''expiring'' \<longrightarrow> (\<forall>s \<in> set shown. lr_status s = ''active'')) \<and>
   (filt = ''expired'' \<longrightarrow> (\<forall>s \<in> set shown. lr_status s = ''expired'')) \<and>
   (filt = ''revoked'' \<longrightarrow> (\<forall>s \<in> set shown. lr_status s = ''revoked'')) \<and>
   (\<forall>r. \<not> (asked rs ''expiring'' now days cn r \<and> asked rs ''expired'' now window cn r)) \<and>
   (\<forall>r. r_na r = now \<longrightarrow> \<not> asked rs ''expiring'' now days cn r \<and> \<not> asked rs ''expired'' now days cn r)"
proof -
  assume run: "list_rows now rs filt days cn limit = (shown, truncated)"
    and bounds: "0 \<le> days" "days \<le> max_valid_days" "now < 2 ^ 62" "0 \<le> limit"
  let ?q = "sort_desc (order_key filt) (filter (asked rs filt now days cn) rs)"
  from run list_rows_eq [OF list_query_asked [OF bounds(1-3)] bounds(4), of rs filt cn]
  have shown: "shown = map (show_row now) (if limit = 0 then ?q else take (nat limit) ?q)"
    and tr: "truncated \<longleftrightarrow> 0 < limit \<and> nat limit < length ?q" by (simp_all add: Let_def)
  have only: "\<exists>r. s = show_row now r \<and> asked rs filt now days cn r" if "s \<in> set shown" for s
    using that by (auto simp: shown split: if_split_asm dest!: in_set_takeD)
  have plain: "c_str ''active'' = ''active''" "c_str ''revoked'' = ''revoked''" by code_simp+
  have st1: "lr_status s = ''active''" if "s \<in> set shown" "filt = ''expiring''" for s
    using only [OF that(1)] that(2) by (auto simp: asked_window show_row_def Let_def plain)
  have st2: "lr_status s = ''expired''" if "s \<in> set shown" "filt = ''expired''" for s
    using only [OF that(1)] that(2) by (auto simp: asked_window show_row_def Let_def plain)
  have st3: "lr_status s = ''revoked''" if "s \<in> set shown" "filt = ''revoked''" for s
    using only [OF that(1)] that(2) by (auto simp: asked_window show_row_def Let_def plain)
  have ex: "\<exists>q. mset q = mset (filter (asked rs filt now days cn) rs) \<and>
      sorted_wrt (\<lambda>x y. order_key filt y \<le> order_key filt x) q \<and>
      shown = map (show_row now) (if limit = 0 then q else take (nat limit) q) \<and>
      (truncated \<longleftrightarrow> 0 < limit \<and> nat limit < length q)"
    by (rule exI [of _ ?q]) (simp add: shown tr)
  have windows: "\<forall>r. \<not> (asked rs ''expiring'' now days cn r \<and> asked rs ''expired'' now window cn r)"
      "\<forall>r. r_na r = now \<longrightarrow> \<not> asked rs ''expiring'' now days cn r \<and> \<not> asked rs ''expired'' now days cn r"
    by (auto simp: asked_window)
  show ?thesis by (intro conjI impI ballI ex st1 st2 st3 windows)
qed

definition sample_listed :: "cert_row list" where
  "sample_listed = [cert_row_of (sample_cert ''f1'' ''C'' ''R'') ''signing'' ''tls'' ''active'' 0,
     cert_row_of (sample_cert ''f2'' ''R'' ''R'') ''root'' ''root'' ''active'' 0,
     cert_row_of (sample_cert ''f3'' ''D'' ''R'') ''signing'' ''tls'' ''active'' 0]"

theorem list_shows_asked_witness:
  "\<exists>shown. list_rows 1000 sample_listed ''cn'' 30 ''tls-ca'' 1 = (shown, True) \<and> length shown = 1"
proof -
  have "case list_rows 1000 sample_listed ''cn'' 30 ''tls-ca'' 1 of (shown, t) \<Rightarrow> t \<and> length shown = 1" by code_simp
  then obtain shown where s: "list_rows 1000 sample_listed ''cn'' 30 ''tls-ca'' 1 = (shown, True)" "length shown = 1"
    by (auto split: prod.split_asm)
  from list_shows_asked [OF s(1), where window = 0] have "\<exists>q. shown = map (show_row 1000) (take 1 q) \<and> 1 < length q"
    by (auto simp: max_valid_days_eq)
  with s show ?thesis by blast
qed

section \<open>What get exports\<close>

lemma profile_not_target: "profile_find profile = Some prof \<Longrightarrow> profile \<notin> {''config'', ''crl'', ''ca''}"
  by (auto simp: profile_find_def kDefs_def)

lemma top_by_snoc:
  fixes f :: "'a \<Rightarrow> nat"
  assumes "\<forall>x \<in> set xs. f x < f y"
  shows "top_by f (xs @ [y]) = Some y"
proof (cases "top_by f xs")
  case None
  then have "xs = []" by simp
  then show ?thesis by (simp add: top_by_def)
next
  case (Some b)
  with assms top_by_Some [OF Some] show ?thesis by (simp add: top_by_def)
qed

lemma active_fp_newest:
  assumes "cert_cn cert = cn" and "now < x_not_after cert" and "nul_free (x_fp cert)"
    and "\<forall>r \<in> set (active_rows rs cn kind now). r_nb r < x_not_before cert"
  shows "active_fp (index_cert cert kind p ''active'' 0 rs) cn kind now = Some (x_fp cert)"
proof -
  have "active_rows (index_cert cert kind p ''active'' 0 rs) cn kind now =
      filter (\<lambda>r. r_fp r \<noteq> x_fp cert) (active_rows rs cn kind now) @ [cert_row_of cert kind p ''active'' 0]"
    using assms(1,2) by (simp add: active_rows_def index_cert_def cert_row_of_def conj_ac)
  then show ?thesis using assms(3,4)
    by (subst active_fp_def) (simp add: top_by_snoc cert_row_of_def c_str_id_iff)
qed

text \<open>C17. What is issued is what \<^verbatim>\<open>get\<close> exports: until another certificate of the name and
  profile takes its place, asking for them gives the certificate just issued, in the encoding asked for, and
  with its chain after it when that is asked for.\<close>

theorem issued_is_exported:
  "issue_ee e c canon fr profile cn extra ov w = Inr (w', cert, ok) \<Longrightarrow> w_db w = Some d \<Longrightarrow>
   nul_free (x_fp cert) \<Longrightarrow> now < x_not_after cert \<Longrightarrow>
   (\<forall>r \<in> set (active_rows (index_rows d) cn profile now). r_nb r < x_not_before cert) \<Longrightarrow>
   \<exists>d' rs. w_db w' = Some d' \<and> db_cert_index d' = Some rs \<and>
     get_cert now c2 w' profile cn enc chain =
       Inr (Shown_cert (emit_encoding enc) cert #
         (if chain then map (Shown_cert (emit_encoding enc)) (issuers_above rs (db_store d') cert) else []))"
proof -
  assume run: "issue_ee e c canon fr profile cn extra ov w = Inr (w', cert, ok)" and d: "w_db w = Some d"
    and fp: "nul_free (x_fp cert)" and now: "now < x_not_after cert"
    and newest: "\<forall>r \<in> set (active_rows (index_rows d) cn profile now). r_nb r < x_not_before cert"
  from run obtain p sans where pre: "issue_precheck e c w profile cn extra ov = Inr (p, sans)"
      and lock: "issue_locked e c canon fr profile cn p sans w = Inr (w', cert, ok)"
    by (auto simp: issue_ee_def rbind_Inr)
  from issue_precheck_Inr [OF pre] have target: "profile \<notin> {''config'', ''crl'', ''ca''}"
    using profile_not_target by (auto dest!: issue_request_Inr)
  from issue_locked_Inr [OF lock] d obtain an where cert: "cert = leaf_cert c p cn fr (f_pub fr) an (e_clock e 3)"
      and w': "(w', ok) = write_leaf e cn cert (f_pub fr)
         (w\<lparr>w_db := Some (record_cert cert profile (gn_purpose (pl_gen p)) (ensure_cert_index d))\<rparr>)" by auto
  let ?rs = "index_cert cert profile (gn_purpose (pl_gen p)) ''active'' 0 (index_rows d)"
  let ?d = "record_cert cert profile (gn_purpose (pl_gen p)) (ensure_cert_index d)"
  have rs: "db_cert_index (ensure_cert_index d) = Some (index_rows d)"
    by (simp add: ensure_cert_index_def index_rows_def)
  have db: "w_db w' = Some ?d" using arg_cong [OF w', of fst] by simp
  have idx: "db_cert_index ?d = Some ?rs" by (rule record_cert_index [OF rs])
  have "cert_cn cert = cn" by (simp add: cert)
  from active_fp_newest [OF this now fp newest] have "active_fp ?rs cn profile now = Some (x_fp cert)" .
  moreover have "load_cert (db_store ?d) (x_fp cert) = Some cert" by (rule record_cert_store)
  ultimately show ?thesis using target db idx
    by (intro exI [of _ ?d] exI [of _ ?rs]) (simp add: get_cert_def show_cert_def)
qed

theorem issued_is_exported_witness:
  "\<exists>w' cert ok. sample_issue = Inr (w', cert, ok) \<and>
     get_cert 1100 sample_config w' ''server'' ''www.example.org'' ''der'' False = Inr [Shown_cert Der cert]"
proof -
  obtain w' cert ok where run: "sample_issue = Inr (w', cert, ok)" using sample_issue_ok by blast
  have "case sample_issue of Inr (_, cert, _) \<Rightarrow> nul_free (x_fp cert) \<and> 1100 < x_not_after cert | Inl _ \<Rightarrow> False" by code_simp
  then have c: "nul_free (x_fp cert)" "1100 < x_not_after cert" unfolding run by simp_all
  obtain d where d: "w_db sample_world = Some d" by (auto simp: sample_world_def)
  have "case w_db sample_world of None \<Rightarrow> False | Some d \<Rightarrow> active_rows (index_rows d) ''www.example.org'' ''server'' 1100 = []" by code_simp
  with d have none: "\<forall>r \<in> set (active_rows (index_rows d) ''www.example.org'' ''server'' 1100). r_nb r < x_not_before cert" by simp
  have "emit_encoding ''der'' = Der" by (simp add: emit_encoding_def)
  with issued_is_exported [OF run [unfolded sample_issue_def] d c none, of sample_config "''der''" False] run
  show ?thesis by auto
qed

end
