(* ===== verification/Cli.thy ===== *)
theory Cli
  imports System Query
begin

text \<open>
  The command line, \<^verbatim>\<open>src/main.cpp\<close>: what is made sure of before a command runs, which
  configuration and which secrets it runs on, and how its arguments become those of the operation. The
  arguments arrive as the option parser leaves them, with the targets it admits. A run ends in an exit code,
  the objects and lines printed and the differences warned about; an exception ends it with code 1.
\<close>

section \<open>Arguments\<close>

definition parse_san :: "string \<Rightarrow> request_san option" where
  "parse_san spec =
     (case cut_at CHR '':'' spec of None \<Rightarrow> None
      | Some (type, value) \<Rightarrow>
          if value = [] then None
          else if type = ''dns'' then Some (K_dns, value)
          else if type = ''email'' then Some (K_email, value)
          else if type = ''ip'' then Some (K_ip, value)
          else if type = ''uri'' then Some (K_uri, value)
          else None)"

text \<open>The first argument that is no SAN ends the command.\<close>

fun parse_sans :: "string list \<Rightarrow> request_san list option" where
  "parse_sans [] = Some []"
| "parse_sans (s # ss) =
     (case parse_san s of None \<Rightarrow> None | Some san \<Rightarrow> map_option (Cons san) (parse_sans ss))"

text \<open>\<^verbatim>\<open>--valid\<close>: not given, given, or not a duration.\<close>

definition parse_valid :: "string \<Rightarrow> int option option" where
  "parse_valid s =
     (if s = [] then Some None
      else case parse_duration s of None \<Rightarrow> None | Some n \<Rightarrow> Some (Some (int n)))"

record list_options =
  lo_expiring :: "int option"
  lo_expired :: "int option"
  lo_revoked :: "int option"
  lo_last :: "int option"
  lo_cn :: "string option"
  lo_tsv :: bool
  lo_limit :: int

datatype command =
    Cmd_none
  | Cmd_init
  | Cmd_create string string "string list" string
  | Cmd_enroll string
  | Cmd_sign string string string string string
  | Cmd_revoke string string string string
  | Cmd_add string
  | Cmd_renew string string
  | Cmd_refresh string
  | Cmd_get string string string string bool
  | Cmd_list list_options

section \<open>What the parser admits\<close>

text \<open>The targets offered follow the profile table; an option of \<^verbatim>\<open>list\<close> given without
  a value arrives as 0.\<close>

definition signable :: "string list" where
  "signable = map pd_name kDefs"

definition creatable :: "string list" where
  "creatable = map pd_name (filter (\<lambda>p. \<not> pd_csr_only p) kDefs)"

definition revokable :: "string list" where
  "revokable = signable @ [''ca'']"

definition gettable :: "string list" where
  "gettable = signable @ [''ca'', ''crl'', ''config'', ''nonce'']"

definition in_window :: "int option \<Rightarrow> bool" where
  "in_window v = (case v of None \<Rightarrow> True | Some n \<Rightarrow> n = 0 \<or> 1 \<le> n \<and> n \<le> max_valid_days)"

definition admits_get :: "string \<Rightarrow> string \<Rightarrow> bool" where
  "admits_get target enc \<longleftrightarrow> target \<in> set gettable \<and> enc \<in> set [''pem'', ''der'']"

definition admits_refresh :: "string \<Rightarrow> bool" where
  "admits_refresh scope \<longleftrightarrow> scope \<in> set [''root'', ''signing'', ''all'']"

definition admits_list :: "list_options \<Rightarrow> bool" where
  "admits_list opt \<longleftrightarrow> in_window (lo_expiring opt) \<and> in_window (lo_expired opt) \<and> in_window (lo_revoked opt) \<and>
     in_window (lo_last opt) \<and> 0 \<le> lo_limit opt"

definition admitted :: "command \<Rightarrow> bool" where
  "admitted cmd \<longleftrightarrow>
     (case cmd of
        Cmd_create target _ _ _ \<Rightarrow> target \<in> set creatable
      | Cmd_sign target _ _ _ _ \<Rightarrow> target \<in> set signable
      | Cmd_revoke target _ _ _ \<Rightarrow> target \<in> set revokable
      | Cmd_refresh scope \<Rightarrow> admits_refresh scope
      | Cmd_get target _ _ enc _ \<Rightarrow> admits_get target enc
      | Cmd_list opt \<Rightarrow> admits_list opt
      | _ \<Rightarrow> True)"

section \<open>Surroundings\<close>

record cli =
  cl_getenv :: "string \<Rightarrow> string option"
  cl_file :: toml_file
  cl_stdin :: string
  cl_files :: "string \<Rightarrow> string option"
  cl_env :: env
  cl_canon :: "san \<Rightarrow> san option"
  cl_parse :: "string \<Rightarrow> csr option"
  cl_fresh :: fresh_of
  cl_raw :: string
  cl_statements :: nat

record outcome =
  out_code :: nat
  out_shown :: "shown list"
  out_passphrase :: "string option"
  out_ignored :: "cfg_error list"
  out_warned :: "reconcile_warning list"

definition exits :: "nat \<Rightarrow> outcome" where
  "exits n = \<lparr>out_code = n, out_shown = [], out_passphrase = None, out_ignored = [], out_warned = []\<rparr>"

definition exit_of :: "'a + 'b \<Rightarrow> outcome" where
  "exit_of r = exits (case r of Inl _ \<Rightarrow> 1 | Inr _ \<Rightarrow> 0)"

text \<open>A ceremony and a signing print the common name.\<close>

definition named :: "'a + string \<Rightarrow> outcome" where
  "named r = (case r of Inl _ \<Rightarrow> exits 1 | Inr cn \<Rightarrow> (exits 0)\<lparr>out_shown := [Shown_line cn]\<rparr>)"

text \<open>An empty or missing root PIN is the PIN.\<close>

definition secrets_of :: "(string \<Rightarrow> string option) \<Rightarrow> secrets" where
  "secrets_of getenv =
     (let var = (\<lambda>k. case getenv k of None \<Rightarrow> [] | Some v \<Rightarrow> v);
          pin = var pin_env; root_pin = var root_pin_env
      in \<lparr>sec_passphrase = var passphrase_env, sec_pin = pin, sec_root_pin = (if root_pin = [] then pin else root_pin)\<rparr>)"

definition run_env :: "cli \<Rightarrow> env" where
  "run_env l = (cl_env l)\<lparr>e_secrets := secrets_of (cl_getenv l)\<rparr>"

definition file_config :: "cli \<Rightarrow> config option" where
  "file_config l = (case cfg_load (cl_file l) of Inl _ \<Rightarrow> None | Inr c \<Rightarrow> Some c)"

definition file_problems :: "cli \<Rightarrow> cfg_error list" where
  "file_problems l = (case cfg_load (cl_file l) of Inl errs \<Rightarrow> errs | Inr c \<Rightarrow> cfg_unknown c)"

section \<open>The commands\<close>

definition run_create ::
  "cli \<Rightarrow> config \<Rightarrow> string \<Rightarrow> string \<Rightarrow> string list \<Rightarrow> string \<Rightarrow> world \<Rightarrow> world \<times> outcome" where
  "run_create l eff target cn specs valid w =
     (if cn = [] then (w, exits 1)
      else case parse_sans specs of None \<Rightarrow> (w, exits 1)
      | Some sans \<Rightarrow>
     (case parse_valid valid of None \<Rightarrow> (w, exits 1)
      | Some ov \<Rightarrow>
     (case issue_ee (run_env l) eff (cl_canon l) (cl_fresh l 0) target cn sans ov w of
        Inl x \<Rightarrow> (w, exits 1)
      | Inr (w', _) \<Rightarrow> (w', exits 0))))"

definition run_sign ::
  "cli \<Rightarrow> config \<Rightarrow> string \<Rightarrow> string \<Rightarrow> string \<Rightarrow> string \<Rightarrow> string \<Rightarrow> world \<Rightarrow> world \<times> outcome" where
  "run_sign l eff target who nonce src valid w =
     (case parse_valid valid of None \<Rightarrow> (w, exits 1)
      | Some ov \<Rightarrow>
     (case sign_csr (run_env l) eff (cl_canon l) (cl_parse l) (cl_fresh l 0) target who nonce
             (read_csr_bytes (cl_stdin l) (cl_files l) src) ov w of
        (w', Inl _) \<Rightarrow> (w', exits 1)
      | (w', Inr cert) \<Rightarrow> (w', (exits 0)\<lparr>out_shown := [Shown_line (cert_cn cert)]\<rparr>)))"

definition run_revoke ::
  "cli \<Rightarrow> config \<Rightarrow> string \<Rightarrow> string \<Rightarrow> string \<Rightarrow> string \<Rightarrow> world \<Rightarrow> world \<times> outcome" where
  "run_revoke l eff target cn reason serial w =
     (if target = ''ca'' then
        (if serial \<noteq> [] then (w, exits 1)
         else case revoke_ca (run_env l) eff cn reason w of (w', r) \<Rightarrow> (w', exit_of r))
      else if (cn = []) = (serial = []) then (w, exits 1)
      else case revoke (run_env l) eff target cn reason serial w of (w', r) \<Rightarrow> (w', exit_of r))"

definition run_renew :: "cli \<Rightarrow> config \<Rightarrow> string \<Rightarrow> string \<Rightarrow> world \<Rightarrow> world \<times> outcome" where
  "run_renew l eff purpose new_cn w =
     (if purpose = [] \<and> length (cfg_cas eff) \<noteq> 1 then (w, exits 1)
      else case renew_signing_ca (run_env l) eff (cl_fresh l)
                  (if purpose = [] then fst (hd (cfg_cas eff)) else purpose) new_cn w of
          (w', r) \<Rightarrow> (w', named r))"

definition scope_of :: "string \<Rightarrow> crl_scope" where
  "scope_of s = (if s = ''root'' then Scope_root else if s = ''signing'' then Scope_signing else Scope_all)"

definition run_get_cert :: "cli \<Rightarrow> config \<Rightarrow> string \<Rightarrow> string \<Rightarrow> string \<Rightarrow> bool \<Rightarrow> world \<Rightarrow> outcome" where
  "run_get_cert l eff target cn enc chain w =
     (if chain \<and> (target \<noteq> ''ca'' \<and> profile_find target = None \<or> enc = ''der'') then exits 1
      else case get_cert (e_clock (cl_env l) 0) eff w target cn enc chain of
          Inl _ \<Rightarrow> exits 1
        | Inr shown \<Rightarrow> (exits 0)\<lparr>out_shown := shown\<rparr>)"

text \<open>\<^verbatim>\<open>std::getline\<close>.\<close>

definition first_line :: "string \<Rightarrow> string" where
  "first_line s = takeWhile (\<lambda>c. c \<noteq> CHR 0x0A) s"

definition run_get ::
  "cli \<Rightarrow> config \<Rightarrow> string \<Rightarrow> string \<Rightarrow> string \<Rightarrow> string \<Rightarrow> bool \<Rightarrow> world \<Rightarrow> world \<times> outcome" where
  "run_get l eff target cn who enc chain w =
     (if target = ''nonce'' then
        (if who = [] then (w, exits 1)
         else case get_nonce (run_env l) (cl_raw l) who w of
             Inl _ \<Rightarrow> (w, exits 1)
           | Inr (w', nonce) \<Rightarrow> (w', (exits 0)\<lparr>out_shown := [Shown_line nonce]\<rparr>))
      else if target \<noteq> ''config'' \<and> cn = [] then (w, exits 1)
      else let cn' = (if cn = ''-'' then first_line (cl_stdin l) else cn)
           in if cn = ''-'' \<and> cn' = [] then (w, exits 1)
              else (w, run_get_cert l eff target cn' enc chain w))"

definition list_filter :: "list_options \<Rightarrow> string \<times> int" where
  "list_filter opt =
     (let (filt, days) =
        (case lo_expiring opt of Some n \<Rightarrow> (''expiring'', n) | None \<Rightarrow>
        (case lo_expired opt of Some n \<Rightarrow> (''expired'', n) | None \<Rightarrow>
        (case lo_revoked opt of Some n \<Rightarrow> (''revoked'', n) | None \<Rightarrow>
        (case lo_last opt of Some n \<Rightarrow> (''last'', n) | None \<Rightarrow> (''cn'', default_list_window_days)))))
      in (filt, if days < 1 then default_list_window_days else days))"

definition run_list :: "cli \<Rightarrow> list_options \<Rightarrow> world \<Rightarrow> outcome" where
  "run_list l opt w =
     (if length (filter id [lo_expiring opt \<noteq> None, lo_expired opt \<noteq> None, lo_revoked opt \<noteq> None,
           lo_last opt \<noteq> None, lo_cn opt \<noteq> None]) \<noteq> 1
      then exits 1
      else case list_certs (e_clock (cl_env l) 0) w (fst (list_filter opt)) (snd (list_filter opt))
                  (case lo_cn opt of None \<Rightarrow> [] | Some cn \<Rightarrow> cn) (lo_tsv opt) (lo_limit opt) of
          Inl _ \<Rightarrow> exits 1
        | Inr (lines, _) \<Rightarrow> (exits 0)\<lparr>out_shown := map Shown_line lines\<rparr>)"

definition warned :: "reconcile_warning list \<Rightarrow> world \<times> outcome \<Rightarrow> world \<times> outcome" where
  "warned ws r = (case r of (w, out) \<Rightarrow> (w, out\<lparr>out_warned := ws\<rparr>))"

definition drift :: "cli \<Rightarrow> config \<Rightarrow> reconcile_warning list" where
  "drift l eff = (case file_config l of None \<Rightarrow> [] | Some c \<Rightarrow> reconcile c eff)"

text \<open>What runs once the store is known to be initialized and its configuration is loaded.\<close>

definition run_on_store :: "cli \<Rightarrow> config \<Rightarrow> command \<Rightarrow> world \<Rightarrow> world \<times> outcome" where
  "run_on_store l eff cmd w =
     (case cmd of
        Cmd_create target cn specs valid \<Rightarrow> warned (drift l eff) (run_create l eff target cn specs valid w)
      | Cmd_enroll who \<Rightarrow>
          (case enroll (run_env l) who w of Inl _ \<Rightarrow> (w, exits 1) | Inr w' \<Rightarrow> (w', exits 0))
      | Cmd_sign target who nonce src valid \<Rightarrow>
          warned (drift l eff) (run_sign l eff target who nonce src valid w)
      | Cmd_revoke target cn reason serial \<Rightarrow> run_revoke l eff target cn reason serial w
      | Cmd_add purpose \<Rightarrow>
          (case file_config l of None \<Rightarrow> (w, exits 1)
           | Some c \<Rightarrow> warned (drift l eff)
               (case add_signing_ca (run_env l) c (cl_fresh l) purpose w of (w', r) \<Rightarrow> (w', named r)))
      | Cmd_renew purpose new_cn \<Rightarrow> run_renew l eff purpose new_cn w
      | Cmd_refresh scope \<Rightarrow>
          (case refresh_crl (run_env l) eff (scope_of scope) w of (w', r) \<Rightarrow> (w', exit_of r))
      | Cmd_get target cn who enc chain \<Rightarrow> run_get l eff target cn who enc chain w
      | Cmd_list opt \<Rightarrow> (w, run_list l opt w)
      | _ \<Rightarrow> (w, exits 0))"

definition materializes :: "command \<Rightarrow> bool" where
  "materializes cmd \<longleftrightarrow> (case cmd of Cmd_init \<Rightarrow> True | Cmd_add _ \<Rightarrow> True | _ \<Rightarrow> False)"

text \<open>Problems of the file are fatal where it is what gets created; \<^verbatim>\<open>create\<close> and
  \<^verbatim>\<open>sign\<close> read it too and only say that they ignore them.\<close>

definition reads_file :: "command \<Rightarrow> bool" where
  "reads_file cmd \<longleftrightarrow> (case cmd of Cmd_create _ _ _ _ \<Rightarrow> True | Cmd_sign _ _ _ _ _ \<Rightarrow> True | _ \<Rightarrow> False)"

definition ignoring :: "cfg_error list \<Rightarrow> world \<times> outcome \<Rightarrow> world \<times> outcome" where
  "ignoring problems r = (case r of (w, out) \<Rightarrow> (w, out\<lparr>out_ignored := problems\<rparr>))"

definition run_init :: "cli \<Rightarrow> world \<Rightarrow> world \<times> outcome" where
  "run_init l w =
     (case file_config l of None \<Rightarrow> (w, exits 1)
      | Some c \<Rightarrow>
          (case init (run_env l) (cl_statements l) (cl_raw l) c (cl_fresh l) w of
             (w', shown, r) \<Rightarrow> (w', (exit_of r)\<lparr>out_passphrase := shown\<rparr>)))"

definition main :: "cli \<Rightarrow> command \<Rightarrow> world \<Rightarrow> world \<times> outcome" where
  "main l cmd w =
     (if cmd = Cmd_none then (w, exits 0)
      else if materializes cmd \<and> file_problems l \<noteq> [] then (w, exits 1)
      else if cmd = Cmd_init then run_init l w
      else ignoring (if reads_file cmd then file_problems l else [])
        (if \<not> is_initialized w then (w, exits 1)
         else case load_config (map_option db_snapshot (w_db w)) of
            Inl _ \<Rightarrow> (w, exits 1)
          | Inr None \<Rightarrow> (w, exits 1)
          | Inr (Some eff) \<Rightarrow> run_on_store l eff cmd w))"

section \<open>A run is a sequence of steps\<close>

lemma two_halves:
  assumes on: "runs_on (sy_world s) req c" and pre: "prepare e c canon fr req (sy_world s) = (v, t)"
    and rest: "case t of None \<Rightarrow> w' = v | Some u \<Rightarrow> \<exists>evs. perform e c canon f u v = (w', evs)"
  shows "\<exists>log. sys_step\<^sup>*\<^sup>* s (s\<lparr>sy_world := w', sy_log := log\<rparr>)"
proof (cases t)
  case None
  with rest Start [OF on pre] show ?thesis
    by (intro exI [of _ "sy_log s"] r_into_rtranclp) (simp add: system_upd)
next
  case (Some u)
  with rest obtain evs where fin: "perform e c canon f u v = (w', evs)" by auto
  let ?s = "s\<lparr>sy_world := v, sy_tasks := u # sy_tasks s\<rparr>"
  from Start [OF on pre] Some have "sys_step s ?s" by simp
  moreover from fin have "sys_step ?s (?s\<lparr>sy_world := w', sy_tasks := remove1 u (sy_tasks ?s), sy_log := evs @ sy_log ?s\<rparr>)"
    by (intro Finish [where e = e and c = c and canon = canon and fresh = f]) simp_all
  then have "sys_step ?s (s\<lparr>sy_world := w', sy_log := evs @ sy_log s\<rparr>)" by simp
  ultimately show ?thesis by (meson converse_rtranclp_into_rtranclp r_into_rtranclp)
qed

lemma issue_steps:
  assumes "issue_ee e c canon f profile cn sans ov (sy_world s) = Inr (w', x)" and "runs_on (sy_world s) (Ask_issue profile cn sans ov) c"
  shows "\<exists>log. sys_step\<^sup>*\<^sup>* s (s\<lparr>sy_world := w', sy_log := log\<rparr>)"
proof -
  from assms(1) obtain p ss where "issue_precheck e c (sy_world s) profile cn sans ov = Inr (p, ss)"
      and "issue_locked e c canon f profile cn p ss (sy_world s) = Inr (w', x)"
    by (auto simp: issue_ee_def rbind_Inr)
  then show ?thesis
    by (intro two_halves [OF assms(2), where e = e and canon = canon and f = f and t = "Some (Do_issue profile cn p ss)"])
      (auto split: prod.split)
qed

lemma sign_steps:
  assumes "sign_csr e c canon parse f profile who nonce bytes ov (sy_world s) = (w', r)"
    and "runs_on (sy_world s) (Ask_sign profile who nonce (csr_request c parse profile bytes ov) ov) c"
  shows "\<exists>log. sys_step\<^sup>*\<^sup>* s (s\<lparr>sy_world := w', sy_log := log\<rparr>)"
proof -
  obtain w1 q where pre: "sign_precheck e c canon (sy_world s) profile who nonce (csr_request c parse profile bytes ov) ov = (w1, q)"
    by fastforce
  show ?thesis
  proof (cases q)
    case (Inl x)
    with pre assms(1) show ?thesis
      by (intro two_halves [OF assms(2), where e = e and canon = canon and t = None]) (auto simp: sign_csr_def)
  next
    case (Inr a)
    obtain p rq cn an where a: "a = (p, rq, cn, an)" by (cases a) auto
    with pre Inr assms(1) show ?thesis
      by (intro two_halves [OF assms(2), where e = e and canon = canon and f = f and v = w1 and t = "Some (Do_sign profile who nonce p rq cn an)"])
        (auto simp: sign_csr_def split: sum.splits)
  qed
qed

lemma revoke_steps:
  assumes "revoke e c target cn reason serial (sy_world s) = (w', r)" and "runs_on (sy_world s) (Ask_revoke target cn reason serial) c"
  shows "\<exists>log. sys_step\<^sup>*\<^sup>* s (s\<lparr>sy_world := w', sy_log := log\<rparr>)"
proof (cases "revoke_precheck e c (sy_world s) target cn reason serial")
  case (Inl x)
  with assms(1) show ?thesis
    by (intro two_halves [OF assms(2), where e = e and t = None]) (auto simp: revoke_def)
next
  case (Inr p)
  with assms(1) show ?thesis
    by (intro two_halves [OF assms(2), where e = e and v = "sy_world s" and t = "Some (Do_revoke target cn serial p)"])
      (auto simp: revoke_def split: sum.splits)
qed

lemma revoke_ca_steps:
  assumes "revoke_ca e c selector reason (sy_world s) = (w', r)" and "runs_on (sy_world s) (Ask_revoke_ca selector reason) c"
  shows "\<exists>log. sys_step\<^sup>*\<^sup>* s (s\<lparr>sy_world := w', sy_log := log\<rparr>)"
proof -
  obtain w1 q where pre: "revoke_ca_precheck e c (sy_world s) selector reason = (w1, q)" by fastforce
  show ?thesis
  proof (cases q)
    case (Inl x)
    with pre assms(1) show ?thesis
      by (intro two_halves [OF assms(2), where e = e and t = None]) (auto simp: revoke_ca_def)
  next
    case (Inr a)
    obtain p victim vc where a: "a = (p, victim, vc)" by (cases a) auto
    with pre Inr assms(1) show ?thesis
      by (intro two_halves [OF assms(2), where e = e and v = w1 and t = "Some (Do_revoke_ca p victim vc)"])
        (auto simp: revoke_ca_def split: sum.splits)
  qed
qed

lemma refresh_steps:
  assumes "refresh_crl e c scope (sy_world s) = (w', r)" and "runs_on (sy_world s) (Ask_refresh scope) c"
  shows "\<exists>log. sys_step\<^sup>*\<^sup>* s (s\<lparr>sy_world := w', sy_log := log\<rparr>)"
proof (cases "refresh_precheck e c scope (sy_world s)")
  case (Inl x)
  with assms(1) show ?thesis
    by (intro two_halves [OF assms(2), where e = e and t = None]) (auto simp: refresh_crl_def)
next
  case (Inr jobs)
  with assms(1) show ?thesis
    by (intro two_halves [OF assms(2), where e = e and v = "sy_world s" and t = "if jobs = [] then None else Some (Do_refresh jobs)"])
      (auto simp: refresh_crl_def split: if_split_asm)
qed

lemma add_steps:
  assumes "add_signing_ca e c fr purpose (sy_world s) = (w', r)" and "runs_on (sy_world s) (Ask_add purpose) c"
  shows "\<exists>log. sys_step\<^sup>*\<^sup>* s (s\<lparr>sy_world := w', sy_log := log\<rparr>)"
proof -
  obtain w1 q where pre: "add_precheck e c fr purpose (sy_world s) = (w1, q)" by fastforce
  show ?thesis
  proof (cases q)
    case (Inl x)
    with pre assms(1) show ?thesis
      by (intro two_halves [OF assms(2), where e = e and fr = fr and t = None]) (auto simp: add_signing_ca_def)
  next
    case (Inr a)
    obtain ca nx cert key where a: "a = (ca, nx, cert, key)" by (cases a) auto
    with pre Inr assms(1) show ?thesis
      by (intro two_halves [OF assms(2), where e = e and fr = fr and v = w1 and t = "Some (Do_add ca nx cert key)"])
        (auto simp: add_signing_ca_def split: sum.splits)
  qed
qed

lemma renew_steps:
  assumes "renew_signing_ca e c fr purpose cn (sy_world s) = (w', r)" and "runs_on (sy_world s) (Ask_renew purpose cn) c"
  shows "\<exists>log. sys_step\<^sup>*\<^sup>* s (s\<lparr>sy_world := w', sy_log := log\<rparr>)"
proof -
  obtain w1 q where pre: "renew_precheck e c fr purpose cn (sy_world s) = (w1, q)" by fastforce
  show ?thesis
  proof (cases q)
    case (Inl x)
    with pre assms(1) show ?thesis
      by (intro two_halves [OF assms(2), where e = e and fr = fr and t = None]) (auto simp: renew_signing_ca_def)
  next
    case (Inr a)
    obtain ca nx cert key where a: "a = (ca, nx, cert, key)" by (cases a) auto
    with pre Inr assms(1) show ?thesis
      by (intro two_halves [OF assms(2), where e = e and fr = fr and v = w1 and t = "Some (Do_renew ca nx cert key)"])
        (auto simp: renew_signing_ca_def split: sum.splits)
  qed
qed

lemma stays: "\<exists>log. sys_step\<^sup>*\<^sup>* s (s\<lparr>sy_world := sy_world s, sy_log := log\<rparr>)"
  by (intro exI [of _ "sy_log s"]) simp

text \<open>On an initialized store whose configuration is loaded every command but \<^verbatim>\<open>add\<close> may run.\<close>

lemma on_store:
  assumes "is_initialized w" and "load_config (map_option db_snapshot (w_db w)) = Inr (Some eff)"
    and "\<forall>p. req \<noteq> Ask_add p"
  shows "runs_on w req eff"
proof -
  from assms(1) obtain d where d: "w_db w = Some d" by (auto simp: is_initialized_def split: option.split_asm)
  with assms(2) have "\<exists>d. w_db w = Some d \<and> load_config (Some (db_snapshot d)) = Inr (Some eff)" by simp
  with assms(1,3) show ?thesis by (cases req) (simp_all add: runs_on_def)
qed

lemma file_config_ok: "file_config l = Some c \<Longrightarrow> config_ok c"
  by (auto simp: file_config_def load_config_ok split: sum.split_asm)

lemma run_on_store_steps:
  assumes run: "run_on_store l eff cmd (sy_world s) = (w', out)" and raw: "nul_free (cl_raw l)"
    and ini: "is_initialized (sy_world s)" and conf: "load_config (map_option db_snapshot (w_db (sy_world s))) = Inr (Some eff)"
  shows "\<exists>log. sys_step\<^sup>*\<^sup>* s (s\<lparr>sy_world := w', sy_log := log\<rparr>)"
proof -
  note on = on_store [OF ini conf]
  have "w' = sy_world s \<or> ?thesis"
  proof (cases cmd)
    case (Cmd_create target cn specs valid)
    with run show ?thesis
      by (auto simp: run_on_store_def warned_def run_create_def on split: option.split_asm sum.split_asm if_split_asm prod.split_asm
          dest!: issue_steps)
  next
    case (Cmd_enroll who)
    have "\<exists>log. sys_step\<^sup>*\<^sup>* s (s\<lparr>sy_world := v, sy_log := log\<rparr>)" if "enroll e who (sy_world s) = Inr v" for e v
      using Enroll [OF ini that] by (intro exI [of _ "sy_log s"] r_into_rtranclp) simp
    with run Cmd_enroll show ?thesis by (auto simp: run_on_store_def split: sum.split_asm)
  next
    case (Cmd_sign target who nonce src valid)
    with run show ?thesis
      by (auto simp: run_on_store_def warned_def run_sign_def on split: option.split_asm prod.split_asm sum.split_asm dest!: sign_steps)
  next
    case (Cmd_revoke target cn reason serial)
    with run show ?thesis
      by (auto simp: run_on_store_def run_revoke_def on split: if_split_asm prod.split_asm dest!: revoke_steps revoke_ca_steps)
  next
    case (Cmd_add purpose)
    have "runs_on (sy_world s) (Ask_add purpose) c" if "file_config l = Some c" for c
      using file_config_ok [OF that] ini by (simp add: runs_on_def)
    with run Cmd_add show ?thesis
      by (auto simp: run_on_store_def warned_def split: option.split_asm prod.split_asm dest!: add_steps)
  next
    case (Cmd_renew purpose cn)
    with run show ?thesis
      by (auto simp: run_on_store_def run_renew_def on split: if_split_asm prod.split_asm dest!: renew_steps)
  next
    case (Cmd_refresh scope)
    with run show ?thesis
      by (auto simp: run_on_store_def on split: prod.split_asm dest!: refresh_steps)
  next
    case (Cmd_get target cn who enc chain)
    have "\<exists>log. sys_step\<^sup>*\<^sup>* s (s\<lparr>sy_world := v, sy_log := log\<rparr>)" if "get_nonce e (cl_raw l) who (sy_world s) = Inr (v, n)" for e v n
      using Lease [OF ini that raw] by blast
    with run Cmd_get show ?thesis
      by (auto simp: run_on_store_def run_get_def Let_def split: if_split_asm prod.split_asm sum.split_asm)
  qed (use run in \<open>auto simp: run_on_store_def\<close>)
  then show ?thesis using stays by blast
qed

text \<open>C6. Whatever the command line, the configuration file, the environment and the state of the store, a
  run of the program is a sequence of steps of the transition system: what holds of every reachable state
  holds however runs of the program follow each other or overlap.\<close>

theorem main_is_steps:
  "main l cmd (sy_world s) = (w', out) \<Longrightarrow> nul_free (cl_raw l) \<Longrightarrow>
   \<exists>log. sys_step\<^sup>*\<^sup>* s (s\<lparr>sy_world := w', sy_log := log\<rparr>)"
proof -
  assume run: "main l cmd (sy_world s) = (w', out)" and raw: "nul_free (cl_raw l)"
  consider "w' = sy_world s" | "run_init l (sy_world s) = (w', out)"
    | eff out' where "is_initialized (sy_world s)" "load_config (map_option db_snapshot (w_db (sy_world s))) = Inr (Some eff)"
        "run_on_store l eff cmd (sy_world s) = (w', out')"
    using run unfolding main_def ignoring_def by (auto split: if_split_asm sum.split_asm option.split_asm prod.split_asm)
  then show ?thesis
  proof cases
    case 1
    then show ?thesis using stays by simp
  next
    case 2
    show ?thesis
    proof (cases "file_config l")
      case None
      with 2 stays show ?thesis by (auto simp: run_init_def)
    next
      case (Some c)
      obtain v shown r where ini: "init (run_env l) (cl_statements l) (cl_raw l) c (cl_fresh l) (sy_world s) = (v, shown, r)"
        by (metis prod_cases3)
      with 2 Some have "v = w'" by (simp add: run_init_def)
      with Init [OF ini file_config_ok [OF Some]] show ?thesis
        by (intro exI [of _ "sy_log s"] r_into_rtranclp) simp
    qed
  next
    case 3
    then show ?thesis using run_on_store_steps [OF 3(3) raw 3(1,2)] by simp
  qed
qed

text \<open>C20. The configuration is frozen by init. Of two runs of the same command that differ in the
  configuration file alone, whatever the files hold, only init and add can do different things to the store
  and its files, exit differently or print something else: the file is read, and differences are warned
  about, and nothing else comes of it.\<close>

theorem file_only_warned:
  "\<not> materializes cmd \<Longrightarrow>
   fst (main (l\<lparr>cl_file := f\<rparr>) cmd w) = fst (main l cmd w) \<and>
   (snd (main (l\<lparr>cl_file := f\<rparr>) cmd w))\<lparr>out_warned := [], out_ignored := []\<rparr> =
     (snd (main l cmd w))\<lparr>out_warned := [], out_ignored := []\<rparr>"
proof -
  assume cmd: "\<not> materializes cmd"
  have env: "run_env (l\<lparr>cl_file := f\<rparr>) = run_env l" by (simp add: run_env_def)
  have sel: "cl_canon (l\<lparr>cl_file := f\<rparr>) = cl_canon l" "cl_parse (l\<lparr>cl_file := f\<rparr>) = cl_parse l"
      "cl_fresh (l\<lparr>cl_file := f\<rparr>) = cl_fresh l" "cl_env (l\<lparr>cl_file := f\<rparr>) = cl_env l"
      "cl_stdin (l\<lparr>cl_file := f\<rparr>) = cl_stdin l" "cl_files (l\<lparr>cl_file := f\<rparr>) = cl_files l" "cl_raw (l\<lparr>cl_file := f\<rparr>) = cl_raw l" by simp_all
  have get: "run_get_cert (l\<lparr>cl_file := f\<rparr>) = run_get_cert l"
    unfolding fun_eq_iff run_get_cert_def sel by (intro allI refl)
  have ops: "run_create (l\<lparr>cl_file := f\<rparr>) = run_create l" "run_sign (l\<lparr>cl_file := f\<rparr>) = run_sign l"
      "run_revoke (l\<lparr>cl_file := f\<rparr>) = run_revoke l" "run_renew (l\<lparr>cl_file := f\<rparr>) = run_renew l"
      "run_get (l\<lparr>cl_file := f\<rparr>) = run_get l" "run_list (l\<lparr>cl_file := f\<rparr>) = run_list l"
    unfolding fun_eq_iff run_create_def run_sign_def run_revoke_def run_renew_def run_get_def run_list_def env sel get
    by (intro allI refl)+
  have warn: "fst (warned ws r) = fst r" "(snd (warned ws r))\<lparr>out_warned := []\<rparr> = (snd r)\<lparr>out_warned := []\<rparr>" for ws r
    by (cases r; simp add: warned_def)+
  have same: "fst (run_on_store (l\<lparr>cl_file := f\<rparr>) eff cmd w) = fst (run_on_store l eff cmd w) \<and>
      (snd (run_on_store (l\<lparr>cl_file := f\<rparr>) eff cmd w))\<lparr>out_warned := []\<rparr> = (snd (run_on_store l eff cmd w))\<lparr>out_warned := []\<rparr>" for eff
    using cmd by (cases cmd) (simp_all add: run_on_store_def ops env sel warn materializes_def)
  have ign: "fst (ignoring ps r) = fst r"
      "(snd (ignoring ps r))\<lparr>out_warned := [], out_ignored := []\<rparr> = (snd r)\<lparr>out_warned := [], out_ignored := []\<rparr>" for ps r
    by (cases r; simp add: ignoring_def)+
  have both: "(snd (run_on_store (l\<lparr>cl_file := f\<rparr>) eff cmd w))\<lparr>out_warned := [], out_ignored := []\<rparr> =
      (snd (run_on_store l eff cmd w))\<lparr>out_warned := [], out_ignored := []\<rparr>" for eff
    using arg_cong [OF conjunct2 [OF same [of eff]], of "\<lambda>out. out\<lparr>out_ignored := []\<rparr>"] by simp
  have "cmd \<noteq> Cmd_init" using cmd by (auto simp: materializes_def)
  with cmd same both show ?thesis
    unfolding main_def by (simp add: ign split: sum.split option.split)
qed

text \<open>No command works on a store that is not initialized, or, where the file is what gets created, on
  a file with a problem: the exit code is 1, nothing is printed and nothing is touched.\<close>

theorem refuses_first:
  "cmd \<noteq> Cmd_none \<Longrightarrow>
   (cmd \<noteq> Cmd_init \<and> \<not> is_initialized w) \<or> (materializes cmd \<and> file_problems l \<noteq> []) \<Longrightarrow>
   \<exists>ps. main l cmd w = (w, (exits 1)\<lparr>out_ignored := ps\<rparr>)"
  by (auto simp: main_def ignoring_def exits_def)

definition sample_cli :: cli where
  "sample_cli = \<lparr>cl_getenv = [passphrase_env \<mapsto> ''pw''], cl_file = sample_file [(''tls'', sample_tls 90)], cl_stdin = [], cl_files = (\<lambda>_. None),
     cl_env = sample_env 3000, cl_canon = Some, cl_parse = (\<lambda>_. None), cl_fresh = sample_fresh_of, cl_raw = ''c0ffee'',
     cl_statements = 100\<rparr>"

lemma sample_main: "out_code (snd (main sample_cli (Cmd_enroll ''mallory'') run1)) = 0"
  by code_simp

theorem main_is_steps_witness:
  "\<exists>w' out log. main sample_cli (Cmd_enroll ''mallory'') run1 = (w', out) \<and> out_code out = 0 \<and>
     sys_step\<^sup>*\<^sup>* (new_system run1) \<lparr>sy_world = w', sy_tasks = [], sy_log = log\<rparr>"
proof -
  obtain w' out where run: "main sample_cli (Cmd_enroll ''mallory'') (sy_world (new_system run1)) = (w', out)"
    by fastforce
  have "nul_free (cl_raw sample_cli)" by code_simp
  from main_is_steps [OF run this] obtain log where
    "sys_step\<^sup>*\<^sup>* (new_system run1) \<lparr>sy_world = w', sy_tasks = [], sy_log = log\<rparr>" by (auto simp: new_system_def)
  moreover have "out_code out = 0" using sample_main run by (simp add: new_system_def)
  ultimately show ?thesis using run by (auto simp: new_system_def)
qed

theorem file_only_warned_witness:
  "fst (main (sample_cli\<lparr>cl_file := sample_file []\<rparr>) (Cmd_enroll ''mallory'') run1) = fst (main sample_cli (Cmd_enroll ''mallory'') run1) \<and>
   out_code (snd (main sample_cli (Cmd_enroll ''mallory'') run1)) = 0"
  using file_only_warned [where cmd = "Cmd_enroll ''mallory''" and f = "sample_file []" and l = sample_cli and w = run1] sample_main
  by (simp add: materializes_def)

theorem refuses_first_witness:
  "\<exists>ps. main sample_cli (Cmd_refresh ''all'') sample_empty_world = (sample_empty_world, (exits 1)\<lparr>out_ignored := ps\<rparr>)"
proof -
  have "\<not> is_initialized sample_empty_world" by code_simp
  then show ?thesis by (intro refuses_first) simp_all
qed

section \<open>What the parser lets through\<close>

lemma signable_find: "target \<in> set signable \<longleftrightarrow> profile_find target \<noteq> None"
  by (auto simp: signable_def profile_find_def find_None_iff)

lemma creatable_find: "target \<in> set creatable \<Longrightarrow> \<exists>p. profile_find target = Some p \<and> \<not> pd_csr_only p"
  by (auto simp: creatable_def kDefs_def profile_find_def)

text \<open>An admitted target is never turned away as unknown, and a window is never one whose seconds would
  not fit.\<close>

lemma subject_sans_Inl: "subject_sans p cn extra = Inl x \<Longrightarrow> x \<in> {Cn_not_dns cn, San_required, Email_san_required}"
  by (auto simp: subject_sans_def split: subject_rule.split_asm if_split_asm)

lemma check_sans_Inl: "check_sans sans = Inl x \<Longrightarrow> \<exists>v. x \<in> {Dns_san_invalid v, Email_san_invalid v, Uri_san_invalid v}"
  by (induction sans rule: check_sans.induct) (auto split: if_split_asm)

lemma admitted_create:
  assumes "admitted (Cmd_create target cn specs valid)" and "issue_request c target cn2 extra ov = Inl x"
  shows "x \<notin> {Unknown_profile target, Csr_only target}"
proof -
  from assms(1) obtain p where p: "profile_find target = Some p" "\<not> pd_csr_only p"
    using creatable_find [of target] by (auto simp: admitted_def)
  show ?thesis using assms(2)
    by (cases "subject_sans p cn2 extra"; cases "check_sans (projr (subject_sans p cn2 extra))")
      (auto simp: issue_request_def p split: option.split_asm if_split_asm dest!: subject_sans_Inl check_sans_Inl)
qed

lemma admitted_list: "admitted (Cmd_list opt) \<Longrightarrow> 1 \<le> snd (list_filter opt) \<and> snd (list_filter opt) \<le> max_valid_days"
  by (auto simp: admitted_def admits_list_def list_filter_def in_window_def default_list_window_days_def max_valid_days_eq
      split: option.splits)

section \<open>What get finds\<close>

text \<open>C18. Whatever has happened to the store before, \<^verbatim>\<open>get\<close> finds a leaf whenever there is one:
  in every reachable state it exports the newest of the active, unexpired certificates of the name and
  profile asked for, and it fails only by saying that none matches, and only when the index has none.\<close>

theorem get_finds:
  "reachable s \<Longrightarrow> w_db (sy_world s) = Some d \<Longrightarrow> db_cert_index d = Some rs \<Longrightarrow>
   (\<forall>r \<in> set rs. nul_free (r_fp r)) \<Longrightarrow> target \<in> set signable \<Longrightarrow>
   (case get_cert now c (sy_world s) target cn enc False of
      Inl x \<Rightarrow> x = No_match \<and> active_rows rs cn target now = []
    | Inr shown \<Rightarrow> \<exists>r cert. shown = [Shown_cert (emit_encoding enc) cert] \<and> x_fp cert = r_fp r \<and>
        r \<in> set rs \<and> r_cn r = cn \<and> r_kind r = target \<and> r_status r = ''active'' \<and> now < r_na r \<and>
        (\<forall>q \<in> set (active_rows rs cn target now). r_nb q \<le> r_nb r))"
proof -
  assume s: "reachable s" and d: "w_db (sy_world s) = Some d" and rs: "db_cert_index d = Some rs"
    and nul: "\<forall>r \<in> set rs. nul_free (r_fp r)" and target: "target \<in> set signable"
  then have get: "get_cert now c (sy_world s) target cn enc False = show_cert rs d (emit_encoding enc) False (active_fp rs cn target now)"
    by (auto simp: get_cert_def signable_def kDefs_def)
  show ?thesis
  proof (cases "top_by r_nb (active_rows rs cn target now)")
    case None
    moreover from this have "active_rows rs cn target now = []" by simp
    ultimately show ?thesis by (simp add: get show_cert_def active_fp_def del: top_by_None)
  next
    case (Some r)
    from top_by_Some [OF this] have r: "r \<in> set (active_rows rs cn target now)"
      "\<forall>q \<in> set (active_rows rs cn target now). r_nb q \<le> r_nb r" by blast+
    then have "r \<in> set (index_rows d)" by (auto simp: active_rows_def index_rows_def rs)
    with reachable_ok [OF s] d obtain cert where "load_cert (db_store d) (r_fp r) = Some cert" "x_fp cert = r_fp r"
      by (fastforce simp: sys_ok_def db_ok_def stored_def)
    with r Some nul show ?thesis by (auto simp: get show_cert_def active_fp_def active_rows_def)
  qed
qed

theorem get_finds_witness:
  "\<exists>cert. get_cert 2300 sample_config (fst run5) ''server'' ''www.example.org'' ''pem'' False = Inr [Shown_cert Pem cert] \<and>
     x_fp cert = ''fp-9''"
proof -
  have "case w_db (fst run5) of None \<Rightarrow> False | Some d \<Rightarrow> (case db_cert_index d of None \<Rightarrow> False
     | Some rs \<Rightarrow> list_all (\<lambda>r. nul_free (r_fp r)) rs \<and>
         map r_fp (active_rows rs ''www.example.org'' ''server'' 2300) = [''fp-9''])" by code_simp
  then obtain d rs where d: "w_db (sy_world run_done) = Some d" "db_cert_index d = Some rs" "\<forall>r \<in> set rs. nul_free (r_fp r)"
    and act: "map r_fp (active_rows rs ''www.example.org'' ''server'' 2300) = [''fp-9'']"
    by (auto simp: run_done_def list_all_iff split: option.split_asm)
  have only: "r_fp r = ''fp-9''" if "r \<in> set (active_rows rs ''www.example.org'' ''server'' 2300)" for r
    using imageI [OF that, of r_fp] act by (simp flip: set_map)
  from act have some: "active_rows rs ''www.example.org'' ''server'' 2300 \<noteq> []" by auto
  have "''server'' \<in> set signable" by code_simp
  from get_finds [OF reachable_done d this, where now = 2300 and c = sample_config and cn = "''www.example.org''" and enc = "''pem''"] some
  show ?thesis
    by (auto simp: run_done_def emit_encoding_def split: sum.split_asm intro!: only) (simp add: active_rows_def)
qed

end
