(* ===== verification/Seed.thy ===== *)
theory Seed
  imports Ceremony
begin

text \<open>
  The load-test seeder, \<^verbatim>\<open>src/seed.cpp\<close> and the command that runs it,
  \<^verbatim>\<open>src/seed_main.cpp\<close>. It fills a store with leaves of one key and commits every
  ten thousand of them, so a seeding that is cut short leaves the batches it has finished.
\<close>

section \<open>What is seeded\<close>

definition seed_batch :: nat where
  "seed_batch = 10000"

datatype seed_status = Seed_active | Seed_expired | Seed_revoked

type_synonym seed_job = "string \<times> bool \<times> seed_status"

definition seed_server :: "nat \<Rightarrow> bool" where
  "seed_server i \<longleftrightarrow> i mod 10 < 6"

definition seed_status_of :: "nat \<Rightarrow> seed_status" where
  "seed_status_of i =
     (let b = i mod 20 in
      if seed_server i then (if b < 6 then Seed_active else if b < 15 then Seed_expired else Seed_revoked)
      else (if b < 9 then Seed_active else if b < 15 then Seed_expired else Seed_revoked))"

definition seed_jobs :: "int \<Rightarrow> int \<Rightarrow> seed_job list" where
  "seed_jobs amount same_cn =
     map (\<lambda>i. ((if seed_server i then ''s'' else ''c'') @ show_nat i @ ''.test.ca'', seed_server i, seed_status_of i)) [0..<nat amount] @
     map (\<lambda>j. (''same.test.ca'', True, if int j = same_cn - 1 then Seed_active else Seed_revoked)) [0..<nat same_cn]"

record seed_plan =
  sp_ca :: signing_ca
  sp_gen :: ca_gen
  sp_cert :: certificate
  sp_key :: string
  sp_pub :: string
  sp_now :: nat

definition day_secs :: int where
  "day_secs = 24 * 60 * 60"

definition seed_cert :: "config \<Rightarrow> seed_plan \<Rightarrow> fresh \<Rightarrow> seed_job \<Rightarrow> certificate" where
  "seed_cert c p fr job =
     (case job of (cn, server, status) \<Rightarrow>
        let ext = add_new [] True (Basic_Constraints False None);
            ext = add_new ext True (Key_Usage kDigitalSignature);
            ext = add_new ext False (Ext_Key_Usage [if server then ''1.3.6.1.5.5.7.3.1'' else ''1.3.6.1.5.5.7.3.2''])
        in make_cert (f_serial fr) (f_fp fr) (sp_key p) (sp_pub p) (nat (int (sp_now p) - 2 * day_secs))
             (nat (if status = Seed_expired then int (sp_now p) - day_secs
                   else int (sp_now p) + ca_ee_valid_days (sp_ca p) * day_secs))
             (x_subject (sp_cert p)) (subject_dn (cfg_pki c) cn (ca_simple_dn (sp_ca p))) ext)"

section \<open>Filling the store\<close>

record seeding =
  sd_db :: db
  sd_done :: db
  sd_revoked :: "crl_entry list"

definition seed_emit :: "config \<Rightarrow> seed_plan \<Rightarrow> fresh \<Rightarrow> nat \<Rightarrow> seed_job \<Rightarrow> seeding \<Rightarrow> seeding" where
  "seed_emit c p fr now job s =
     (case job of (cn, server, status) \<Rightarrow>
        let cert = seed_cert c p fr job; revoked = (status = Seed_revoked);
            d = sd_db s;
            st = insert_cert cert (db_store d)
        in s\<lparr>sd_db := d\<lparr>db_store := (if revoked then store_revoke_cert cert 0 st else st),
               db_cert_index := map_option (index_cert cert (if server then ''server'' else ''client'') (gn_purpose (sp_gen p))
                 (if revoked then ''revoked'' else ''active'') (if revoked then now else 0)) (db_cert_index d)\<rparr>,
             sd_revoked := (if revoked then sd_revoked s @ [entry_of cert 0] else sd_revoked s)\<rparr>)"

text \<open>\<open>amount\<close> bounds the jobs after which a batch may be committed.\<close>

fun seed_loop :: "env \<Rightarrow> config \<Rightarrow> seed_plan \<Rightarrow> fresh_of \<Rightarrow> nat \<Rightarrow> nat \<Rightarrow> seed_job list \<Rightarrow> seeding \<Rightarrow> seeding" where
  "seed_loop e c p fr amount i [] s = s"
| "seed_loop e c p fr amount i (job # jobs) s =
     (let s' = seed_emit c p (fr (Suc i)) (e_clock e (3 + i)) job s
      in seed_loop e c p fr amount (Suc i) jobs
           (if i < amount \<and> Suc i mod seed_batch = 0 then s'\<lparr>sd_done := sd_db s'\<rparr> else s'))"

datatype seed_error =
    Seed_no_store
  | Seed_no_ca
  | Seed_token_key
  | Seed_no_passphrase
  | Seed_no_cert
  | Seed_wrong_passphrase
  | Seed_no_key
  | Seed_killed
  | Seed_throws_load load_error
  | Seed_throws_not_ca

definition seed_checks :: "env \<Rightarrow> config \<Rightarrow> string \<Rightarrow> fresh \<Rightarrow> world \<Rightarrow> seed_error + db \<times> seed_plan" where
  "seed_checks e c passphrase fr w =
     (case w_db w of None \<Rightarrow> Inl Seed_no_store
      | Some d \<Rightarrow>
     (case ca_for_profile c ''server'' of None \<Rightarrow> Inl Seed_no_ca
      | Some ca \<Rightarrow>
          if ca_key_backend ca = ''pkcs11'' then Inl Seed_token_key
          else if passphrase = [] then Inl Seed_no_passphrase
          else let sign = active_ca d c (ca_purpose ca) in
     (case load_ca_cert w (gn_slug sign) of Inl x \<Rightarrow> Inl (Seed_throws_load x)
      | Inr None \<Rightarrow> Inl Seed_no_cert
      | Inr (Some cert) \<Rightarrow>
     (case find_key passphrase cert (db_store d) of
        Key_refused \<Rightarrow> Inl Seed_wrong_passphrase
      | No_key \<Rightarrow> Inl Seed_no_key
      | Key key \<Rightarrow> Inr (d, \<lparr>sp_ca = ca, sp_gen = sign, sp_cert = cert, sp_key = key, sp_pub = f_pub fr,
                           sp_now = e_clock e 0\<rparr>)))))"

text \<open>The list at the end: the entries of the published one stay, the seeded ones follow.\<close>

definition seed_publish :: "env \<Rightarrow> seed_plan \<Rightarrow> crl_entry list \<Rightarrow> world \<Rightarrow> world \<times> (seed_error + unit)" where
  "seed_publish e p entries w =
     (case load_crl w (gn_slug (sp_gen p)) of Inl x \<Rightarrow> (w, Inl (Seed_throws_load x))
      | Inr prev \<Rightarrow>
          (fst (put_file e (ca_file (gn_slug (sp_gen p)) ''.crl'')
             (Crl_der (make_crl (sp_cert p) (sp_key p) (crl_revoked prev @ entries) (crl_number prev + 1) (e_clock e 1)
               (crl_next_update (sp_cert p) (e_clock e 2) crl_next_update_days))) w), Inr ()))"

text \<open>\<open>stop\<close> is the number of certificates after which the process dies, if it does.\<close>

definition seed ::
  "env \<Rightarrow> config \<Rightarrow> string \<Rightarrow> fresh_of \<Rightarrow> int \<Rightarrow> int \<Rightarrow> nat option \<Rightarrow> world \<Rightarrow> world \<times> (seed_error + unit)" where
  "seed e c passphrase fr amount same_cn stop w =
     (case seed_checks e c passphrase (fr 0) w of Inl x \<Rightarrow> (w, Inl x)
      | Inr (d, p) \<Rightarrow>
          let d0 = ensure_cert_index d; jobs = seed_jobs amount same_cn;
              start = \<lparr>sd_db = d0, sd_done = d0, sd_revoked = []\<rparr>
          in if \<not> is_CA_cert (sp_cert p) then (w\<lparr>w_db := Some d0\<rparr>, Inl Seed_throws_not_ca)
             else (case stop of
                 Some n \<Rightarrow>
                   (w\<lparr>w_db := Some (sd_done (seed_loop e c p fr (nat amount) 0 (take n jobs) start))\<rparr>, Inl Seed_killed)
               | None \<Rightarrow>
                   let s = seed_loop e c p fr (nat amount) 0 jobs start
                   in seed_publish e p (sd_revoked s) (w\<lparr>w_db := Some (sd_db s)\<rparr>)))"

definition seed_main ::
  "(string \<Rightarrow> string option) \<Rightarrow> env \<Rightarrow> fresh_of \<Rightarrow> int \<Rightarrow> int \<Rightarrow> nat option \<Rightarrow> world \<Rightarrow> world \<times> nat" where
  "seed_main getenv e fr amount same_cn stop w =
     (if \<not> is_initialized w then (w, 1)
      else (case load_config (map_option db_snapshot (w_db w)) of
          Inl _ \<Rightarrow> (w, 1)
        | Inr None \<Rightarrow> (w, 1)
        | Inr (Some eff) \<Rightarrow>
            (case seed e eff (case getenv passphrase_env of None \<Rightarrow> [] | Some v \<Rightarrow> v) fr amount same_cn stop w of
               (w', Inl _) \<Rightarrow> (w', 1)
             | (w', Inr _) \<Rightarrow> (w', 0))))"

section \<open>What a seeding adds\<close>

definition seed_row :: "config \<Rightarrow> seed_plan \<Rightarrow> fresh \<Rightarrow> nat \<Rightarrow> seed_job \<Rightarrow> cert_row" where
  "seed_row c p fr now job =
     (case job of (cn, server, status) \<Rightarrow>
        cert_row_of (seed_cert c p fr job) (if server then ''server'' else ''client'') (gn_purpose (sp_gen p))
          (if status = Seed_revoked then ''revoked'' else ''active'') (if status = Seed_revoked then now else 0))"

fun seed_rows :: "env \<Rightarrow> config \<Rightarrow> seed_plan \<Rightarrow> fresh_of \<Rightarrow> nat \<Rightarrow> seed_job list \<Rightarrow> cert_row list" where
  "seed_rows e c p fr i [] = []"
| "seed_rows e c p fr i (job # jobs) =
     seed_row c p (fr (Suc i)) (e_clock e (3 + i)) job # seed_rows e c p fr (Suc i) jobs"

fun seed_entries :: "fresh_of \<Rightarrow> nat \<Rightarrow> seed_job list \<Rightarrow> crl_entry list" where
  "seed_entries fr i [] = []"
| "seed_entries fr i (job # jobs) =
     (if snd (snd job) = Seed_revoked then [\<lparr>ce_serial = f_serial (fr (Suc i)), ce_reason = 0\<rparr>] else []) @
     seed_entries fr (Suc i) jobs"

lemma seed_cert_fields [simp]: "x_fp (seed_cert c p fr job) = f_fp fr" "x_serial (seed_cert c p fr job) = f_serial fr"
  by (simp_all add: seed_cert_def make_cert_def split: prod.split)

lemma seed_row_fp [simp]: "r_fp (seed_row c p fr now job) = f_fp fr"
  by (simp add: seed_row_def cert_row_of_def split: prod.split)

text \<open>New fingerprints replace no row.\<close>

lemma seed_emit_tables:
  assumes "db_cert_index (sd_db s) = Some rs" and "f_fp fr \<notin> r_fp ` set rs"
  shows "db_cert_index (sd_db (seed_emit c p fr now job s)) = Some (rs @ [seed_row c p fr now job])"
    and "sd_done (seed_emit c p fr now job s) = sd_done s"
    and "sd_revoked (seed_emit c p fr now job s) = sd_revoked s @
      (if snd (snd job) = Seed_revoked then [\<lparr>ce_serial = f_serial fr, ce_reason = 0\<rparr>] else [])"
proof -
  have "filter (\<lambda>r. r_fp r \<noteq> f_fp fr) rs = rs" using assms(2) by (force simp: filter_id_conv)
  then show "db_cert_index (sd_db (seed_emit c p fr now job s)) = Some (rs @ [seed_row c p fr now job])"
    using assms(1) by (cases job) (simp add: seed_emit_def Let_def index_cert_def seed_row_def)
qed (cases job; simp add: seed_emit_def Let_def entry_of_def)+

text \<open>What is committed is a prefix of what is seeded, of a whole number of batches.\<close>

definition batches :: "cert_row list \<Rightarrow> cert_row list \<Rightarrow> db \<Rightarrow> bool" where
  "batches rs0 added d \<longleftrightarrow> (\<exists>k. k * seed_batch \<le> length added \<and> db_cert_index d = Some (rs0 @ take (k * seed_batch) added))"

lemma batches_more: "batches rs0 added d \<Longrightarrow> batches rs0 (added @ xs) d"
proof -
  assume "batches rs0 added d"
  then obtain k where "k * seed_batch \<le> length added" "db_cert_index d = Some (rs0 @ take (k * seed_batch) added)"
    by (auto simp: batches_def)
  then show ?thesis unfolding batches_def by (intro exI [of _ k]) simp
qed

lemma batches_full:
  assumes "db_cert_index d = Some (rs0 @ added)" and "length added mod seed_batch = 0"
  shows "batches rs0 added d"
  using assms by (auto simp: batches_def elim!: dvdE simp flip: dvd_eq_mod_eq_0 intro!: exI [of _ "length added div seed_batch"])

lemma seed_loop_tables:
  assumes "db_cert_index (sd_db s) = Some (rs0 @ added)" and "length added = i" and "batches rs0 added (sd_done s)"
    and "distinct (map (\<lambda>k. f_fp (fr (Suc k))) [i..<i + length jobs])"
    and "\<forall>k \<in> {i..<i + length jobs}. f_fp (fr (Suc k)) \<notin> r_fp ` set (rs0 @ added)"
  shows "db_cert_index (sd_db (seed_loop e c p fr amount i jobs s)) = Some (rs0 @ added @ seed_rows e c p fr i jobs) \<and>
     sd_revoked (seed_loop e c p fr amount i jobs s) = sd_revoked s @ seed_entries fr i jobs \<and>
     batches rs0 (added @ seed_rows e c p fr i jobs) (sd_done (seed_loop e c p fr amount i jobs s))"
  using assms
proof (induction jobs arbitrary: i s added)
  case Nil
  then show ?case by simp
next
  case (Cons job jobs)
  let ?s = "seed_emit c p (fr (Suc i)) (e_clock e (3 + i)) job s"
  let ?row = "seed_row c p (fr (Suc i)) (e_clock e (3 + i)) job"
  let ?n = "if i < amount \<and> Suc i mod seed_batch = 0 then ?s\<lparr>sd_done := sd_db ?s\<rparr> else ?s"
  have new: "f_fp (fr (Suc i)) \<notin> r_fp ` set (rs0 @ added)" using Cons.prems(5) by simp
  note emit = seed_emit_tables [OF Cons.prems(1) new, of c p "e_clock e (3 + i)" job]
  have "batches rs0 (added @ [?row]) (sd_done ?n)"
    using emit(1,2) Cons.prems(2) batches_more [OF Cons.prems(3)] by (auto intro!: batches_full)
  moreover have rest: "distinct (map (\<lambda>k. f_fp (fr (Suc k))) [Suc i..<Suc i + length jobs])"
      "f_fp (fr (Suc i)) \<notin> (\<lambda>k. f_fp (fr (Suc k))) ` {Suc i..<Suc i + length jobs}"
    using Cons.prems(4) by (simp_all add: upt_conv_Cons del: upt_Suc)
  moreover have "\<forall>k \<in> {Suc i..<Suc i + length jobs}. f_fp (fr (Suc k)) \<notin> r_fp ` set (rs0 @ added @ [?row])"
    using Cons.prems(5) rest(2) by (auto simp: image_iff)
  ultimately have "db_cert_index (sd_db (seed_loop e c p fr amount (Suc i) jobs ?n)) = Some (rs0 @ (added @ [?row]) @ seed_rows e c p fr (Suc i) jobs) \<and>
     sd_revoked (seed_loop e c p fr amount (Suc i) jobs ?n) = sd_revoked ?n @ seed_entries fr (Suc i) jobs \<and>
     batches rs0 ((added @ [?row]) @ seed_rows e c p fr (Suc i) jobs) (sd_done (seed_loop e c p fr amount (Suc i) jobs ?n))"
    using Cons.prems(2) emit(1) by (intro Cons.IH) simp_all
  then show ?case using emit(3) by (simp add: Let_def)
qed

lemma seed_rows_take: "seed_rows e c p fr i (take n jobs) = take n (seed_rows e c p fr i jobs)"
proof (induction jobs arbitrary: i n)
  case (Cons job jobs)
  then show ?case by (cases n) simp_all
qed simp

lemma seed_rows_length [simp]: "length (seed_rows e c p fr i jobs) = length jobs"
  by (induction jobs arbitrary: i) simp_all

lemma seed_loop_start:
  assumes "db_cert_index d = Some rs" and "inj_on (\<lambda>k. f_fp (fr (Suc k))) {..<length jobs}"
    and "\<forall>k < length jobs. f_fp (fr (Suc k)) \<notin> r_fp ` set rs" and "n \<le> length jobs"
  shows "db_cert_index (sd_db (seed_loop e c p fr amount 0 (take n jobs) \<lparr>sd_db = d, sd_done = d, sd_revoked = []\<rparr>)) =
       Some (rs @ take n (seed_rows e c p fr 0 jobs)) \<and>
     sd_revoked (seed_loop e c p fr amount 0 (take n jobs) \<lparr>sd_db = d, sd_done = d, sd_revoked = []\<rparr>) = seed_entries fr 0 (take n jobs) \<and>
     batches rs (take n (seed_rows e c p fr 0 jobs))
       (sd_done (seed_loop e c p fr amount 0 (take n jobs) \<lparr>sd_db = d, sd_done = d, sd_revoked = []\<rparr>))"
proof -
  have "inj_on (\<lambda>k. f_fp (fr (Suc k))) (set [0..<n])" using assms(2,4) by (auto intro: inj_on_subset)
  then have "distinct (map (\<lambda>k. f_fp (fr (Suc k))) [0..<0 + length (take n jobs)])"
    using assms(4) by (simp add: distinct_map)
  moreover have "batches rs [] d" using assms(1) by (auto simp: batches_def)
  ultimately show ?thesis
    using seed_loop_tables [of "\<lparr>sd_db = d, sd_done = d, sd_revoked = []\<rparr>" rs "[]" 0 fr "take n jobs" e c p amount] assms
    by (simp add: seed_rows_take)
qed

lemma seed_jobs_length: "length (seed_jobs amount same_cn) = nat amount + nat same_cn"
  by (simp add: seed_jobs_def)

lemma seed_entries_serials:
  "seed_entries fr i jobs = map (\<lambda>k. \<lparr>ce_serial = f_serial (fr (Suc (i + k))), ce_reason = 0\<rparr>)
     (filter (\<lambda>k. snd (snd (jobs ! k)) = Seed_revoked) [0..<length jobs])"
proof (induction jobs arbitrary: i)
  case (Cons job jobs)
  have up: "[0..<length (job # jobs)] = 0 # map Suc [0..<length jobs]" by (simp add: upt_conv_Cons map_Suc_upt del: upt_Suc)
  show ?case unfolding up by (simp add: Cons.IH filter_map comp_def)
qed simp

text \<open>C21. A seeding adds what it says. When it ends, the index has gained one row for each certificate, none
  was lost or replaced, exactly the certificates marked revoked are entered into the issuing CA's next
  list, after the entries it had. When it dies midway, the index has gained the rows of whole batches of ten
  thousand, a prefix of what was seeded by then.\<close>

theorem seed_adds:
  "seed e c passphrase fr amount same_cn stop w = (w', r) \<Longrightarrow>
   seed_checks e c passphrase (fr 0) w = Inr (d, p) \<Longrightarrow> is_CA_cert (sp_cert p) \<Longrightarrow>
   inj_on (\<lambda>k. f_fp (fr (Suc k))) {..<nat amount + nat same_cn} \<Longrightarrow>
   (\<forall>k < nat amount + nat same_cn. f_fp (fr (Suc k)) \<notin> r_fp ` set (index_rows d)) \<Longrightarrow>
   \<exists>d'. w_db w' = Some d' \<and>
     (case stop of
        None \<Rightarrow> index_rows d' = index_rows d @ seed_rows e c p fr 0 (seed_jobs amount same_cn) \<and>
          (e_write e (ca_file (gn_slug (sp_gen p)) ''.crl'') \<longrightarrow> r = Inr () \<longrightarrow>
             (\<exists>prev crl. load_crl w (gn_slug (sp_gen p)) = Inr prev \<and> load_crl w' (gn_slug (sp_gen p)) = Inr crl \<and>
                crl_number crl = crl_number prev + 1 \<and> crl_signer crl = sp_key p \<and>
                crl_revoked crl = crl_revoked prev @ map (\<lambda>k. \<lparr>ce_serial = f_serial (fr (Suc k)), ce_reason = 0\<rparr>)
                  (filter (\<lambda>k. snd (snd (seed_jobs amount same_cn ! k)) = Seed_revoked) [0..<nat amount + nat same_cn])))
      | Some n \<Rightarrow> \<exists>k. k * seed_batch \<le> n \<and>
          index_rows d' = index_rows d @ take (k * seed_batch) (seed_rows e c p fr 0 (seed_jobs amount same_cn)))"
proof -
  let ?jobs = "seed_jobs amount same_cn" and ?d = "ensure_cert_index d"
  let ?start = "\<lparr>sd_db = ?d, sd_done = ?d, sd_revoked = []\<rparr>"
  assume run: "seed e c passphrase fr amount same_cn stop w = (w', r)" and chk: "seed_checks e c passphrase (fr 0) w = Inr (d, p)"
    and ca: "is_CA_cert (sp_cert p)" and fresh: "inj_on (\<lambda>k. f_fp (fr (Suc k))) {..<nat amount + nat same_cn}"
      "\<forall>k < nat amount + nat same_cn. f_fp (fr (Suc k)) \<notin> r_fp ` set (index_rows d)"
  have idx: "db_cert_index ?d = Some (index_rows d)" by (simp add: ensure_cert_index_def index_rows_def)
  note loop = seed_loop_start [OF idx, of fr ?jobs, unfolded seed_jobs_length, OF fresh]
  show ?thesis
  proof (cases stop)
    case None
    let ?s = "seed_loop e c p fr (nat amount) 0 ?jobs ?start"
    from loop [of "nat amount + nat same_cn" e c p "nat amount"] have s: "db_cert_index (sd_db ?s) = Some (index_rows d @ seed_rows e c p fr 0 ?jobs)"
        "sd_revoked ?s = seed_entries fr 0 ?jobs" by (simp_all add: seed_jobs_length)
    from run chk ca None have pub: "seed_publish e p (sd_revoked ?s) (w\<lparr>w_db := Some (sd_db ?s)\<rparr>) = (w', r)"
      by (simp add: seed_def Let_def)
    then have db: "w_db w' = Some (sd_db ?s)"
      by (auto simp: seed_publish_def split: sum.split_asm)
    have rows: "index_rows (sd_db ?s) = index_rows d @ seed_rows e c p fr 0 ?jobs" using s(1) by (simp add: index_rows_def)
    have "\<exists>prev crl. load_crl w (gn_slug (sp_gen p)) = Inr prev \<and> load_crl w' (gn_slug (sp_gen p)) = Inr crl \<and>
                crl_number crl = crl_number prev + 1 \<and> crl_signer crl = sp_key p \<and> crl_revoked crl = crl_revoked prev @ sd_revoked ?s"
      if wr: "e_write e (ca_file (gn_slug (sp_gen p)) ''.crl'')" and r: "r = Inr ()"
      using pub r wr by (auto simp: seed_publish_def load_crl_def put_file_def make_crl_def split: sum.split_asm)
    with db rows None show ?thesis by (simp add: s(2) seed_entries_serials seed_jobs_length)
  next
    case (Some n)
    let ?m = "min n (nat amount + nat same_cn)"
    let ?s = "seed_loop e c p fr (nat amount) 0 (take n ?jobs) ?start"
    have take: "take ?m ?jobs = take n ?jobs" by (simp add: seed_jobs_length min_def)
    from loop [of ?m e c p "nat amount", unfolded take] have "batches (index_rows d) (take ?m (seed_rows e c p fr 0 ?jobs)) (sd_done ?s)" by simp
    then obtain k where k: "k * seed_batch \<le> ?m" "db_cert_index (sd_done ?s) = Some (index_rows d @ take (k * seed_batch) (seed_rows e c p fr 0 ?jobs))"
      by (auto simp: batches_def seed_jobs_length min_def split: if_split_asm)
    from run chk ca Some have "w_db w' = Some (sd_done ?s)" by (auto simp: seed_def Let_def)
    with k Some show ?thesis by (auto simp: index_rows_def)
  qed
qed

definition sample_seed :: "world \<times> (seed_error + unit)" where
  "sample_seed = seed (sample_env 600000) sample_config ''pw'' sample_fresh_of 2 2 None sample_pki_world"

theorem seed_adds_witness:
  "\<exists>d d'. w_db sample_pki_world = Some d \<and> w_db (fst sample_seed) = Some d' \<and>
     length (index_rows d') = length (index_rows d) + 4 \<and>
     (\<exists>crl. load_crl (fst sample_seed) ''ca-e2'' = Inr crl \<and> length (crl_revoked crl) = Suc (length (crl_revoked (sample_crl 100))))"
proof -
  let ?chk = "seed_checks (sample_env 600000) sample_config ''pw'' (sample_fresh_of 0) sample_pki_world"
  have db: "w_db sample_pki_world = Some sample_pki_db" by (simp add: sample_pki_world_def)
  have "case ?chk of Inr (_, p) \<Rightarrow> is_CA_cert (sp_cert p) \<and> gn_slug (sp_gen p) = ''ca-e2'' | Inl _ \<Rightarrow> False" by code_simp
  then obtain d p where chk: "?chk = Inr (d, p)" and p: "is_CA_cert (sp_cert p)" "gn_slug (sp_gen p) = ''ca-e2''"
    by (auto split: sum.split_asm)
  have d: "d = sample_pki_db" using chk db
    by (simp add: seed_checks_def Let_def split: option.split_asm if_split_asm sum.split_asm key_result.split_asm)
  have run: "seed (sample_env 600000) sample_config ''pw'' sample_fresh_of 2 2 None sample_pki_world = (fst sample_seed, snd sample_seed)"
    by (simp add: sample_seed_def)
  have inj: "inj_on (\<lambda>k. f_fp (sample_fresh_of (Suc k))) {..<nat 2 + nat 2}"
    by (auto simp: inj_on_def sample_fresh_of_def dest!: show_nat_inj)
  have "list_all (\<lambda>k. f_fp (sample_fresh_of (Suc k)) \<notin> set (map r_fp (index_rows sample_pki_db))) [0..<4]" by code_simp
  then have new: "\<forall>k < nat 2 + nat 2. f_fp (sample_fresh_of (Suc k)) \<notin> r_fp ` set (index_rows d)"
    by (simp add: list_all_iff d)
  have "snd sample_seed = Inr ()" "load_crl sample_pki_world ''ca-e2'' = Inr (sample_crl 100)" by code_simp+
  moreover have "e_write (sample_env 600000) loc" for loc by (simp add: sample_env_def)
  moreover have "filter (\<lambda>k. snd (snd (seed_jobs 2 2 ! k)) = Seed_revoked) [0..<4] = [2]" by code_simp
  ultimately show ?thesis using seed_adds [OF run chk p(1) inj new] db
    by (auto simp: p(2) d seed_jobs_length)
qed

end
