(* ===== verification/Log.thy ===== *)
theory Log
  imports App Prelude
begin

text \<open>
  The log of \<^verbatim>\<open>src/log.h\<close>: which messages go where. The state is what has been written
  to the file and to the two console streams; the time stamps come from outside. A file that cannot be
  opened ends the program (\<^term>\<open>None\<close>); writes to an open file are taken to succeed.
\<close>

section \<open>Levels\<close>

datatype level = OFF | FATAL | ERROR | WARN | INFO | DEBUG

definition level_number :: "level \<Rightarrow> nat" where
  "level_number l = (case l of OFF \<Rightarrow> 0 | FATAL \<Rightarrow> 1 | ERROR \<Rightarrow> 2 | WARN \<Rightarrow> 3 | INFO \<Rightarrow> 4 | DEBUG \<Rightarrow> 5)"

lemma level_number_inj [simp]: "level_number a = level_number b \<longleftrightarrow> a = b"
  by (cases a; cases b) (simp_all add: level_number_def)

instantiation level :: linorder
begin

definition less_eq_level :: "level \<Rightarrow> level \<Rightarrow> bool" where
  "less_eq_level a b \<longleftrightarrow> level_number a \<le> level_number b"

definition less_level :: "level \<Rightarrow> level \<Rightarrow> bool" where
  "less_level a b \<longleftrightarrow> level_number a < level_number b"

instance
  by standard (auto simp: less_eq_level_def less_level_def)

end

definition as_string :: "level \<Rightarrow> string" where
  "as_string l = [''OFF'', ''FATAL'', ''ERROR'', ''WARN'', ''INFO'', ''DEBUG''] ! level_number l"

section \<open>Where a message goes\<close>

record log_state =
  lg_level :: level
  lg_path :: string
  lg_file :: string
  lg_stderr :: string
  lg_stdout :: string

definition newline :: string where
  "newline = [CHR 0x0A]"

definition should_log :: "log_state \<Rightarrow> level \<Rightarrow> bool" where
  "should_log s l \<longleftrightarrow> l \<le> lg_level s \<and> l \<noteq> OFF"

text \<open>An empty path is a file that is not configured.\<close>

definition write_line :: "string \<Rightarrow> log_state \<Rightarrow> log_state" where
  "write_line line s = (if lg_path s = [] then s else s\<lparr>lg_file := lg_file s @ line @ newline\<rparr>)"

definition to_stderr :: "string \<Rightarrow> log_state \<Rightarrow> log_state" where
  "to_stderr msg s = s\<lparr>lg_stderr := lg_stderr s @ msg @ newline\<rparr>"

definition to_stdout :: "string \<Rightarrow> log_state \<Rightarrow> log_state" where
  "to_stdout msg s = s\<lparr>lg_stdout := lg_stdout s @ msg @ newline\<rparr>"

definition log_line :: "string \<Rightarrow> level \<Rightarrow> string \<Rightarrow> string" where
  "log_line stamp l msg = stamp @ '' '' @ as_string l @ replicate (5 - length (as_string l)) CHR '' '' @ '' '' @ msg"

definition log_msg :: "string \<Rightarrow> level \<Rightarrow> string \<Rightarrow> log_state \<Rightarrow> log_state" where
  "log_msg stamp l msg s =
     (if \<not> should_log s l then s
      else write_line (log_line stamp l msg) (if l \<le> ERROR then to_stderr msg s else s))"

section \<open>The default path\<close>

definition slash :: char where
  "slash = CHR ''/''"

definition has_filename :: "string \<Rightarrow> bool" where
  "has_filename p \<longleftrightarrow> p \<noteq> [] \<and> last p \<noteq> slash"

text \<open>\<^verbatim>\<open>path::parent_path\<close>: without the last name and the separators before it.\<close>

definition parent_path :: "string \<Rightarrow> string" where
  "parent_path p =
     (let dir = rev (dropWhile (\<lambda>ch. ch \<noteq> slash) (rev p)); base = rev (dropWhile (\<lambda>ch. ch = slash) (rev dir))
      in if base = [] \<and> dir \<noteq> [] then [slash] else base)"

definition append_path :: "string \<Rightarrow> string \<Rightarrow> string" where
  "append_path dir nm = (if has_filename dir then dir @ [slash] @ nm else dir @ nm)"

definition default_path :: "string \<Rightarrow> string" where
  "default_path store =
     (let store' = (if has_filename store then store else parent_path store)
      in append_path (parent_path store') (app_name @ ''.log''))"

section \<open>Starting and ending\<close>

definition set_file :: "(string \<Rightarrow> bool) \<Rightarrow> string \<Rightarrow> log_state \<Rightarrow> log_state option" where
  "set_file can_open path s = (if path \<noteq> [] \<and> \<not> can_open path then None else Some (s\<lparr>lg_path := path\<rparr>))"

text \<open>The choice of the file in \<^verbatim>\<open>src/main.cpp\<close>; \<open>given\<close> is the option
  \<^verbatim>\<open>--log\<close>.\<close>

definition start_log ::
  "(string \<Rightarrow> bool) \<Rightarrow> string \<Rightarrow> string option \<Rightarrow> string \<Rightarrow> log_state \<Rightarrow> log_state option" where
  "start_log can_open stamp given store s =
     (let p = default_path store; notice = ''empty --log ignored; logging to '' @ p in
      case given of
        None \<Rightarrow> set_file can_open p s
      | Some f \<Rightarrow>
          if f \<noteq> [] then set_file can_open f s
          else map_option (\<lambda>s. to_stderr notice (log_msg stamp WARN notice s)) (set_file can_open p s))"

text \<open>\<^verbatim>\<open>fatal\<close> ends the program with code 1.\<close>

definition fatal :: "string \<Rightarrow> string \<Rightarrow> log_state \<Rightarrow> log_state \<times> nat" where
  "fatal stamp msg s = (log_msg stamp FATAL msg s, 1)"

definition timer_end :: "string \<Rightarrow> string \<Rightarrow> nat \<Rightarrow> log_state \<Rightarrow> log_state" where
  "timer_end stamp nm ms s = log_msg stamp INFO (nm @ '' took: '' @ show_nat ms) s"

section \<open>The audit trail\<close>

text \<open>The messages of a run, in order, with their time stamps.\<close>

definition log_all :: "(string \<times> level \<times> string) list \<Rightarrow> log_state \<Rightarrow> log_state" where
  "log_all ms s = foldl (\<lambda>s (stamp, l, msg). log_msg stamp l msg s) s ms"

lemma log_msg_fields [simp]:
  "lg_level (log_msg stamp l msg s) = lg_level s" "lg_path (log_msg stamp l msg s) = lg_path s"
  "lg_stdout (log_msg stamp l msg s) = lg_stdout s"
  by (simp_all add: log_msg_def write_line_def to_stderr_def)

lemma should_log_same [simp]: "should_log (log_msg stamp l msg s) l2 = should_log s l2"
  by (simp add: should_log_def)

text \<open>The log file is the audit trail: with a file configured, whatever is logged in whatever order, it gains
  one line for each message of at least the configured urgency, in order, with its level, and never loses a
  byte; the errors among them, and nothing else, reach the console. At the default level that is
  everything but the debug messages.\<close>

theorem audit_trail:
  "lg_path s \<noteq> [] \<Longrightarrow>
   lg_file (log_all ms s) = lg_file s @ concat (map (\<lambda>(stamp, l, msg). log_line stamp l msg @ newline)
     (filter (\<lambda>(_, l, _). OFF < l \<and> l \<le> lg_level s) ms)) \<and>
   lg_stderr (log_all ms s) = lg_stderr s @ concat (map (\<lambda>(_, _, msg). msg @ newline)
     (filter (\<lambda>(_, l, _). OFF < l \<and> l \<le> lg_level s \<and> l \<le> ERROR) ms)) \<and>
   lg_stdout (log_all ms s) = lg_stdout s"
proof (induction ms arbitrary: s)
  case Nil
  then show ?case by (simp add: log_all_def)
next
  case (Cons m ms)
  obtain stamp l msg where m: "m = (stamp, l, msg)" by (cases m)
  have off: "OFF < l \<longleftrightarrow> l \<noteq> OFF" for l by (cases l) (simp_all add: less_level_def level_number_def)
  have "log_all (m # ms) s = log_all ms (log_msg stamp l msg s)" by (simp add: log_all_def m)
  with Cons.IH [of "log_msg stamp l msg s"] Cons.prems show ?case
    by (simp add: m off log_msg_def should_log_def write_line_def to_stderr_def)
qed

theorem audit_trail_witness:
  "lg_file (log_all [(''t1'', INFO, ''issued''), (''t2'', DEBUG, ''x''), (''t3'', ERROR, ''no'')]
      \<lparr>lg_level = INFO, lg_path = ''yca.log'', lg_file = [], lg_stderr = [], lg_stdout = []\<rparr>) =
   ''t1 INFO  issued'' @ newline @ ''t3 ERROR no'' @ newline"
  using audit_trail [of "\<lparr>lg_level = INFO, lg_path = ''yca.log'', lg_file = [], lg_stderr = [], lg_stdout = []\<rparr>"
      "[(''t1'', INFO, ''issued''), (''t2'', DEBUG, ''x''), (''t3'', ERROR, ''no'')]"]
  by (simp add: less_level_def less_eq_level_def level_number_def log_line_def as_string_def)

lemma parent_path_name:
  "slash \<notin> set nm \<Longrightarrow> nm \<noteq> [] \<Longrightarrow> dir \<noteq> [] \<Longrightarrow> last dir \<noteq> slash \<Longrightarrow> parent_path (dir @ [slash] @ nm) = dir"
  by (cases dir rule: rev_cases) (auto simp: parent_path_def Let_def dropWhile_append)

lemma parent_path_trailing:
  "p \<noteq> [] \<Longrightarrow> last p \<noteq> slash \<Longrightarrow> parent_path (p @ [slash]) = p"
  by (cases p rule: rev_cases) (auto simp: parent_path_def Let_def)

text \<open>The log lies beside the store, with or without a slash after its name.\<close>

lemma default_path_beside:
  assumes "slash \<notin> set nm" and "nm \<noteq> []" and "dir \<noteq> []" and "last dir \<noteq> slash"
  shows "default_path (dir @ [slash] @ nm) = dir @ ''/yca.log''" "default_path (dir @ [slash] @ nm @ [slash]) = dir @ ''/yca.log''"
proof -
  have nm: "last nm \<noteq> slash" using assms(1,2) by (metis last_in_set)
  have one: "parent_path (dir @ [slash] @ nm) = dir" by (rule parent_path_name [OF assms])
  have two: "parent_path ((dir @ [slash] @ nm) @ [slash]) = dir @ [slash] @ nm"
    using assms(2) nm by (intro parent_path_trailing) simp_all
  show "default_path (dir @ [slash] @ nm) = dir @ ''/yca.log''"
    using one assms nm by (simp add: default_path_def append_path_def has_filename_def Let_def app_name_def) (simp add: slash_def)
  show "default_path (dir @ [slash] @ nm @ [slash]) = dir @ ''/yca.log''"
    using one two assms nm by (simp add: default_path_def append_path_def has_filename_def Let_def app_name_def) (simp add: slash_def)
qed

lemma default_path_set [simp]: "default_path store \<noteq> []"
  by (simp add: default_path_def append_path_def app_name_def Let_def)

text \<open>A program that starts has a log file, whatever \<^verbatim>\<open>--log\<close> says, and the file could be
  opened.\<close>

lemma start_log_configured:
  assumes "start_log can_open stamp given store s = Some s'"
  shows "lg_path s' \<noteq> [] \<and> can_open (lg_path s') \<and>
    lg_path s' = (case given of Some f \<Rightarrow> if f \<noteq> [] then f else default_path store | None \<Rightarrow> default_path store)"
  using assms by (auto simp: start_log_def set_file_def to_stderr_def Let_def split: option.split_asm if_split_asm)

end
