(* ===== verification/Spec2Isabelle.thy ===== *)
theory Spec2Isabelle
  imports Der History Cli Seed Log
begin

text \<open>
  Verification library of yca, a two-tier certificate authority on the command line: a root signs issuing
  CAs, one per purpose and generation, and these sign leaves and revocation lists. All state is in one
  directory: a SQLite store (certificates, encrypted keys, an index, the enrollments, the locked
  configuration), the published artifacts \<^verbatim>\<open>ca/*.pem, *.crt, *.crl\<close> and the leaf
  files \<^verbatim>\<open>ee/*\<close>; CA keys may live on PKCS#11 tokens instead.

  \<^bold>\<open>How the parts interact.\<close> \<^verbatim>\<open>main\<close> parses the arguments, picks the
  configuration (the file for \<^verbatim>\<open>init\<close> and \<^verbatim>\<open>add\<close>, the snapshot in
  the store for all others) and calls one operation of \<^verbatim>\<open>src/ca.cpp\<close>. An operation that
  changes the store makes its checks on the store as it finds it, gets its keys (slow, and without a lock),
  takes the write lock, repeats some checks, writes the store and commits. Several processes may do so at
  once. The model keeps this shape: each operation is a precheck and a locked half, a definition each,
  composed as the code composes them; theory System lets the halves of different commands interleave.

  \<^bold>\<open>Theories and what they model.\<close> Paths are under \<^verbatim>\<open>src/\<close> of the repository.
  \<^item> Prelude: strings, splitting, decimal numbers, casts. Ordered_Map: the locale of
    \<^verbatim>\<open>std::map\<close> and its interpretation by sorted association lists.
  \<^item> App and Profile: the constants of \<^verbatim>\<open>src/app.h\<close>, the table of
    \<^verbatim>\<open>src/profile.h\<close>.
  \<^item> Util: \<^verbatim>\<open>src/util.cpp\<close> function by function, with grammars its one-pass checks are
    shown equivalent to.
  \<^item> Config: \<^verbatim>\<open>src/config.h\<close> and \<^verbatim>\<open>cfg::load\<close> of
    \<^verbatim>\<open>src/config.cpp\<close> from the parsed TOML tree on, with every error it can report.
  \<^item> Store: \<^verbatim>\<open>src/store.cpp\<close>, what binding and reading a column do to a value.
  \<^item> Snapshot: \<^verbatim>\<open>locked_global\<close>, \<^verbatim>\<open>lock_purpose\<close>,
    \<^verbatim>\<open>load_config\<close>, \<^verbatim>\<open>reconcile\<close> of \<^verbatim>\<open>src/ca.cpp\<close>.
  \<^item> X509 and Der: names and extensions of every certificate; \<^verbatim>\<open>src/x509ext.cpp\<close> byte
    for byte.
  \<^item> Keys: \<^verbatim>\<open>src/p11.cpp\<close>, the sessions and keys of \<^verbatim>\<open>src/ca.cpp\<close>,
    and the locale of Botan's certificate and key tables.
  \<^item> Db: the tables \<^verbatim>\<open>cert_index\<close>, \<^verbatim>\<open>ca_cert_index\<close>,
    \<^verbatim>\<open>enrollment\<close> as lists of rows with every query over them, the clamping of
    nextUpdate, pruning, \<^verbatim>\<open>normalize_serial\<close>, the walk to the issuers.
  \<^item> World: \<^verbatim>\<open>write_file\<close> and the state of an operation: store, files, tokens, and
    from outside the clock, the secrets, whether the lock is obtained and the commit succeeds.
  \<^item> Issue: \<^verbatim>\<open>issue_ee\<close>, \<^verbatim>\<open>enroll\<close>,
    \<^verbatim>\<open>get_nonce\<close>, \<^verbatim>\<open>sign_csr\<close>. Crl: \<^verbatim>\<open>revoke\<close>,
    \<^verbatim>\<open>revoke_ca\<close>, \<^verbatim>\<open>refresh_crl\<close>. Ceremony:
    \<^verbatim>\<open>init\<close>, \<^verbatim>\<open>create\<close>, \<^verbatim>\<open>add_signing_ca\<close>,
    \<^verbatim>\<open>renew_signing_ca\<close>, \<^verbatim>\<open>mint_ca_generation\<close>,
    \<^verbatim>\<open>is_initialized\<close>. Query: \<^verbatim>\<open>get_cert\<close>,
    \<^verbatim>\<open>list_certs\<close>.
  \<^item> System: the transition system of all commands with crashes between the halves; the locales of
    transition systems and their invariants, interpreted on it; the account of nonces it refines. History: what its steps do to the published lists.
  \<^item> Cli: \<^verbatim>\<open>src/main.cpp\<close>. Seed: \<^verbatim>\<open>src/seed.cpp\<close> and
    \<^verbatim>\<open>src/seed_main.cpp\<close>. Log: \<^verbatim>\<open>src/log.h\<close>.

  \<^bold>\<open>State.\<close> A struct is a record with a prefix to its fields, an enum a datatype, an exception
  or a refusal a constructor of an error type in a sum. A record of the store, \<^verbatim>\<open>db\<close>, has a
  field per table, \<^term>\<open>None\<close> where the table does not exist. 32- and 64-bit arithmetic that can
  wrap is on words (\<^verbatim>\<open>days_to_seconds\<close>, \<^verbatim>\<open>outlives_issuer\<close>, the bounds of
  \<^verbatim>\<open>list\<close>); an \<^verbatim>\<open>int\<close> read from the file is cast as the code casts it.

  \<^bold>\<open>What the theorems show.\<close> The parsers and checks accept their grammars and nothing else
  (Util, Db); alphabets, units and tags are written out in the statements, not taken from the code. An
  accepted configuration has the formats, limits, separate names and token labels the loader asks for, and
  comes back unchanged from the store (Config, Snapshot). A leaf has usages, policies and a validity its CA covers, and no leaf
  passes for a CA (X509, Issue, World). The encoder round-trips (Der). A nonce buys one certificate, for one
  request and for all interleavings (Issue, System). What is issued is on record, blocks a duplicate, is
  exported and listed (Issue, Query, Cli). Revocation publishes on the list of the issuing generation, signed with its key, spares the active
  generations and fails without a trace in the store; a refresh re-signs the list of every live generation in
  scope and changes nothing else (Crl). A ceremony locks the
  configuration, is never mistaken for a finished one when cut short, touches no file but those of the
  generation it makes, and a renewal leaves one active generation (Ceremony). The tables keep their keys and every indexed certificate is stored in every
  reachable state, and a published list is only ever followed by later ones that carry its entries on, unless
  an \<^verbatim>\<open>add\<close> or \<^verbatim>\<open>renew\<close> mints the generation of its slug (System,
  History); every run of the program is a sequence of steps (Cli). Where the code falls
  short of what it means to do, a theorem states what it does: two renewals at once (Ceremony), a taken
  name in \<^verbatim>\<open>add\<close> (Ceremony), a client name that leaves its directory (Issue), a write
  that fails after it was checked (World), a revocation whose commit fails (Crl).

  \<^bold>\<open>Bounds and fuel.\<close> No definition carries fuel; every recursion is structural or has its
  termination proof, the walk to the issuers by the certificates not yet seen. The number \<open>n\<close> given to
  \<^verbatim>\<open>create\<close> and \<^verbatim>\<open>init\<close> is how many statements of the ceremony are carried
  out before it is interrupted; any \<open>n\<close> from their number on is an uninterrupted run. Hypotheses
  such as \<^prop>\<open>now < 2 ^ 62\<close> are on clock values where the arithmetic is on words.

  \<^bold>\<open>Parameters.\<close> Botan, the PKCS#11 module, SQLite, CLI11 and toml++ are outside: the serial
  number, fingerprint, key identifier and key pair of a new certificate are arguments (\<^verbatim>\<open>fresh\<close>),
  as are Botan's canonical form of a SAN and its parser of requests; a private key is named by its public
  half and a signature by its signer; a token is a list of labelled objects; rows come in the order of the
  table where SQL leaves the order open, and nothing stated depends on it. Botan's certificate table is modelled as documented,
  its test of a CA from the vendored source.

  \<^bold>\<open>Not modelled.\<close> The ACME frontend under \<^verbatim>\<open>src/acme\<close>, a separate program in
  another language; the vendored libraries; file permissions; error texts (constructors carry the
  values they are formatted from); the formatting of time stamps; the splitting of the command line into options, which is CLI11's;
  the help text; in theory System the interleaving of the single reads and artifact writes of one precheck,
  which is one step there; the exception of \<^verbatim>\<open>create_directories\<close> for the directory of
  a leaf's files, after the certificate is committed; the undefined overflow of \<^verbatim>\<open>limit + 1\<close> in
  \<^verbatim>\<open>list_certs\<close> for the largest \<^verbatim>\<open>int\<close>; the adaptor through which
  Botan drives SQLite, apart from the values it binds and reads.
\<close>

end
